(* ===== verification/Prelude.thy ===== *)
theory Prelude
  imports Main "HOL-Library.Word"
begin

text \<open>
  The vocabulary every component shares: the fixed-width integer types of
  \<^verbatim>\<open>DCS_ModuleUtils.h\<close>, the outcome of running a piece of C++ (a value, a fault of the
  runtime, or a thread that sleeps on a condition variable), raw memory copies on byte lists,
  the little-endian image of integers that \<^verbatim>\<open>memcpy\<close> produces on x86-64, C strings and
  the decimal output of \<^verbatim>\<open>std::to_string\<close>.
\<close>

unbundle bit_operations_syntax

named_theorems outcome_simps
named_theorems wire_simps

section \<open>Machine types\<close>

text \<open>A signed type is the word of its width, read with \<^const>\<open>sint\<close>.\<close>

type_synonym u8 = "8 word"
type_synonym u16 = "16 word"
type_synonym u32 = "32 word"
type_synonym u64 = "64 word"
type_synonym i8 = "8 word"
type_synonym i16 = "16 word"
type_synonym i32 = "32 word"
type_synonym i64 = "64 word"
type_synonym bytes = "u8 list"

section \<open>What running a piece of code can end in\<close>

text \<open>
  \<open>Fault\<close> is every end the C++ standard does not give a value to or that leaves by an
  exception: an access outside an object, a null pointer, \<^verbatim>\<open>std::out_of_range\<close>,
  \<^verbatim>\<open>std::bad_array_new_length\<close>, another exception of the standard library, a division by zero,
  memory that was never written or is no longer there. \<open>Blocked\<close> is a thread asleep on a
  condition variable whose predicate does not hold.
\<close>

datatype fault =
    OutOfBounds
  | NullPointer
  | OutOfRange
  | BadArrayLength
  | DivisionByZero
  | Uninitialised
  | Dangling
  | Thrown

datatype 'a outcome = Ok 'a | Fault fault | Blocked

fun obind :: "'a outcome \<Rightarrow> ('a \<Rightarrow> 'b outcome) \<Rightarrow> 'b outcome" where
  "obind (Ok x) f = f x"
| "obind (Fault e) f = Fault e"
| "obind Blocked f = Blocked"

fun is_Ok :: "'a outcome \<Rightarrow> bool" where
  "is_Ok (Ok x) = True"
| "is_Ok (Fault e) = False"
| "is_Ok Blocked = False"

lemma obind_eq_Ok [outcome_simps]: "obind r f = Ok y \<longleftrightarrow> (\<exists>x. r = Ok x \<and> f x = Ok y)"
  by (cases r) auto

lemma obind_OkE:
  assumes "obind r f = Ok y"
  obtains x where "r = Ok x" "f x = Ok y"
  using assms by (cases r) auto

lemma is_Ok_iff [outcome_simps]: "is_Ok r \<longleftrightarrow> (\<exists>x. r = Ok x)"
  by (cases r) auto

lemma is_Ok_obind [outcome_simps]: "is_Ok (obind r f) \<longleftrightarrow> (\<exists>x. r = Ok x \<and> is_Ok (f x))"
  by (cases r) auto

section \<open>Raw memory\<close>

text \<open>
  \<open>blit dst off src\<close> is \<^verbatim>\<open>memcpy(dst + off, src, |src|)\<close> when it stays inside
  \<open>dst\<close>; \<open>memcpy_to\<close> adds the fault when it does not.
\<close>

definition blit :: "'a list \<Rightarrow> nat \<Rightarrow> 'a list \<Rightarrow> 'a list" where
  "blit dst off src = take off dst @ src @ drop (off + length src) dst"

definition memcpy_to :: "'a list \<Rightarrow> nat \<Rightarrow> 'a list \<Rightarrow> 'a list outcome" where
  "memcpy_to dst off src =
     (if off + length src \<le> length dst then Ok (blit dst off src) else Fault OutOfBounds)"

definition memcpy_from :: "'a list \<Rightarrow> nat \<Rightarrow> nat \<Rightarrow> 'a list outcome" where
  "memcpy_from src off n =
     (if off + n \<le> length src then Ok (take n (drop off src)) else Fault OutOfBounds)"

definition read_at :: "'a list \<Rightarrow> nat \<Rightarrow> 'a outcome" where
  "read_at xs i = (if i < length xs then Ok (xs ! i) else Fault OutOfBounds)"

lemma length_blit [simp]: "off + length src \<le> length dst \<Longrightarrow> length (blit dst off src) = length dst"
  by (simp add: blit_def)

lemma take_blit_end [simp]: "off \<le> length dst \<Longrightarrow> take (off + length src) (blit dst off src) = take off dst @ src"
  by (simp add: blit_def)

lemma take_blit_front [simp]: "take (length src) (blit dst 0 src) = src"
  by (simp add: blit_def)

lemma memcpy_from_length: "memcpy_from src off n = Ok xs \<Longrightarrow> length xs = n"
  by (auto simp: memcpy_from_def split: if_splits)

section \<open>Little-endian integers\<close>

primrec le_bytes :: "nat \<Rightarrow> nat \<Rightarrow> bytes" where
  "le_bytes 0 v = []"
| "le_bytes (Suc k) v = word_of_nat (v mod 256) # le_bytes k (v div 256)"

primrec le_nat :: "bytes \<Rightarrow> nat" where
  "le_nat [] = 0"
| "le_nat (b # bs) = unat b + 256 * le_nat bs"

lemma length_le_bytes [simp, wire_simps]: "length (le_bytes k v) = k"
  by (induction k arbitrary: v) auto

lemma le_bytes_eval:
  "le_bytes (numeral k) v = word_of_nat (v mod 256) # le_bytes (pred_numeral k) (v div 256)"
  by (simp only: numeral_eq_Suc le_bytes.simps)

lemma unat_byte_mod [simp]: "unat (word_of_nat (v mod 256) :: u8) = v mod 256"
  by (simp add: unat_of_nat)

lemma le_nat_le_bytes [simp, wire_simps]: "le_nat (le_bytes k v) = v mod 256 ^ k"
proof (induction k arbitrary: v)
  case 0
  then show ?case by simp
next
  case (Suc k)
  have "v mod 256 + 256 * (v div 256 mod 256 ^ k) = v mod (256 * 256 ^ k)"
    by (simp add: mod_mult2_eq)
  with Suc show ?case by simp
qed

lemma le_nat_bound: "le_nat bs < 256 ^ length bs"
proof (induction bs)
  case Nil
  then show ?case by simp
next
  case (Cons b bs)
  have "unat b < 256" using unsigned_less [of b, where ?'a = nat] by simp
  moreover from Cons have "256 * le_nat bs + 256 \<le> 256 * 256 ^ length bs"
    by (metis Suc_leI mult_Suc_right mult_le_mono2 add.commute)
  ultimately show ?case by simp
qed

lemma le_bytes_le_nat [simp]: "le_bytes (length bs) (le_nat bs) = bs"
proof (induction bs)
  case Nil
  then show ?case by simp
next
  case (Cons b bs)
  have b: "unat b < 256" using unsigned_less [of b, where ?'a = nat] by simp
  then have "(unat b + 256 * le_nat bs) mod 256 = unat b"
    and "(unat b + 256 * le_nat bs) div 256 = le_nat bs"
    by simp_all
  with Cons show ?case by simp
qed

text \<open>The bytes of the integer types the protocol sends, and what reading them back gives.\<close>

definition put32 :: "32 word \<Rightarrow> bytes" where
  "put32 w = le_bytes 4 (unat w)"

definition put64 :: "64 word \<Rightarrow> bytes" where
  "put64 w = le_bytes 8 (unat w)"

definition get32 :: "bytes \<Rightarrow> 32 word" where
  "get32 bs = word_of_nat (le_nat (take 4 bs))"

definition get64 :: "bytes \<Rightarrow> 64 word" where
  "get64 bs = word_of_nat (le_nat (take 8 bs))"

lemma length_put [simp, wire_simps]: "length (put32 w) = 4" "length (put64 x) = 8"
  by (simp_all add: put32_def put64_def)

lemma get32_put32 [simp, wire_simps]: "get32 (put32 w @ bs) = w"
  using unsigned_less [of w, where ?'a = nat] by (simp add: get32_def put32_def)

lemma get64_put64 [simp, wire_simps]: "get64 (put64 w @ bs) = w"
  using unsigned_less [of w, where ?'a = nat] by (simp add: get64_def put64_def)

lemma put32_inject [simp]: "put32 a = put32 b \<longleftrightarrow> a = b"
  using get32_put32 [of _ "[]"] by (metis append_Nil2)

lemma get32_cong: "take 4 xs = take 4 ys \<Longrightarrow> get32 xs = get32 ys"
  by (simp add: get32_def)

section \<open>Small values keep their meaning across widths\<close>

lemma sint_of_small_nat [simp]: "L < 2 ^ 31 \<Longrightarrow> sint (word_of_nat L :: i32) = int L"
  by (simp add: signed_of_nat signed_take_bit_int_eq_self)

lemma scast_of_small_nat [simp]: "L < 2 ^ 31 \<Longrightarrow> (scast (word_of_nat L :: i32) :: u64) = word_of_nat L"
  by (simp add: scast_eq)

lemma unat_of_small_nat [simp]: "L < 2 ^ 64 \<Longrightarrow> unat (word_of_nat L :: u64) = L"
  by (simp add: unat_of_nat)

lemma unat32_of_small_nat [simp]: "L < 2 ^ 32 \<Longrightarrow> unat (word_of_nat L :: u32) = L"
  by (simp add: unat_of_nat)

lemma word_of_nat_le_iff: "L < 2 ^ 64 \<Longrightarrow> (word_of_nat L :: u64) \<le> w \<longleftrightarrow> L \<le> unat w"
  by (simp add: word_le_nat_alt)

lemma uint_scast: "uint (scast (n :: i32) :: u64) = sint n mod 2 ^ 64"
  by (simp only: scast_eq uint_word_of_int) simp

lemma sint_of_int32: "sint (word_of_int k :: i32) = signed_take_bit 31 k"
  by (simp add: signed_of_int)

lemma scast_negative:
  assumes "sint (n :: i32) < 0"
  shows "unat (scast n :: u64) = nat (2 ^ 64 + sint n)"
proof -
  have lo: "- (2 ^ 31) \<le> sint n" using sint_greater_eq [of n] by simp
  have "sint n mod 2 ^ 64 = (2 ^ 64 + sint n) mod 2 ^ 64" by simp
  also have "\<dots> = 2 ^ 64 + sint n" using assms lo by (intro mod_pos_pos_trivial) auto
  finally show ?thesis using uint_scast [of n] by (metis nat_uint_eq)
qed

lemma scast_nonneg:
  assumes "0 \<le> sint (n :: i32)"
  shows "unat (scast n :: u64) = nat (sint n)"
proof -
  have hi: "sint n < 2 ^ 31" using sint_less [of n] by simp
  then have "sint n mod 2 ^ 64 = sint n" using assms by (intro mod_pos_pos_trivial) auto
  then show ?thesis using uint_scast [of n] by (metis nat_uint_eq)
qed

lemma sint_plus4:
  assumes "sint (n :: i32) < 2 ^ 31 - 4"
  shows "sint (n + 4) = sint n + 4"
proof -
  have lo: "- (2 ^ 31) \<le> sint n" using sint_greater_eq [of n] by simp
  have "n + 4 = word_of_int (sint n + 4)" by simp
  moreover have "signed_take_bit 31 (sint n + 4) = sint n + 4"
    using assms lo by (intro signed_take_bit_int_eq_self) auto
  ultimately show ?thesis using sint_of_int32 by metis
qed

section \<open>C strings and decimal output\<close>

abbreviation NUL :: char where
  "NUL \<equiv> CHR 0x00"

definition cstr :: "string \<Rightarrow> string" where
  "cstr buf = takeWhile (\<lambda>c. c \<noteq> NUL) buf"

definition strlen :: "string \<Rightarrow> nat" where
  "strlen buf = length (cstr buf)"

lemma cstr_no_nul [simp]: "NUL \<notin> set s \<Longrightarrow> cstr (s @ NUL # t) = s"
  unfolding cstr_def by (induction s) auto

lemma cstr_id: "NUL \<notin> set s \<Longrightarrow> cstr s = s"
  unfolding cstr_def by (induction s) auto

lemma nul_notin_cstr [simp]: "NUL \<notin> set (cstr s)"
  unfolding cstr_def by (induction s) auto

definition digit_char :: "nat \<Rightarrow> char" where
  "digit_char d = char_of (48 + d)"

fun dec_nat :: "nat \<Rightarrow> string" where
  "dec_nat n = (if n < 10 then [digit_char n] else dec_nat (n div 10) @ [digit_char (n mod 10)])"

declare dec_nat.simps [simp del]

definition to_string :: "int \<Rightarrow> string" where
  "to_string i = (if i < 0 then CHR ''-'' # dec_nat (nat (- i)) else dec_nat (nat i))"

definition digit_value :: "char \<Rightarrow> nat" where
  "digit_value c = of_char c - 48"

definition dec_value :: "string \<Rightarrow> nat" where
  "dec_value s = foldl (\<lambda>acc c. 10 * acc + digit_value c) 0 s"

lemma digit_value_char [simp]: "d < 10 \<Longrightarrow> digit_value (digit_char d) = d"
  by (simp add: digit_value_def digit_char_def)

lemma dec_nat_value [simp]: "dec_value (dec_nat n) = n"
proof (induction n rule: dec_nat.induct)
  case (1 n)
  then show ?case
    by (subst dec_nat.simps) (auto simp: dec_value_def)
qed

lemma dec_nat_inject [simp]: "dec_nat a = dec_nat b \<longleftrightarrow> a = b"
  by (metis dec_nat_value)

lemma dec_nat_nonempty [simp]: "dec_nat n \<noteq> []"
  by (subst dec_nat.simps) simp

lemma dec_nat_digits: "c \<in> set (dec_nat n) \<Longrightarrow> \<exists>d<10. c = digit_char d"
proof (induction n rule: dec_nat.induct)
  case (1 n)
  show ?case
  proof (cases "n < 10")
    case True
    with "1.prems" show ?thesis by (subst (asm) dec_nat.simps) auto
  next
    case False
    with "1.prems" have "c \<in> set (dec_nat (n div 10)) \<or> c = digit_char (n mod 10)"
      by (subst (asm) dec_nat.simps) auto
    moreover have "n mod 10 < 10" by simp
    ultimately show ?thesis using "1.IH" [OF False] by blast
  qed
qed

lemma length_dec_nat_le: "n < 10 ^ Suc k \<Longrightarrow> length (dec_nat n) \<le> Suc k"
proof (induction k arbitrary: n)
  case 0
  then show ?case by (subst dec_nat.simps) simp
next
  case (Suc k)
  show ?case
  proof (cases "n < 10")
    case True
    then show ?thesis by (subst dec_nat.simps) simp
  next
    case False
    have "n div 10 < 10 ^ Suc k" using Suc.prems by (simp add: less_mult_imp_div_less)
    then show ?thesis using Suc.IH False by (subst dec_nat.simps) simp
  qed
qed

lemma dec_nat_bound: "length (dec_nat n) \<le> k \<Longrightarrow> n < 10 ^ k"
proof (induction k arbitrary: n)
  case (Suc k)
  show ?case
  proof (cases "n < 10")
    case False
    then have "length (dec_nat (n div 10)) \<le> k" using Suc.prems by (subst (asm) dec_nat.simps) simp
    then have "n div 10 < 10 ^ k" by (rule Suc.IH)
    then show ?thesis by (simp add: div_less_iff_less_mult mult.commute)
  qed (insert one_le_power [of "10 :: nat" k], unfold power_Suc, linarith)
qed simp

section \<open>Bytes and characters\<close>

definition byte_char :: "u8 \<Rightarrow> char" where
  "byte_char b = char_of (unat b)"

definition char_byte :: "char \<Rightarrow> u8" where
  "char_byte c = word_of_nat (of_char c)"

lemma byte_char_byte [simp]: "byte_char (char_byte c) = c"
proof -
  have "of_char c < (256 :: nat)" by simp
  then have "unat (char_byte c) = (of_char c :: nat)" by (simp add: char_byte_def unat_of_nat)
  then show ?thesis by (simp add: byte_char_def)
qed

lemma char_byte_NUL [simp]: "char_byte NUL = 0"
  by (simp add: char_byte_def)

lemma byte_char_0 [simp]: "byte_char 0 = NUL"
  by code_simp

lemma map_byte_char [simp]: "map byte_char (map char_byte s) = s"
  by (simp add: comp_def)

lemma char_byte_char [simp]: "char_byte (byte_char b) = b"
  using unsigned_less [of b, where ?'a = nat] by (simp add: char_byte_def byte_char_def)

section \<open>Splitting texts\<close>

text \<open>The parts of a text between the occurrences of a character, one more than there are occurrences.\<close>

fun split_on :: "char \<Rightarrow> string \<Rightarrow> string list" where
  "split_on c [] = [[]]"
| "split_on c (x # xs) = (case split_on c xs of [] \<Rightarrow> [] | w # ws \<Rightarrow> if x = c then [] # w # ws else (x # w) # ws)"

lemma split_on_nonempty [simp]: "split_on c xs \<noteq> []"
  by (induction xs) (auto split: list.splits)

lemma split_on_absent: "c \<notin> set xs \<Longrightarrow> split_on c xs = [xs]"
  by (induction xs) auto

lemma split_on_append: "split_on c (xs @ c # ys) = split_on c xs @ split_on c ys"
proof (induction xs)
  case Nil
  then show ?case by (cases "split_on c ys") simp_all
next
  case (Cons x xs)
  then show ?case by (cases "split_on c xs") simp_all
qed

lemma last_split_on: "c \<notin> set ys \<Longrightarrow> last (split_on c (xs @ c # ys)) = ys"
  by (simp add: split_on_append split_on_absent)

end
