(* ===== verification/ByteQueue.thy ===== *)
theory ByteQueue
  imports Prelude
begin

text \<open>
  The thread-safe byte queue of \<^verbatim>\<open>DCS_Utils/include/internal.h\<close>, which turns the
  byte stream a socket delivers back into length-prefixed messages. The record keeps the
  physical array, so every \<^verbatim>\<open>memcpy\<close> of the source is a copy on it, with its fault when it
  leaves the array; the two condition-variable waits of \<^verbatim>\<open>fetchNextMsg\<close> cut that
  operation into two segments between which other threads run.
\<close>

section \<open>State and operations\<close>

record byte_queue =
  buffer :: bytes
  internal_buff_size :: u64
  internal_buff_max_size :: u64
  ntf_unblock :: bool

text \<open>\<open>mem\<close> is the uninitialised array that \<^verbatim>\<open>new u8[buffer_size]\<close> returns.\<close>

definition ByteQueue_new :: "bytes \<Rightarrow> byte_queue" where
  "ByteQueue_new mem =
     \<lparr>buffer = mem, internal_buff_size = 0,
      internal_buff_max_size = word_of_nat (length mem), ntf_unblock = False\<rparr>"

definition addBytes :: "byte_queue \<Rightarrow> bytes \<Rightarrow> byte_queue outcome" where
  "addBytes q data =
     (let size = word_of_nat (length data) in
      if internal_buff_size q + size \<le> internal_buff_max_size q then
        obind (memcpy_to (buffer q) (unat (internal_buff_size q)) data) (\<lambda>b.
          Ok (q\<lparr>buffer := b, internal_buff_size := internal_buff_size q + size\<rparr>))
      else Blocked)"

text \<open>
  \<^verbatim>\<open>fetchNextMsg\<close> up to its second wait: \<open>Ok None\<close> is the early return 0 after
  \<^verbatim>\<open>notify_unblock\<close>, \<open>Ok (Some to_read)\<close> a header that was read.
\<close>

definition fetch_begin :: "byte_queue \<Rightarrow> i32 option outcome" where
  "fetch_begin q =
     (if 4 \<le> internal_buff_size q \<or> ntf_unblock q then
        if ntf_unblock q then Ok None
        else obind (memcpy_from (buffer q) 0 4) (\<lambda>h. Ok (Some (get32 h)))
      else Blocked)"

text \<open>
  The rest of \<^verbatim>\<open>fetchNextMsg\<close>. \<^verbatim>\<open>packet_size\<close> is an \<^verbatim>\<open>i32\<close>; comparing it with, and
  subtracting it from, the \<^verbatim>\<open>u64\<close> size sign-extends it, and so does passing
  \<^verbatim>\<open>to_read\<close> as the length of \<^verbatim>\<open>memcpy\<close>. The result is what was copied to
  \<^verbatim>\<open>buffer_dst\<close>, the returned length and the queue.
\<close>

definition fetch_finish :: "byte_queue \<Rightarrow> i32 \<Rightarrow> (bytes \<times> u64 \<times> byte_queue) outcome" where
  "fetch_finish q to_read =
     (let packet_size = scast (to_read + 4) :: u64;
          size' = internal_buff_size q - packet_size
      in if packet_size \<le> internal_buff_size q then
           obind (memcpy_from (buffer q) 4 (unat (scast to_read :: u64))) (\<lambda>dst.
           obind (if 0 < size'
                  then obind (memcpy_from (buffer q) (unat packet_size) (unat size'))
                         (memcpy_to (buffer q) 0)
                  else Ok (buffer q)) (\<lambda>b.
             Ok (dst, scast to_read, q\<lparr>buffer := b, internal_buff_size := size'\<rparr>)))
         else Blocked)"

definition fetchNextMsg :: "byte_queue \<Rightarrow> (bytes \<times> u64 \<times> byte_queue) outcome" where
  "fetchNextMsg q =
     obind (fetch_begin q) (\<lambda>r. case r of
         None \<Rightarrow> Ok ([], 0, q)
       | Some to_read \<Rightarrow> fetch_finish q to_read)"

definition count :: "byte_queue \<Rightarrow> u64" where
  "count q = internal_buff_size q"

definition notify_unblock :: "byte_queue \<Rightarrow> byte_queue" where
  "notify_unblock q = q\<lparr>ntf_unblock := True\<rparr>"

definition notify_restart :: "bytes \<Rightarrow> byte_queue \<Rightarrow> byte_queue" where
  "notify_restart mem q = q\<lparr>internal_buff_size := 0, buffer := mem, ntf_unblock := False\<rparr>"

section \<open>Abstraction: the queue as a byte string\<close>

definition bq_inv :: "byte_queue \<Rightarrow> bool" where
  "bq_inv q \<longleftrightarrow> length (buffer q) = unat (internal_buff_max_size q)
     \<and> internal_buff_size q \<le> internal_buff_max_size q"

definition content :: "byte_queue \<Rightarrow> bytes" where
  "content q = take (unat (internal_buff_size q)) (buffer q)"

definition capacity :: "byte_queue \<Rightarrow> nat" where
  "capacity q = unat (internal_buff_max_size q)"

text \<open>A message on the wire: a 4-byte length followed by that many bytes.\<close>

definition header :: "bytes \<Rightarrow> i32" where
  "header m = word_of_nat (length m)"

definition frame :: "bytes \<Rightarrow> bytes" where
  "frame m = put32 (header m) @ m"

definition valid_msg :: "bytes \<Rightarrow> bool" where
  "valid_msg m \<longleftrightarrow> 0 < length m \<and> length m + 4 < 2 ^ 31"

lemma length_frame [simp]: "length (frame m) = length m + 4"
  by (simp add: frame_def)

lemma whole_frame_in_front:
  assumes "xs @ ys = frame m @ zs" and "length m + 4 \<le> length xs"
  shows "\<exists>rest. xs = frame m @ rest"
proof -
  have "frame m = take (length m + 4) (xs @ ys)" unfolding assms(1) by simp
  also have "\<dots> = take (length m + 4) xs" using assms(2) by simp
  finally have "xs = frame m @ drop (length m + 4) xs" by simp
  then show ?thesis ..
qed

lemma bq_inv_new [simp]: "length mem < 2 ^ 64 \<Longrightarrow> bq_inv (ByteQueue_new mem)"
  by (simp add: bq_inv_def ByteQueue_new_def)

lemma content_new [simp]: "content (ByteQueue_new mem) = []"
  by (simp add: content_def ByteQueue_new_def)

lemma capacity_new [simp]: "length mem < 2 ^ 64 \<Longrightarrow> capacity (ByteQueue_new mem) = length mem"
  by (simp add: capacity_def ByteQueue_new_def)

lemma unblock_new [simp]: "ntf_unblock (ByteQueue_new mem) = False"
  by (simp add: ByteQueue_new_def)

lemma size_le_buffer: "bq_inv q \<Longrightarrow> unat (internal_buff_size q) \<le> length (buffer q)"
  by (simp add: bq_inv_def word_le_nat_alt)

lemma length_content: "bq_inv q \<Longrightarrow> length (content q) = unat (internal_buff_size q)"
  using size_le_buffer by (simp add: content_def)

lemma capacity_bound: "capacity q < 2 ^ 64"
  using unsigned_less [of "internal_buff_max_size q", where ?'a = nat] by (simp add: capacity_def)

lemma size_add_nat:
  assumes "unat (w :: u64) + n < 2 ^ 64"
  shows "unat (w + word_of_nat n) = unat w + n"
  using assms by (simp add: unat_word_ariths)

lemma addBytes_room:
  assumes inv: "bq_inv q" and room: "length (content q) + length d \<le> capacity q"
  shows "\<exists>q'. addBytes q d = Ok q' \<and> bq_inv q' \<and> content q' = content q @ d
           \<and> capacity q' = capacity q \<and> ntf_unblock q' = ntf_unblock q"
proof -
  let ?s = "unat (internal_buff_size q)"
  have fits: "?s + length d \<le> capacity q" using room length_content [OF inv] by simp
  then have nowrap: "?s + length d < 2 ^ 64" using capacity_bound [of q] by linarith
  then have sum: "unat (internal_buff_size q + word_of_nat (length d)) = ?s + length d"
    by (rule size_add_nat)
  have buf: "length (buffer q) = capacity q" using inv by (simp add: bq_inv_def capacity_def)
  have s: "?s \<le> length (buffer q)" using inv by (rule size_le_buffer)
  have "internal_buff_size q + word_of_nat (length d) \<le> internal_buff_max_size q"
    using fits sum by (simp add: word_le_nat_alt capacity_def)
  then show ?thesis
    using fits buf inv sum s
    by (simp add: addBytes_def memcpy_to_def bq_inv_def content_def capacity_def Let_def)
qed

lemma addBytes_full:
  assumes inv: "bq_inv q" and full: "capacity q < length (content q) + length d"
    and nowrap: "capacity q + length d < 2 ^ 64"
  shows "addBytes q d = Blocked"
proof -
  let ?s = "unat (internal_buff_size q)"
  have "?s \<le> capacity q" using inv by (simp add: bq_inv_def capacity_def word_le_nat_alt)
  then have "unat (internal_buff_size q + word_of_nat (length d)) = ?s + length d"
    using nowrap by (intro size_add_nat) linarith
  then have "\<not> internal_buff_size q + word_of_nat (length d) \<le> internal_buff_max_size q"
    using full length_content [OF inv] by (simp add: word_le_nat_alt capacity_def)
  then show ?thesis by (simp add: addBytes_def Let_def)
qed

lemma fetch_begin_short:
  assumes "bq_inv q" "\<not> ntf_unblock q" "length (content q) < 4"
  shows "fetch_begin q = Blocked"
  using assms length_content [of q] by (simp add: fetch_begin_def word_le_nat_alt)

lemma fetch_begin_header:
  assumes inv: "bq_inv q" and run: "\<not> ntf_unblock q" and four: "4 \<le> length (content q)"
  shows "fetch_begin q = Ok (Some (get32 (content q)))"
proof -
  have "4 \<le> unat (internal_buff_size q)" using four length_content [OF inv] by simp
  moreover from this have "4 \<le> length (buffer q)" using size_le_buffer [OF inv] by linarith
  ultimately show ?thesis
    using run by (simp add: fetch_begin_def memcpy_from_def word_le_nat_alt content_def
        get32_def min_def)
qed

lemma packet_size_eq:
  "valid_msg m \<Longrightarrow> (scast (header m + 4) :: u64) = word_of_nat (length m + 4)"
proof -
  assume "valid_msg m"
  then have "length m + 4 < 2 ^ 31" by (simp add: valid_msg_def)
  moreover have "header m + 4 = (word_of_nat (length m + 4) :: i32)" by (simp add: header_def)
  ultimately show ?thesis by (metis scast_of_small_nat)
qed

lemma fetch_finish_short:
  assumes inv: "bq_inv q" and m: "valid_msg m" and short: "length (content q) < length m + 4"
  shows "fetch_finish q (header m) = Blocked"
proof -
  have "length m + 4 < 2 ^ 64" using m by (simp add: valid_msg_def)
  then have "\<not> (word_of_nat (length m + 4) :: u64) \<le> internal_buff_size q"
    using short length_content [OF inv] by (simp add: word_of_nat_le_iff del: of_nat_add)
  then show ?thesis by (simp add: fetch_finish_def packet_size_eq [OF m] Let_def)
qed

lemma fetch_finish_frame:
  assumes inv: "bq_inv q" and m: "valid_msg m" and c: "content q = frame m @ rest"
  shows "\<exists>q'. fetch_finish q (header m) = Ok (m, word_of_nat (length m), q') \<and> bq_inv q'
           \<and> content q' = rest \<and> capacity q' = capacity q \<and> ntf_unblock q' = ntf_unblock q"
proof -
  let ?s = "unat (internal_buff_size q)" and ?p = "length m + 4"
  let ?p64 = "word_of_nat ?p :: u64"
  let ?s' = "internal_buff_size q - ?p64"
  have p31: "?p < 2 ^ 31" using m by (simp add: valid_msg_def)
  then have p: "unat ?p64 = ?p" by (intro unat_of_small_nat) simp
  have s: "?s = ?p + length rest" using length_content [OF inv] c by simp
  have le: "?p64 \<le> internal_buff_size q" using s p by (simp add: word_le_nat_alt del: of_nat_add)
  then have s': "unat ?s' = length rest" using s p by (simp add: unat_sub del: of_nat_add)
  have sb: "?s \<le> length (buffer q)" using inv by (rule size_le_buffer)
  have buf: "buffer q = (frame m @ rest) @ drop ?s (buffer q)"
    using c append_take_drop_id [of ?s "buffer q"] by (simp add: content_def)
  have tr: "unat (scast (header m) :: u64) = length m" "(scast (header m) :: u64) = word_of_nat (length m)"
    using p31 by (simp_all add: header_def)
  have dst: "memcpy_from (buffer q) 4 (unat (scast (header m) :: u64)) = Ok m"
    unfolding tr(1) using s sb by (subst buf) (simp add: memcpy_from_def frame_def)
  have rest: "memcpy_from (buffer q) (unat ?p64) (unat ?s') = Ok rest"
    using s sb by (subst buf) (simp add: memcpy_from_def p s' del: of_nat_add)
  have move: "memcpy_to (buffer q) 0 rest = Ok (blit (buffer q) 0 rest)"
    using s sb by (simp add: memcpy_to_def)
  have room: "length rest \<le> length (buffer q)" using s sb by simp
  have mx: "?s' \<le> internal_buff_max_size q"
    using inv s s' by (simp add: bq_inv_def word_le_nat_alt del: of_nat_add)
  show ?thesis
  proof (cases "0 < ?s'")
    case True
    then show ?thesis
      using le dst rest move inv mx room s' tr
      by (simp add: fetch_finish_def packet_size_eq [OF m] bq_inv_def content_def capacity_def
          Let_def del: of_nat_add)
  next
    case False
    then have "rest = []" using s' by (simp add: word_less_nat_alt del: of_nat_add)
    with False show ?thesis
      using le dst inv mx s' tr
      by (simp add: fetch_finish_def packet_size_eq [OF m] bq_inv_def content_def capacity_def
          Let_def del: of_nat_add)
  qed
qed

section \<open>The interface a message decoder relies on\<close>

text \<open>
  What the decoding thread and the receiving thread need of the queue: bytes come out in the
  order they went in, a complete frame is taken off whole, and an incomplete one only waits.
  \<open>stream_ok\<close> relates the messages that are still due to what is buffered and in flight.
\<close>

locale framed_queue =
  fixes invar :: "'q \<Rightarrow> bool"
    and buffered :: "'q \<Rightarrow> bytes"
    and room :: "'q \<Rightarrow> nat"
    and add :: "'q \<Rightarrow> bytes \<Rightarrow> 'q outcome"
    and peek :: "'q \<Rightarrow> i32 option outcome"
    and grab :: "'q \<Rightarrow> i32 \<Rightarrow> (bytes \<times> u64 \<times> 'q) outcome"
  assumes add_room: "\<lbrakk>invar q; length (buffered q) + length d \<le> room q\<rbrakk> \<Longrightarrow>
      \<exists>q'. add q d = Ok q' \<and> invar q' \<and> buffered q' = buffered q @ d \<and> room q' = room q"
    and add_full: "\<lbrakk>invar q; room q < length (buffered q) + length d; length d \<le> 512\<rbrakk> \<Longrightarrow>
      add q d = Blocked"
    and peek_short: "\<lbrakk>invar q; length (buffered q) < 4\<rbrakk> \<Longrightarrow> peek q = Blocked"
    and peek_header: "\<lbrakk>invar q; 4 \<le> length (buffered q)\<rbrakk> \<Longrightarrow> peek q = Ok (Some (get32 (buffered q)))"
    and grab_short: "\<lbrakk>invar q; valid_msg m; length (buffered q) < length m + 4\<rbrakk> \<Longrightarrow>
      grab q (header m) = Blocked"
    and grab_frame: "\<lbrakk>invar q; valid_msg m; buffered q = frame m @ rest\<rbrakk> \<Longrightarrow>
      \<exists>q'. grab q (header m) = Ok (m, word_of_nat (length m), q') \<and> invar q'
         \<and> buffered q' = rest \<and> room q' = room q"
begin

definition stream_ok :: "bytes list \<Rightarrow> 'q \<Rightarrow> bytes list \<Rightarrow> bool" where
  "stream_ok due q inflight \<longleftrightarrow>
     invar q \<and> list_all valid_msg due \<and> buffered q @ concat inflight = concat (map frame due)"

lemma add_stream:
  assumes st: "stream_ok due q (c # cs)" and c: "length c \<le> 512" and a: "add q c = Ok q'"
  shows "stream_ok due q' cs \<and> room q' = room q"
proof -
  have inv: "invar q" using st by (simp add: stream_ok_def)
  have "length (buffered q) + length c \<le> room q"
    using a add_full [OF inv _ c] by (metis linorder_not_le outcome.distinct(3))
  from add_room [OF inv this] a st show ?thesis by (auto simp: stream_ok_def)
qed

lemma peek_stream:
  assumes st: "stream_ok due q cs" and p: "peek q = Ok r"
  shows "\<exists>m due'. due = m # due' \<and> r = Some (header m)"
proof -
  have inv: "invar q" and eq: "buffered q @ concat cs = concat (map frame due)"
    using st by (simp_all add: stream_ok_def)
  have four: "4 \<le> length (buffered q)"
    using p peek_short [OF inv] by (metis linorder_not_le outcome.distinct(3))
  then obtain m due' where due: "due = m # due'" using eq by (cases due) auto
  have "take 4 (buffered q) = take 4 (buffered q @ concat cs)" using four by simp
  also have "\<dots> = put32 (header m)" unfolding eq due by (simp add: frame_def)
  finally have "get32 (buffered q) = header m" using get32_put32 [of "header m" "[]"] by (simp add: get32_def)
  with peek_header [OF inv four] p due show ?thesis by simp
qed

lemma grab_stream:
  assumes st: "stream_ok (m # due) q cs" and g: "grab q (header m) = Ok (m', n, q')"
  shows "m' = m \<and> stream_ok due q' cs \<and> room q' = room q
    \<and> length (buffered q) = length (buffered q') + length m + 4"
proof -
  have inv: "invar q" and v: "valid_msg m" and due: "list_all valid_msg due"
    and eq: "buffered q @ concat cs = frame m @ concat (map frame due)"
    using st by (simp_all add: stream_ok_def)
  have "length m + 4 \<le> length (buffered q)"
    using g grab_short [OF inv v] by (metis linorder_not_le outcome.distinct(3))
  with eq obtain rest where b: "buffered q = frame m @ rest" by (metis whole_frame_in_front)
  from grab_frame [OF inv v b] obtain q2 where
    q2: "grab q (header m) = Ok (m, word_of_nat (length m), q2)" "invar q2" "buffered q2 = rest"
      "room q2 = room q" by blast
  with g b eq due show ?thesis by (simp add: stream_ok_def)
qed

text \<open>
  As long as something is due, one of the two threads can move, provided the queue has room for
  the longest frame and one more chunk.
\<close>

lemma stream_progress:
  assumes st: "stream_ok due q cs" and due: "due \<noteq> []"
    and fit: "list_all (\<lambda>m. length m + 4 + 511 \<le> room q) due"
    and chunks: "list_all (\<lambda>c. length c \<le> 512) cs"
  shows "(\<exists>c cs' q'. cs = c # cs' \<and> add q c = Ok q')
    \<or> (peek q = Ok (Some (header (hd due))) \<and> is_Ok (grab q (header (hd due))))"
proof -
  obtain m due' where d: "due = m # due'" using due by (cases due) auto
  have inv: "invar q" and v: "valid_msg m"
    and eq: "buffered q @ concat cs = frame m @ concat (map frame due')"
    using st d by (simp_all add: stream_ok_def)
  show ?thesis
  proof (cases "length m + 4 \<le> length (buffered q)")
    case True
    with eq obtain rest where b: "buffered q = frame m @ rest" by (metis whole_frame_in_front)
    from grab_frame [OF inv v b] have "is_Ok (grab q (header m))" by auto
    moreover have "get32 (buffered q) = header m" by (subst b) (simp add: frame_def)
    moreover have "4 \<le> length (buffered q)" using True by simp
    ultimately show ?thesis using peek_header [OF inv] d by simp
  next
    case False
    then have "cs \<noteq> []"
    proof (intro notI)
      assume "cs = []"
      then have "length (buffered q) = length (frame m @ concat (map frame due'))" using eq by simp
      with False show False by simp
    qed
    then obtain c cs' where cs: "cs = c # cs'" by (cases cs) auto
    have "length (buffered q) + length c \<le> room q"
      using False fit chunks d cs by simp
    with add_room [OF inv] cs show ?thesis by blast
  qed
qed

end

text \<open>The queue of the source, while it is not being shut down, is such a queue.\<close>

definition bq_live :: "byte_queue \<Rightarrow> bool" where
  "bq_live q \<longleftrightarrow> bq_inv q \<and> \<not> ntf_unblock q \<and> capacity q + 512 < 2 ^ 64"

interpretation bq: framed_queue bq_live content capacity addBytes fetch_begin fetch_finish
proof
  fix q :: byte_queue and d :: bytes
  assume "bq_live q" "length (content q) + length d \<le> capacity q"
  then show "\<exists>q'. addBytes q d = Ok q' \<and> bq_live q' \<and> content q' = content q @ d \<and> capacity q' = capacity q"
    using addBytes_room [of q d] by (auto simp: bq_live_def)
next
  fix q :: byte_queue and d :: bytes
  assume "bq_live q" "capacity q < length (content q) + length d" "length d \<le> 512"
  then show "addBytes q d = Blocked" by (auto simp: bq_live_def intro: addBytes_full)
next
  fix q assume "bq_live q" "length (content q) < 4"
  then show "fetch_begin q = Blocked" by (auto simp: bq_live_def intro: fetch_begin_short)
next
  fix q assume "bq_live q" "4 \<le> length (content q)"
  then show "fetch_begin q = Ok (Some (get32 (content q)))"
    by (auto simp: bq_live_def intro: fetch_begin_header)
next
  fix q m assume "bq_live q" "valid_msg m" "length (content q) < length m + 4"
  then show "fetch_finish q (header m) = Blocked" by (auto simp: bq_live_def intro: fetch_finish_short)
next
  fix q m rest assume "bq_live q" "valid_msg m" "content q = frame m @ rest"
  then show "\<exists>q'. fetch_finish q (header m) = Ok (m, word_of_nat (length m), q') \<and> bq_live q'
      \<and> content q' = rest \<and> capacity q' = capacity q"
    using fetch_finish_frame [of q m rest] by (auto simp: bq_live_def)
qed

section \<open>Hostile headers and shutdown\<close>

text \<open>
  The length in front of a message is not validated: as soon as a negative one is in front of
  the queue, the decoding thread either copies out of the bounds of the buffer (a length
  from -4 to -1) or sleeps, whatever else is buffered, so no later message is ever
  decoded.
\<close>

theorem negative_header_stops_decoder:
  assumes live: "bq_live q" and four: "4 \<le> length (content q)"
    and neg: "sint (get32 (content q)) < 0" and cap: "capacity q < 2 ^ 63"
  shows "fetchNextMsg q = (if -4 \<le> sint (get32 (content q)) then Fault OutOfBounds else Blocked)"
proof -
  let ?n = "get32 (content q)"
  have inv: "bq_inv q" using live by (simp add: bq_live_def)
  have hdr: "fetch_begin q = Ok (Some ?n)"
    using live four by (simp add: bq_live_def fetch_begin_header)
  have lo: "- (2 ^ 31) \<le> sint ?n" using sint_greater_eq [of ?n] by simp
  have s4: "sint (?n + 4) = sint ?n + 4" using neg by (intro sint_plus4) simp
  have sz: "unat (internal_buff_size q) < 2 ^ 63" "length (buffer q) < 2 ^ 63"
    using inv cap by (auto simp: bq_inv_def capacity_def word_le_nat_alt)
  show ?thesis
  proof (cases "-4 \<le> sint ?n")
    case True
    have "unat (scast (?n + 4) :: u64) = nat (sint ?n + 4)"
      using True scast_nonneg [of "?n + 4"] s4 by simp
    then have le: "(scast (?n + 4) :: u64) \<le> internal_buff_size q"
      using neg four length_content [OF inv] by (simp add: word_le_nat_alt)
    have "memcpy_from (buffer q) 4 (unat (scast ?n :: u64)) = Fault OutOfBounds"
      unfolding scast_negative [OF neg] memcpy_from_def using sz lo by auto
    with le True show ?thesis by (simp add: fetchNextMsg_def hdr fetch_finish_def Let_def)
  next
    case False
    then have "unat (scast (?n + 4) :: u64) = nat (2 ^ 64 + (sint ?n + 4))"
      using scast_negative [of "?n + 4"] s4 by simp
    then have "\<not> (scast (?n + 4) :: u64) \<le> internal_buff_size q"
      using sz lo unfolding word_le_nat_alt by auto
    with False show ?thesis by (simp add: fetchNextMsg_def hdr fetch_finish_def Let_def)
  qed
qed

theorem negative_header_stops_decoder_witness:
  "fetchNextMsg \<lparr>buffer = [255, 255, 255, 255, 0, 0, 0, 0], internal_buff_size = 4,
       internal_buff_max_size = 8, ntf_unblock = False\<rparr> = Fault OutOfBounds
   \<and> fetchNextMsg \<lparr>buffer = [0, 0, 0, 128, 0, 0, 0, 0], internal_buff_size = 8,
       internal_buff_max_size = 8, ntf_unblock = False\<rparr> = Blocked"
  (is "fetchNextMsg ?q = _ \<and> fetchNextMsg ?r = _")
proof
  have "bq_live ?q" "capacity ?q < 2 ^ 63" by (simp_all add: bq_live_def bq_inv_def capacity_def)
  moreover have "4 \<le> length (content ?q)" "sint (get32 (content ?q)) = -1" by (simp_all add: content_def get32_def)
  ultimately show "fetchNextMsg ?q = Fault OutOfBounds"
    using negative_header_stops_decoder [of ?q] by simp
  have "bq_live ?r" "capacity ?r < 2 ^ 63" by (simp_all add: bq_live_def bq_inv_def capacity_def)
  moreover have "4 \<le> length (content ?r)" "sint (get32 (content ?r)) = - 2147483648" by (simp_all add: content_def get32_def)
  ultimately show "fetchNextMsg ?r = Blocked"
    using negative_header_stops_decoder [of ?r] by simp
qed

text \<open>
  After \<^verbatim>\<open>notify_unblock\<close> a fetch returns at once with length 0 and takes nothing off the
  queue, and bytes already buffered stay there until \<^verbatim>\<open>notify_restart\<close>.
\<close>

lemma fetch_unblocked [simp]: "fetchNextMsg (notify_unblock q) = Ok ([], 0, notify_unblock q)"
  by (simp add: fetchNextMsg_def fetch_begin_def notify_unblock_def)

lemma count_unblocked [simp]: "count (notify_unblock q) = count q"
  by (simp add: count_def notify_unblock_def)

lemma restart_empty: "count (notify_restart mem q) = 0"
  by (simp add: count_def notify_restart_def)

text \<open>A decoder already inside a message does not see the notification: its second wait tests the size only.\<close>

lemma fetch_finish_ignores_unblock:
  "fetch_finish q n = Blocked \<Longrightarrow> fetch_finish (notify_unblock q) n = Blocked"
  by (auto simp: fetch_finish_def notify_unblock_def memcpy_from_def memcpy_to_def Let_def
      split: if_splits)

text \<open>
  A connection that ends in the middle of a message leaves the decoding thread asleep for ever:
  it has read the header and waits for the rest, and the notification that the receiving thread
  sends on its way out does not end that wait, so that the receiving thread, which joins the
  decoder, does not end either.
\<close>

theorem disconnect_mid_message_hangs:
  assumes "bq_live q" and "valid_msg m" and "content q = take k (frame m)" and "4 \<le> k" and "k < length (frame m)"
  shows "fetch_begin q = Ok (Some (header m)) \<and> fetch_finish (notify_unblock q) (header m) = Blocked"
proof -
  have inv: "bq_inv q" and run: "\<not> ntf_unblock q" using assms(1) by (simp_all add: bq_live_def)
  have len: "length (content q) = k" using assms(3,5) by simp
  have "take 4 (content q) = put32 (header m)"
    using assms(3,4) by (simp add: frame_def min_def)
  then have "get32 (content q) = header m"
    using get32_cong [of "content q" "put32 (header m)"] get32_put32 [of "header m" "[]"] by simp
  moreover have "fetch_finish q (header m) = Blocked"
    using fetch_finish_short [OF inv assms(2)] len assms(5) by simp
  ultimately show ?thesis
    using fetch_begin_header [OF inv run] len assms(4) fetch_finish_ignores_unblock by simp
qed

theorem disconnect_mid_message_hangs_witness:
  "fetch_finish (notify_unblock \<lparr>buffer = [2, 0, 0, 0, 7, 0, 0, 0], internal_buff_size = 5,
       internal_buff_max_size = 8, ntf_unblock = False\<rparr>) (header [7, 8]) = Blocked"
  (is "fetch_finish (notify_unblock ?q) _ = _")
proof -
  have "bq_live ?q" by (simp add: bq_live_def bq_inv_def capacity_def)
  moreover have "content ?q = take 5 (frame [7, 8])" by code_simp
  ultimately show ?thesis
    using disconnect_mid_message_hangs [of ?q "[7, 8]" 5] by (simp add: valid_msg_def)
qed

end
