(* ===== verification/Systems.thy ===== *)
theory Systems
  imports Prelude
begin

text \<open>
  The two shapes in which the components change their state, as interfaces: a step relation with an invariant (and a rank
  that every step lowers), and a sequence of commands that return or fault. The lemmas are proved once here; the theories of
  the components interpret the locales on their own steps and commands.
\<close>

section \<open>Step relations\<close>

locale invariant_system =
  fixes step :: "'s \<Rightarrow> 's \<Rightarrow> bool" and inv :: "'s \<Rightarrow> bool"
  assumes inv_step: "step s s' \<Longrightarrow> inv s \<Longrightarrow> inv s'"
begin

lemma run_inv: "step\<^sup>*\<^sup>* s s' \<Longrightarrow> inv s \<Longrightarrow> inv s'"
  by (induction rule: rtranclp_induct) (auto intro: inv_step)

end

text \<open>Every step lowers the rank, and a state that is not at the goal has a step: all schedules end at the goal.\<close>

locale ranked_system = invariant_system +
  fixes rank :: "'a \<Rightarrow> nat" and goal :: "'a \<Rightarrow> bool"
  assumes rank_step: "step s s' \<Longrightarrow> inv s \<Longrightarrow> rank s' < rank s"
    and progress: "inv s \<Longrightarrow> \<not> goal s \<Longrightarrow> \<exists>s'. step s s'"
begin

lemma reaches_goal: "inv s \<Longrightarrow> \<exists>s'. step\<^sup>*\<^sup>* s s' \<and> goal s'"
proof (induction "rank s" arbitrary: s rule: less_induct)
  case less
  show ?case
  proof (cases "goal s")
    case False
    then obtain s1 where s1: "step s s1" using progress less.prems by blast
    then show ?thesis using less.hyps rank_step [OF s1] inv_step [OF s1] less.prems by (meson converse_rtranclp_into_rtranclp)
  qed blast
qed

lemma run_bounded: "(step ^^ n) s s' \<Longrightarrow> inv s \<Longrightarrow> n + rank s' \<le> rank s"
proof (induction n arbitrary: s')
  case 0
  then show ?case by simp
next
  case (Suc n)
  then obtain s1 where s1: "(step ^^ n) s s1" "step s1 s'" by auto
  have "inv s1" using s1(1) Suc.prems(2) run_inv relpowp_imp_rtranclp by fast
  then show ?case using Suc.IH [OF s1(1) Suc.prems(2)] rank_step [OF s1(2)] by simp
qed

end

section \<open>Sequences of commands\<close>

fun run_cmds :: "('c \<Rightarrow> 's \<Rightarrow> 's outcome) \<Rightarrow> 'c list \<Rightarrow> 's \<Rightarrow> 's outcome" where
  "run_cmds exec [] s = Ok s"
| "run_cmds exec (c # cs) s = obind (exec c s) (run_cmds exec cs)"

text \<open>Commands that keep an invariant when they return.\<close>

locale invariant_commands =
  fixes exec :: "'c \<Rightarrow> 's \<Rightarrow> 's outcome" and inv :: "'s \<Rightarrow> bool"
  assumes exec_inv: "exec c s = Ok s' \<Longrightarrow> inv s \<Longrightarrow> inv s'"

sublocale invariant_commands \<subseteq> cmd: invariant_system "\<lambda>s s'. \<exists>c. exec c s = Ok s'" inv
  by unfold_locales (blast intro: exec_inv)

context invariant_commands
begin

lemma run_steps: "run_cmds exec cs s = Ok s' \<Longrightarrow> (\<lambda>s s'. \<exists>c. exec c s = Ok s')\<^sup>*\<^sup>* s s'"
proof (induction cs arbitrary: s)
  case (Cons c cs)
  then obtain s1 where s1: "\<exists>c. exec c s = Ok s1" "run_cmds exec cs s1 = Ok s'" by (auto elim!: obind_OkE)
  show ?case by (rule converse_rtranclp_into_rtranclp [where b = s1]) (use s1 Cons.IH in blast)+
qed simp

lemma run_inv: "run_cmds exec cs s = Ok s' \<Longrightarrow> inv s \<Longrightarrow> inv s'"
  using run_steps cmd.run_inv by blast

end

text \<open>Commands that always return when they are acceptable, and that implement a specification.\<close>

locale total_commands =
  fixes exec :: "'c \<Rightarrow> 's \<Rightarrow> 's outcome" and ok :: "'c \<Rightarrow> bool" and inv :: "'s \<Rightarrow> bool"
  assumes exec_ok: "ok c \<Longrightarrow> inv s \<Longrightarrow> \<exists>s'. exec c s = Ok s' \<and> inv s'"
begin

lemma run_ok: "list_all ok cs \<Longrightarrow> inv s \<Longrightarrow> \<exists>s'. run_cmds exec cs s = Ok s' \<and> inv s'"
proof (induction cs arbitrary: s)
  case (Cons c cs)
  then obtain s1 where "exec c s = Ok s1" "inv s1" using exec_ok [of c s] by auto
  then show ?case using Cons.IH [of s1] Cons.prems by simp
qed simp

end

locale refining_commands = total_commands +
  fixes abs :: "'b \<Rightarrow> 'm" and spec :: "'a \<Rightarrow> 'm \<Rightarrow> 'm"
  assumes exec_abs: "ok c \<Longrightarrow> inv s \<Longrightarrow> exec c s = Ok s' \<Longrightarrow> abs s' = spec c (abs s)"
begin

lemma run_refines: "list_all ok cs \<Longrightarrow> inv s \<Longrightarrow> \<exists>s'. run_cmds exec cs s = Ok s' \<and> inv s' \<and> abs s' = fold spec cs (abs s)"
proof (induction cs arbitrary: s)
  case (Cons c cs)
  then obtain s1 where "exec c s = Ok s1" "inv s1" using exec_ok [of c s] by auto
  then show ?case using Cons.IH [of s1] Cons.prems exec_abs [of c s s1] by simp
qed simp

end

end
