(* ===== verification/Link.thy ===== *)
theory Link
  imports ByteQueue Systems
begin

text \<open>
  The two threads at the receiving end of a connection, as \<^verbatim>\<open>StartThread\<close> of
  \<^verbatim>\<open>server.cpp\<close> and of \<^verbatim>\<open>client.cpp\<close> start them: one appends what
  \<^verbatim>\<open>recv\<close> returns (at most 512 bytes a call) to the byte queue, the other takes messages
  off it. Their steps interleave freely; the decoder's step is cut at the two waits of
  \<^verbatim>\<open>fetchNextMsg\<close>. Then the behaviour of the queue when the connection goes down.
\<close>

section \<open>The receiving end as a transition system\<close>

text \<open>
  \<open>inflight\<close> are the chunks the operating system will hand to \<^verbatim>\<open>recv\<close>,
  \<open>pending_header\<close> is the local \<^verbatim>\<open>to_read\<close> of a decoder waiting for the rest of its
  message, \<open>received\<close> are the messages handed to the dispatch.
\<close>

record link =
  inflight :: "bytes list"
  lqueue :: byte_queue
  pending_header :: "i32 option"
  received :: "bytes list"

definition link_init :: "bytes \<Rightarrow> bytes list \<Rightarrow> link" where
  "link_init mem chunks =
     \<lparr>inflight = chunks, lqueue = ByteQueue_new mem, pending_header = None, received = []\<rparr>"

inductive link_step :: "link \<Rightarrow> link \<Rightarrow> bool" where
  receive: "\<lbrakk>inflight s = c # cs; addBytes (lqueue s) c = Ok q'\<rbrakk> \<Longrightarrow>
     link_step s (s\<lparr>inflight := cs, lqueue := q'\<rparr>)"
| read_header: "\<lbrakk>pending_header s = None; fetch_begin (lqueue s) = Ok (Some n)\<rbrakk> \<Longrightarrow>
     link_step s (s\<lparr>pending_header := Some n\<rparr>)"
| deliver: "\<lbrakk>pending_header s = Some n; fetch_finish (lqueue s) n = Ok (m, sz, q')\<rbrakk> \<Longrightarrow>
     link_step s (s\<lparr>pending_header := None, lqueue := q', received := received s @ [m]\<rparr>)"

lemmas link_run_step = converse_rtranclp_into_rtranclp [of link_step]

section \<open>Invariant\<close>

text \<open>What is received is an initial part of what was sent, and the rest is on its way.\<close>

definition link_inv :: "bytes list \<Rightarrow> nat \<Rightarrow> link \<Rightarrow> bool" where
  "link_inv sent cap s \<longleftrightarrow>
     (\<exists>due. sent = received s @ due \<and> bq.stream_ok due (lqueue s) (inflight s)
        \<and> (\<forall>n. pending_header s = Some n \<longrightarrow> due \<noteq> [] \<and> n = header (hd due)))
     \<and> capacity (lqueue s) = cap \<and> list_all (\<lambda>c. length c \<le> 512) (inflight s)"

lemma link_inv_init:
  assumes "concat chunks = concat (map frame sent)" "list_all valid_msg sent"
    and "list_all (\<lambda>c. length c \<le> 512) chunks" "length mem + 512 < 2 ^ 64"
  shows "link_inv sent (length mem) (link_init mem chunks)"
  using assms
  by (simp add: link_inv_def link_init_def bq.stream_ok_def bq_live_def)

lemma link_step_inv:
  assumes "link_step s s'" and inv: "link_inv sent cap s"
  shows "link_inv sent cap s'"
proof -
  obtain due where due: "sent = received s @ due" and st: "bq.stream_ok due (lqueue s) (inflight s)"
    and hdr: "\<And>n. pending_header s = Some n \<Longrightarrow> due \<noteq> [] \<and> n = header (hd due)"
    and cap: "capacity (lqueue s) = cap" and ch: "list_all (\<lambda>c. length c \<le> 512) (inflight s)"
    using inv by (auto simp: link_inv_def)
  from assms(1) show ?thesis
  proof cases
    case (receive c cs q')
    then have "bq.stream_ok due q' cs \<and> capacity q' = capacity (lqueue s)"
      using st ch by (intro bq.add_stream) auto
    with receive due hdr cap ch show ?thesis by (auto simp: link_inv_def)
  next
    case (read_header n)
    with bq.peek_stream [OF st] have "due \<noteq> [] \<and> n = header (hd due)" by fastforce
    with read_header due st cap ch show ?thesis by (auto simp: link_inv_def)
  next
    case (deliver n m sz q')
    obtain d ds where d: "due = d # ds" "n = header d"
      using hdr [OF deliver(2)] by (cases due) auto
    with deliver st have "m = d \<and> bq.stream_ok ds q' (inflight s) \<and> capacity q' = capacity (lqueue s)"
      using bq.grab_stream [of d ds "lqueue s" "inflight s" m sz q'] by simp
    with deliver d due cap ch show ?thesis by (auto simp: link_inv_def)
  qed
qed

interpretation rcv: invariant_system link_step "link_inv sent cap" for sent cap
  by unfold_locales (rule link_step_inv)

section \<open>Every step moves the stream forward\<close>

definition link_measure :: "link \<Rightarrow> nat" where
  "link_measure s =
     2 * (length (content (lqueue s)) + length (concat (inflight s)))
     + length (inflight s) + (if pending_header s = None then 1 else 0)"

lemma link_step_measure:
  assumes "link_step s s'" and inv: "link_inv sent cap s"
  shows "link_measure s' < link_measure s"
proof -
  obtain due where st: "bq.stream_ok due (lqueue s) (inflight s)"
    and hdr: "\<And>n. pending_header s = Some n \<Longrightarrow> due \<noteq> [] \<and> n = header (hd due)"
    and ch: "list_all (\<lambda>c. length c \<le> 512) (inflight s)"
    using inv by (auto simp: link_inv_def)
  from assms(1) show ?thesis
  proof cases
    case (receive c cs q')
    have eq: "content (lqueue s) @ concat (inflight s) = concat (map frame due)"
      using st by (simp add: bq.stream_ok_def)
    have "bq.stream_ok due q' cs"
      using bq.add_stream [of due "lqueue s" c cs q'] receive st ch by simp
    then have "content q' @ concat cs = content (lqueue s) @ concat (inflight s)"
      using eq by (simp add: bq.stream_ok_def)
    then have "length (content q') + length (concat cs)
        = length (content (lqueue s)) + length (concat (inflight s))"
      by (metis length_append)
    with receive show ?thesis by (simp add: link_measure_def)
  next
    case (read_header n)
    then show ?thesis by (simp add: link_measure_def)
  next
    case (deliver n m sz q')
    obtain d ds where d: "due = d # ds" "n = header d"
      using hdr [OF deliver(2)] by (cases due) auto
    then have "length (content (lqueue s)) = length (content q') + length d + 4"
      using bq.grab_stream [of d ds "lqueue s" "inflight s" m sz q'] deliver st by simp
    with deliver show ?thesis by (simp add: link_measure_def)
  qed
qed

lemma link_stuck_done:
  assumes inv: "link_inv sent cap s" and fit: "list_all (\<lambda>m. length m + 515 \<le> cap) sent"
    and stuck: "\<And>s'. \<not> link_step s s'"
  shows "received s = sent"
proof -
  obtain due where due: "sent = received s @ due" and st: "bq.stream_ok due (lqueue s) (inflight s)"
    and hdr: "\<And>n. pending_header s = Some n \<Longrightarrow> due \<noteq> [] \<and> n = header (hd due)"
    and cap: "capacity (lqueue s) = cap" and ch: "list_all (\<lambda>c. length c \<le> 512) (inflight s)"
    using inv by (auto simp: link_inv_def)
  have fit': "list_all (\<lambda>m. length m + 4 + 511 \<le> capacity (lqueue s)) due"
    using fit due cap by (simp add: list_all_iff add.commute)
  show ?thesis
  proof (rule ccontr)
    assume "received s \<noteq> sent"
    then have "due \<noteq> []" using due by auto
    from bq.stream_progress [OF st this fit' ch] consider
        (recv) c cs' q' where "inflight s = c # cs'" "addBytes (lqueue s) c = Ok q'"
      | (dec) r where "fetch_begin (lqueue s) = Ok (Some (header (hd due)))"
          "fetch_finish (lqueue s) (header (hd due)) = Ok r"
      by (auto simp: outcome_simps)
    then show False
    proof cases
      case recv
      then show False using stuck link_step.receive by blast
    next
      case dec
      show False
      proof (cases "pending_header s")
        case None
        then show False using dec stuck link_step.read_header by blast
      next
        case (Some n)
        then have "n = header (hd due)" using hdr by blast
        then show False using Some dec stuck link_step.deliver by (metis prod_cases3)
      qed
    qed
  qed
qed

text \<open>
  Whatever way TCP cuts the byte stream of a list of messages into chunks, and however
  the receiving thread and the decoding thread interleave, the messages handed to the dispatch
  are always an initial part of the messages that were sent: none is lost, reordered, merged,
  split or made up.
\<close>

theorem messages_arrive_in_order:
  assumes "concat chunks = concat (map frame sent)" and "list_all valid_msg sent"
    and "list_all (\<lambda>c. length c \<le> 512) chunks" and "length mem + 512 < 2 ^ 64"
    and "link_step\<^sup>*\<^sup>* (link_init mem chunks) s"
  shows "\<exists>due. sent = received s @ due"
proof -
  have "link_inv sent (length mem) s"
    using rcv.run_inv [OF assms(5) link_inv_init [OF assms(1-4)]] .
  then show ?thesis by (auto simp: link_inv_def)
qed

definition link_fits :: "bytes list \<Rightarrow> nat \<Rightarrow> link \<Rightarrow> bool" where
  "link_fits sent cap s \<longleftrightarrow> link_inv sent cap s \<and> list_all (\<lambda>m. length m + 515 \<le> cap) sent"

interpretation flow: ranked_system link_step "link_fits sent cap" link_measure "\<lambda>s. received s = sent" for sent cap
proof
  show "link_step s s' \<Longrightarrow> link_fits sent cap s \<Longrightarrow> link_fits sent cap s'" for s s' by (auto simp: link_fits_def intro: link_step_inv)
  show "link_step s s' \<Longrightarrow> link_fits sent cap s \<Longrightarrow> link_measure s' < link_measure s" for s s' by (auto simp: link_fits_def dest: link_step_measure)
  show "link_fits sent cap s \<Longrightarrow> received s \<noteq> sent \<Longrightarrow> \<exists>s'. link_step s s'" for s using link_stuck_done unfolding link_fits_def by blast
qed

text \<open>
  When every frame leaves room for one more chunk in the queue, every message arrives: from
  any reachable state a completion exists, every step lowers a measure (so no schedule runs
  forever), and a state with no step has received every message (so no schedule deadlocks).
\<close>

theorem messages_all_arrive:
  assumes "concat chunks = concat (map frame sent)" and "list_all valid_msg sent"
    and "list_all (\<lambda>c. length c \<le> 512) chunks" and "length mem + 512 < 2 ^ 64"
    and "list_all (\<lambda>m. length m + 515 \<le> length mem) sent"
    and "link_step\<^sup>*\<^sup>* (link_init mem chunks) s"
  shows "(\<exists>s'. link_step\<^sup>*\<^sup>* s s' \<and> received s' = sent)
    \<and> (\<forall>s'. link_step s s' \<longrightarrow> link_measure s' < link_measure s)
    \<and> ((\<nexists>s'. link_step s s') \<longrightarrow> received s = sent)"
proof -
  have "link_inv sent (length mem) s"
    using rcv.run_inv [OF assms(6) link_inv_init [OF assms(1-4)]] .
  with assms(5) have "link_fits sent (length mem) s" by (simp add: link_fits_def)
  then show ?thesis using flow.reaches_goal [of sent "length mem" s] flow.rank_step [of s _ sent "length mem"] flow.progress [of sent "length mem" s] by blast
qed

text \<open>A run at a small queue: the one-byte message 42 arrives in two chunks.\<close>

definition bq_ex :: "bytes \<Rightarrow> u64 \<Rightarrow> byte_queue" where
  "bq_ex b n = \<lparr>buffer = b, internal_buff_size = n, internal_buff_max_size = 8, ntf_unblock = False\<rparr>"

lemma bq_ex_add1: "addBytes (ByteQueue_new [0, 0, 0, 0, 0, 0, 0, 0]) [1, 0] = Ok (bq_ex [1, 0, 0, 0, 0, 0, 0, 0] 2)"
  by code_simp

lemma bq_ex_add2: "addBytes (bq_ex [1, 0, 0, 0, 0, 0, 0, 0] 2) [0, 0, 42] = Ok (bq_ex [1, 0, 0, 0, 42, 0, 0, 0] 5)"
  by code_simp

lemma bq_ex_begin: "fetch_begin (bq_ex [1, 0, 0, 0, 42, 0, 0, 0] 5) = Ok (Some 1)"
  by code_simp

lemma bq_ex_finish: "fetch_finish (bq_ex [1, 0, 0, 0, 42, 0, 0, 0] 5) 1 = Ok ([42], 1, bq_ex [1, 0, 0, 0, 42, 0, 0, 0] 0)"
  by code_simp

lemma link_ex_run:
  "link_step\<^sup>*\<^sup>* (link_init [0, 0, 0, 0, 0, 0, 0, 0] [[1, 0], [0, 0, 42]])
     \<lparr>inflight = [], lqueue = bq_ex [1, 0, 0, 0, 42, 0, 0, 0] 0, pending_header = None, received = [[42]]\<rparr>"
proof -
  let ?s = "\<lambda>fl q h r. \<lparr>inflight = fl, lqueue = q, pending_header = h, received = r\<rparr>"
  let ?q0 = "ByteQueue_new [0, 0, 0, 0, 0, 0, 0, 0]" and ?q1 = "bq_ex [1, 0, 0, 0, 0, 0, 0, 0] 2"
  let ?q2 = "bq_ex [1, 0, 0, 0, 42, 0, 0, 0] 5" and ?q3 = "bq_ex [1, 0, 0, 0, 42, 0, 0, 0] 0"
  have 1: "link_step (?s [[1, 0], [0, 0, 42]] ?q0 None []) (?s [[0, 0, 42]] ?q1 None [])"
    using link_step.receive [of "?s [[1, 0], [0, 0, 42]] ?q0 None []" "[1, 0]" "[[0, 0, 42]]" ?q1]
    by (simp add: bq_ex_add1)
  have 2: "link_step (?s [[0, 0, 42]] ?q1 None []) (?s [] ?q2 None [])"
    using link_step.receive [of "?s [[0, 0, 42]] ?q1 None []" "[0, 0, 42]" "[]" ?q2]
    by (simp add: bq_ex_add2)
  have 3: "link_step (?s [] ?q2 None []) (?s [] ?q2 (Some 1) [])"
    using link_step.read_header [of "?s [] ?q2 None []" 1] by (simp add: bq_ex_begin)
  have 4: "link_step (?s [] ?q2 (Some 1) []) (?s [] ?q3 None [[42]])"
    using link_step.deliver [of "?s [] ?q2 (Some 1) []" 1 "[42]" 1 ?q3] by (simp add: bq_ex_finish)
  show ?thesis unfolding link_init_def
    by (rule link_run_step [OF 1 link_run_step [OF 2 link_run_step [OF 3 link_run_step [OF 4
          rtranclp.rtrancl_refl]]]])
qed

lemma frame_ex: "frame [42] = [1, 0, 0, 0, 42]"
  by code_simp

theorem messages_arrive_in_order_witness:
  "\<exists>s due. link_step\<^sup>*\<^sup>* (link_init [0, 0, 0, 0, 0, 0, 0, 0] [[1, 0], [0, 0, 42]]) s
     \<and> received s = [[42]] \<and> [[42]] = received s @ due"
proof -
  let ?s = "\<lparr>inflight = [], lqueue = bq_ex [1, 0, 0, 0, 42, 0, 0, 0] 0, pending_header = None, received = [[42]]\<rparr>"
  have "\<exists>due. [[42]] = received ?s @ due"
    by (rule messages_arrive_in_order [OF _ _ _ _ link_ex_run]) (simp_all add: frame_ex valid_msg_def)
  moreover have "received ?s = [[42]]" by simp
  ultimately show ?thesis using link_ex_run by blast
qed

theorem messages_all_arrive_witness:
  "\<exists>s'. link_step\<^sup>*\<^sup>* (link_init (replicate 600 0) [[1, 0], [0, 0, 42]]) s' \<and> received s' = [[42]]"
proof -
  let ?s = "link_init (replicate 600 0) [[1, 0], [0, 0, 42]]"
  have "(\<exists>s'. link_step\<^sup>*\<^sup>* ?s s' \<and> received s' = [[42]])
    \<and> (\<forall>s'. link_step ?s s' \<longrightarrow> link_measure s' < link_measure ?s)
    \<and> ((\<nexists>s'. link_step ?s s') \<longrightarrow> received ?s = [[42]])"
    by (rule messages_all_arrive [where chunks = "[[1, 0], [0, 0, 42]]" and mem = "replicate 600 0"])
      (simp_all add: frame_ex valid_msg_def)
  then show ?thesis by (rule conjunct1)
qed

end
