(* ===== verification/MsgQueue.thy ===== *)
theory MsgQueue
  imports Prelude
begin

text \<open>
  The blocking queue \<^verbatim>\<open>SMessageQueue\<close> of \<^verbatim>\<open>DCS_Utils/include/internal.h\<close> that
  carries messages to the sending threads and samples from the acquisition callback to the
  event thread, and the FIFO interface its users rely on.
\<close>

section \<open>Operations\<close>

text \<open>
  The mutex makes each operation atomic up to its wait, so a state is the list of queued
  elements, front first. The waits of \<^verbatim>\<open>pop\<close>, \<^verbatim>\<open>peek\<close> and \<^verbatim>\<open>peekBack\<close> have no
  predicate: the thread resumes once, whatever woke it, and an empty queue then gives the
  value-initialised \<^verbatim>\<open>Type()\<close>. The first argument \<open>q\<close> is the queue at the call and
  \<open>woken\<close> the queue when the wait ended, \<open>None\<close> while nothing has woken the thread.
\<close>

type_synonym 'a smq = "'a list"

definition after_wait :: "'a smq \<Rightarrow> 'a smq option \<Rightarrow> 'a smq outcome" where
  "after_wait q woken =
     (if q = [] then (case woken of None \<Rightarrow> Blocked | Some q' \<Rightarrow> Ok q') else Ok q)"

definition smq_pop :: "'a \<Rightarrow> 'a smq \<Rightarrow> 'a smq option \<Rightarrow> ('a \<times> 'a smq) outcome" where
  "smq_pop zero q woken =
     obind (after_wait q woken) (\<lambda>r. case r of x # xs \<Rightarrow> Ok (x, xs) | [] \<Rightarrow> Ok (zero, []))"

definition smq_peek :: "'a \<Rightarrow> 'a smq \<Rightarrow> 'a smq option \<Rightarrow> ('a \<times> 'a smq) outcome" where
  "smq_peek zero q woken =
     obind (after_wait q woken) (\<lambda>r. if r \<noteq> [] then Ok (hd r, r) else Ok (zero, r))"

definition smq_peekBack :: "'a \<Rightarrow> 'a smq \<Rightarrow> 'a smq option \<Rightarrow> ('a \<times> 'a smq) outcome" where
  "smq_peekBack zero q woken =
     obind (after_wait q woken) (\<lambda>r. if r \<noteq> [] then Ok (last r, r) else Ok (zero, r))"

definition smq_push :: "'a smq \<Rightarrow> 'a \<Rightarrow> 'a smq" where
  "smq_push q x = q @ [x]"

text \<open>\<^verbatim>\<open>notify_unblock\<close> wakes the waiting threads and changes nothing.\<close>

definition smq_notify_unblock :: "'a smq \<Rightarrow> 'a smq" where
  "smq_notify_unblock q = q"

definition smq_size :: "'a smq \<Rightarrow> i32" where
  "smq_size q = word_of_nat (length q)"

section \<open>The FIFO interface\<close>

text \<open>
  \<open>put\<close> appends one element, \<open>get\<close> takes the oldest one off; \<open>run_ops\<close> performs a
  schedule of both, skipping a \<open>get\<close> that finds nothing, and returns what came out.
\<close>

datatype 'a fifo_op = Put 'a | Get

locale fifo =
  fixes abs :: "'q \<Rightarrow> 'a list"
    and put :: "'q \<Rightarrow> 'a \<Rightarrow> 'q"
    and get :: "'q \<Rightarrow> ('a \<times> 'q) option"
  assumes put_abs: "abs (put q x) = abs q @ [x]"
    and get_none: "abs q = [] \<Longrightarrow> get q = None"
    and get_some: "abs q = x # xs \<Longrightarrow> \<exists>q'. get q = Some (x, q') \<and> abs q' = xs"
begin

fun run_ops :: "'q \<Rightarrow> 'a fifo_op list \<Rightarrow> 'a list \<times> 'q" where
  "run_ops q [] = ([], q)"
| "run_ops q (Put x # ops) = run_ops (put q x) ops"
| "run_ops q (Get # ops) =
     (case get q of None \<Rightarrow> run_ops q ops
      | Some (x, q') \<Rightarrow> (let (out, r) = run_ops q' ops in (x # out, r)))"

fun puts :: "'a fifo_op list \<Rightarrow> 'a list" where
  "puts [] = []"
| "puts (Put x # ops) = x # puts ops"
| "puts (Get # ops) = puts ops"

lemma run_ops_fifo: "run_ops q ops = (out, r) \<Longrightarrow> out @ abs r = abs q @ puts ops"
proof (induction q ops arbitrary: out r rule: run_ops.induct)
  case (1 q)
  then show ?case by simp
next
  case (2 q x ops)
  then show ?case by (simp add: put_abs)
next
  case (3 q ops)
  show ?case
  proof (cases "abs q")
    case Nil
    then show ?thesis using 3 get_none by simp
  next
    case (Cons x xs)
    then obtain q' where "get q = Some (x, q')" "abs q' = xs" using get_some by blast
    then show ?thesis using 3 Cons by (auto split: prod.splits)
  qed
qed

end

text \<open>A \<^verbatim>\<open>pop\<close> that does not have to wait, as the interface sees it.\<close>

definition smq_try_pop :: "'a \<Rightarrow> 'a smq \<Rightarrow> ('a \<times> 'a smq) option" where
  "smq_try_pop zero q = (case smq_pop zero q None of Ok r \<Rightarrow> Some r | _ \<Rightarrow> None)"

interpretation smq: fifo "\<lambda>q. q" smq_push "smq_try_pop zero" for zero
  by unfold_locales (auto simp: smq_push_def smq_try_pop_def smq_pop_def after_wait_def)

lemma smq_pop_nonempty [simp]: "smq_pop z (x # xs) w = Ok (x, xs)"
  by (simp add: smq_pop_def after_wait_def)

lemma smq_pop_sleeps [simp]: "smq_pop z [] None = Blocked"
  by (simp add: smq_pop_def after_wait_def)

lemma smq_pop_spurious [simp]: "smq_pop z [] (Some []) = Ok (z, [])"
  by (simp add: smq_pop_def after_wait_def)

lemma smq_peek_pop: "q \<noteq> [] \<Longrightarrow> smq_pop z q w = Ok (x, r) \<Longrightarrow> smq_peek z q w = Ok (x, q)"
  by (cases q) (auto simp: smq_peek_def smq_pop_def after_wait_def)

lemma smq_peekBack_push [simp]: "smq_peekBack z (smq_push q x) w = Ok (x, smq_push q x)"
  by (simp add: smq_peekBack_def smq_push_def after_wait_def)

end
