(* ===== verification/Message.thy ===== *)
theory Message
  imports ByteQueue MsgQueue
begin

text \<open>
  The message layer of \<^verbatim>\<open>DCS_Network/src/message.cpp\<close>: the in-memory message, its wire
  image as the sending threads write it, the request side of remote calls, the slot through
  which a synchronous caller gets its response and the promises of asynchronous ones.
\<close>

section \<open>Data\<close>

text \<open>\<^verbatim>\<open>ptr\<close> owns an array of \<^verbatim>\<open>size\<close> bytes; \<open>None\<close> is the null pointer.\<close>

record DefaultMessage =
  msg_op :: u8
  msg_id :: u64
  msg_size :: i64
  msg_ptr :: "bytes option"

datatype InternalOperation =
    NO_OP | SYNC_REQUEST | ASYNC_REQUEST | SYNC_RESPONSE | ASYNC_RESPONSE
  | EVT_SUB | EVT_RESPONSE | EVT_UNSUB | OP_ERROR | CON_VALID | DATA

fun iop_code :: "InternalOperation \<Rightarrow> u8" where
  "iop_code NO_OP = 0"
| "iop_code SYNC_REQUEST = 2"
| "iop_code ASYNC_REQUEST = 3"
| "iop_code SYNC_RESPONSE = 5"
| "iop_code ASYNC_RESPONSE = 6"
| "iop_code EVT_SUB = 7"
| "iop_code EVT_RESPONSE = 8"
| "iop_code EVT_UNSUB = 9"
| "iop_code OP_ERROR = 10"
| "iop_code CON_VALID = 11"
| "iop_code DATA = 12"

text \<open>The operations of the public interface, which leave the codes 2, 3, 5, 6 and 8 to the library.\<close>

datatype Operation =
    Op_NO_OP | Op_REQUEST | Op_RESPONSE | Op_EVT_SUB | Op_EVT_UNSUB | Op_OP_ERROR | Op_CON_VALID | Op_DATA

fun op_code :: "Operation \<Rightarrow> u8" where
  "op_code Op_NO_OP = 0"
| "op_code Op_REQUEST = 1"
| "op_code Op_RESPONSE = 4"
| "op_code Op_EVT_SUB = 7"
| "op_code Op_EVT_UNSUB = 9"
| "op_code Op_OP_ERROR = 10"
| "op_code Op_CON_VALID = 11"
| "op_code Op_DATA = 12"

text \<open>What uninitialised memory happens to hold: the fields of a fresh struct and the bytes of a fresh array.\<close>

record junk =
  junk_op :: u8
  junk_id :: u64
  junk_fill :: "nat \<Rightarrow> u8"

definition new_array :: "junk \<Rightarrow> nat \<Rightarrow> bytes" where
  "new_array j n = map (junk_fill j) [0..<n]"

lemma length_new_array [simp]: "length (new_array j n) = n"
  by (simp add: new_array_def)

abbreviation MESSAGE_XTRA_SPACE :: nat where
  "MESSAGE_XTRA_SPACE \<equiv> 9"

section \<open>Operations on one message\<close>

text \<open>
  \<^verbatim>\<open>size - sizeof(op) - sizeof(id)\<close> is computed in 64 unsigned bits and stored in an
  \<^verbatim>\<open>i64\<close>; \<^verbatim>\<open>new u8[n]\<close> throws on a negative \<^verbatim>\<open>n\<close>.
\<close>

definition Alloc :: "junk \<Rightarrow> i32 \<Rightarrow> DefaultMessage outcome" where
  "Alloc j n =
     (let sz = (scast n :: i64) - 1 - 8 in
      if sint sz < 0 then Fault BadArrayLength
      else Ok \<lparr>msg_op = junk_op j, msg_id = junk_id j, msg_size = sz,
               msg_ptr = Some (new_array j (unat sz))\<rparr>)"

definition fill_ptr :: "DefaultMessage \<Rightarrow> bytes \<Rightarrow> DefaultMessage outcome" where
  "fill_ptr msg d =
     (case msg_ptr msg of None \<Rightarrow> Fault NullPointer
      | Some p \<Rightarrow> obind (memcpy_to p 0 d) (\<lambda>p'. Ok (msg\<lparr>msg_ptr := Some p'\<rparr>)))"

definition SetCopyIdAndCode :: "DefaultMessage \<Rightarrow> bytes \<Rightarrow> DefaultMessage outcome" where
  "SetCopyIdAndCode msg data =
     (if 0 < sint (msg_size msg) then
        obind (read_at data 0) (\<lambda>opc.
        obind (memcpy_from data 1 8) (\<lambda>idb.
        obind (memcpy_from data 9 (unat (msg_size msg))) (\<lambda>d.
          fill_ptr (msg\<lparr>msg_op := opc, msg_id := get64 idb\<rparr>) d)))
      else Ok msg)"

definition SetCopyId :: "DefaultMessage \<Rightarrow> u8 \<Rightarrow> u64 \<Rightarrow> bytes \<Rightarrow> DefaultMessage outcome" where
  "SetCopyId msg opcode i data =
     (if 0 < sint (msg_size msg) then
        obind (memcpy_from data 0 (unat (msg_size msg)))
          (fill_ptr (msg\<lparr>msg_op := opcode, msg_id := i\<rparr>))
      else Ok msg)"

text \<open>\<open>nid\<close> is the static counter of message ids, shared by every sender of the process.\<close>

definition SetNew :: "u64 \<Rightarrow> DefaultMessage \<Rightarrow> u8 \<Rightarrow> bytes option \<Rightarrow> (DefaultMessage \<times> u64) outcome" where
  "SetNew nid msg opcode data =
     (if 0 < sint (msg_size msg) then
        let msg' = msg\<lparr>msg_op := opcode, msg_id := nid\<rparr> in
        (case data of
           None \<Rightarrow> Ok (msg', nid + 1)
         | Some d \<Rightarrow> obind (memcpy_from d 0 (unat (msg_size msg))) (\<lambda>b.
                       obind (fill_ptr msg' b) (\<lambda>m. Ok (m, nid + 1))))
      else Ok (msg, nid))"

definition Copy :: "DefaultMessage \<Rightarrow> DefaultMessage outcome" where
  "Copy msg =
     (if 0 < sint (msg_size msg) then
        (case msg_ptr msg of None \<Rightarrow> Fault NullPointer
         | Some p \<Rightarrow> obind (memcpy_from p 0 (unat (msg_size msg))) (\<lambda>d.
                       Ok (msg\<lparr>msg_ptr := Some d\<rparr>)))
      else Ok (msg\<lparr>msg_ptr := None\<rparr>))"

definition Delete :: "DefaultMessage \<Rightarrow> DefaultMessage" where
  "Delete msg = msg\<lparr>msg_size := 0, msg_op := 0, msg_ptr := None\<rparr>"

text \<open>The four \<^verbatim>\<open>SendData\<close> calls of a sending thread, for a popped message; a null pointer sends nothing.\<close>

definition transmit :: "DefaultMessage \<Rightarrow> bytes outcome" where
  "transmit m =
     (case msg_ptr m of None \<Rightarrow> Ok []
      | Some p \<Rightarrow> obind (memcpy_from p 0 (unat (msg_size m))) (\<lambda>d.
          Ok (put32 (ucast (msg_size m + of_nat MESSAGE_XTRA_SPACE)) @ [msg_op m] @ put64 (msg_id m) @ d)))"

text \<open>The head of both decoding loops: allocate for the fetched length and copy out of the buffer.\<close>

definition decode :: "junk \<Rightarrow> u64 \<Rightarrow> bytes \<Rightarrow> DefaultMessage outcome" where
  "decode j sz buf = obind (Alloc j (ucast sz)) (\<lambda>msg. SetCopyIdAndCode msg buf)"

section \<open>The wire image\<close>

text \<open>A message whose size field is the length of its array and that the 32-bit length can describe.\<close>

definition wf_msg :: "DefaultMessage \<Rightarrow> bool" where
  "wf_msg m \<longleftrightarrow> (\<exists>p. msg_ptr m = Some p \<and> msg_size m = word_of_nat (length p)
     \<and> 0 < length p \<and> length p + 13 < 2 ^ 31)"

definition payload :: "DefaultMessage \<Rightarrow> bytes" where
  "payload m = (case msg_ptr m of None \<Rightarrow> [] | Some p \<Rightarrow> p)"

definition body :: "DefaultMessage \<Rightarrow> bytes" where
  "body m = msg_op m # put64 (msg_id m) @ payload m"

lemma sint64_of_small_nat [simp]: "L < 2 ^ 63 \<Longrightarrow> sint (word_of_nat L :: i64) = int L"
  by (simp add: signed_of_nat signed_take_bit_int_eq_self)

lemma wf_msgE:
  assumes "wf_msg m"
  obtains p where "msg_ptr m = Some p" "payload m = p" "msg_size m = word_of_nat (length p)"
    "0 < length p" "length p + 13 < 2 ^ 31" "unat (msg_size m) = length p"
    "sint (msg_size m) = int (length p)"
  using assms by (auto simp: wf_msg_def payload_def)

lemma length_body [simp]: "length (body m) = length (payload m) + 9"
  by (simp add: body_def)

lemma valid_body: "wf_msg m \<Longrightarrow> valid_msg (body m)"
  by (auto simp: valid_msg_def elim: wf_msgE)

lemma ucast_of_small_nat: "(ucast (word_of_nat L :: u64) :: u32) = word_of_nat L" if "L < 2 ^ 32"
  using that by (simp add: unsigned_of_nat take_bit_nat_eq_self)

lemma transmit_frame:
  assumes "wf_msg m"
  shows "transmit m = Ok (frame (body m))"
proof -
  from assms obtain p where p: "msg_ptr m = Some p" "payload m = p" "msg_size m = word_of_nat (length p)"
    "length p + 13 < 2 ^ 31" "unat (msg_size m) = length p" by (rule wf_msgE)
  have "msg_size m + of_nat MESSAGE_XTRA_SPACE = word_of_nat (length p + 9)" by (simp add: p(3))
  then have "(ucast (msg_size m + of_nat MESSAGE_XTRA_SPACE) :: u32) = header (body m)"
    using p ucast_of_small_nat [of "length p + 9"] by (simp add: header_def del: of_nat_add)
  with p show ?thesis by (simp add: transmit_def memcpy_from_def frame_def body_def)
qed

lemma fill_ptr_whole [simp]:
  "msg_ptr m = Some p \<Longrightarrow> length p = length d \<Longrightarrow> fill_ptr m d = Ok (m\<lparr>msg_ptr := Some d\<rparr>)"
  by (simp add: fill_ptr_def memcpy_to_def blit_def)

lemma Alloc_room:
  assumes "n + 9 < 2 ^ 31"
  shows "Alloc j (word_of_nat (n + 9)) =
    Ok \<lparr>msg_op = junk_op j, msg_id = junk_id j, msg_size = word_of_nat n, msg_ptr = Some (new_array j n)\<rparr>"
proof -
  have "(scast (word_of_nat (n + 9) :: i32) :: i64) - 1 - 8 = word_of_nat n"
    using assms scast_of_small_nat [of "n + 9"] by simp
  with assms show ?thesis by (simp add: Alloc_def Let_def)
qed

lemma get64_put64_exact [simp]: "get64 (put64 w) = w"
  using get64_put64 [of w "[]"] by simp

lemma decode_body:
  assumes "wf_msg m"
  shows "decode j (word_of_nat (length (body m))) (body m @ stale) = Ok m"
proof -
  from assms obtain p where p: "msg_ptr m = Some p" "payload m = p" "msg_size m = word_of_nat (length p)"
    "0 < length p" "length p + 13 < 2 ^ 31" by (rule wf_msgE)
  have "(ucast (word_of_nat (length p + 9) :: u64) :: u32) = word_of_nat (length p + 9)"
    using p by (intro ucast_of_small_nat) simp
  then have "decode j (word_of_nat (length (body m))) (body m @ stale) =
      SetCopyIdAndCode \<lparr>msg_op = junk_op j, msg_id = junk_id j, msg_size = word_of_nat (length p),
        msg_ptr = Some (new_array j (length p))\<rparr> (body m @ stale)"
    using p Alloc_room [of "length p" j] by (simp only: decode_def length_body obind.simps)
  also have "\<dots> = Ok m"
    using p by (simp add: SetCopyIdAndCode_def read_at_def body_def memcpy_from_def)
  finally show ?thesis .
qed

text \<open>
  C6. A message survives the wire: the bytes a sending thread writes for it form one frame, and
  when that frame is at the front of the receiver's queue, fetching and decoding it gives the
  same operation code, id, size and payload, whatever the uninitialised memory and the rest of
  the decode buffer hold.
\<close>

theorem message_round_trip:
  assumes "wf_msg m" and "bq_live q" and "content q = wire @ rest" and "transmit m = Ok wire"
  shows "\<exists>q'. fetchNextMsg q = Ok (body m, word_of_nat (length (body m)), q') \<and> content q' = rest
    \<and> decode j (word_of_nat (length (body m))) (body m @ stale) = Ok m"
proof -
  have c: "content q = frame (body m) @ rest"
    using assms(3,4) transmit_frame [OF assms(1)] by simp
  then have "fetch_begin q = Ok (Some (header (body m)))"
    using assms(2) fetch_begin_header [of q] by (simp add: bq_live_def frame_def)
  then show ?thesis
    using fetch_finish_frame [OF _ valid_body [OF assms(1)] c] assms(2) decode_body [OF assms(1)]
    by (auto simp: fetchNextMsg_def bq_live_def)
qed

theorem message_round_trip_witness:
  "\<exists>q'. fetchNextMsg \<lparr>buffer = [10, 0, 0, 0, 2, 7, 0, 0, 0, 0, 0, 0, 0, 42, 99, 0], internal_buff_size = 15,
        internal_buff_max_size = 16, ntf_unblock = False\<rparr> = Ok ([2, 7, 0, 0, 0, 0, 0, 0, 0, 42], 10, q')
     \<and> content q' = [99]
     \<and> decode \<lparr>junk_op = 9, junk_id = 9, junk_fill = (\<lambda>_. 9)\<rparr> 10 ([2, 7, 0, 0, 0, 0, 0, 0, 0, 42] @ [5])
         = Ok \<lparr>msg_op = 2, msg_id = 7, msg_size = 1, msg_ptr = Some [42]\<rparr>"
proof -
  let ?m = "\<lparr>msg_op = 2, msg_id = 7, msg_size = 1, msg_ptr = Some [42]\<rparr>"
  let ?q = "\<lparr>buffer = [10, 0, 0, 0, 2, 7, 0, 0, 0, 0, 0, 0, 0, 42, 99, 0], internal_buff_size = 15,
        internal_buff_max_size = 16, ntf_unblock = False\<rparr>"
  have wf: "wf_msg ?m" by (simp add: wf_msg_def)
  have live: "bq_live ?q" by (simp add: bq_live_def bq_inv_def capacity_def)
  have b: "body ?m = [2, 7, 0, 0, 0, 0, 0, 0, 0, 42]" by code_simp
  have t: "transmit ?m = Ok [10, 0, 0, 0, 2, 7, 0, 0, 0, 0, 0, 0, 0, 42]" by code_simp
  have c: "content ?q = [10, 0, 0, 0, 2, 7, 0, 0, 0, 0, 0, 0, 0, 42] @ [99]" by code_simp
  show ?thesis
    using message_round_trip [OF wf live c t,
        of "\<lparr>junk_op = 9, junk_id = 9, junk_fill = (\<lambda>_. 9)\<rparr>" "[5]"]
    by (simp add: b)
qed

section \<open>Packets that carry less than a message\<close>

lemma sint_of_int64: "sint (word_of_int k :: i64) = signed_take_bit 63 k"
  by (simp add: signed_of_int)

lemma Alloc_short:
  assumes "sint n < 9"
  shows "Alloc j n = Fault BadArrayLength"
proof -
  have lo: "- (2 ^ 31) \<le> sint n" using sint_greater_eq [of n] by simp
  have "(scast n :: i64) - 1 - 8 = word_of_int (sint n - 9)" by simp
  moreover have "signed_take_bit 63 (sint n - 9) = sint n - 9"
    using assms lo by (intro signed_take_bit_int_eq_self) auto
  then have "sint (word_of_int (sint n - 9) :: i64) = sint n - 9" by (simp only: sint_of_int64)
  ultimately show ?thesis using assms by (simp only: Alloc_def Let_def) simp
qed

text \<open>
  A packet of fewer than 9 bytes makes the decoding thread throw out of the array
  allocation, and a packet of exactly 9 bytes (an operation code and an id with an empty
  payload) is decoded to a message whose operation code and id are whatever the stack held:
  the fields of the packet are not read.
\<close>

theorem short_packets_misdecoded:
  assumes "n \<le> 9"
  shows "decode j (word_of_nat n) buf =
    (if n < 9 then Fault BadArrayLength
     else Ok \<lparr>msg_op = junk_op j, msg_id = junk_id j, msg_size = 0, msg_ptr = Some []\<rparr>)"
proof -
  have u: "(ucast (word_of_nat n :: u64) :: u32) = word_of_nat n"
    using assms by (intro ucast_of_small_nat) simp
  show ?thesis
  proof (cases "n < 9")
    case True
    then have "sint (word_of_nat n :: i32) < 9" by simp
    then show ?thesis using True u by (simp add: decode_def Alloc_short)
  next
    case False
    then have "n = 0 + 9" using assms by simp
    then show ?thesis
      using Alloc_room [of 0 j] u by (simp add: decode_def SetCopyIdAndCode_def new_array_def)
  qed
qed

theorem short_packets_misdecoded_witness:
  "decode \<lparr>junk_op = 3, junk_id = 8, junk_fill = (\<lambda>_. 0)\<rparr> 9 [7, 1, 0, 0, 0, 0, 0, 0, 0]
     = Ok \<lparr>msg_op = 3, msg_id = 8, msg_size = 0, msg_ptr = Some []\<rparr>
   \<and> decode \<lparr>junk_op = 3, junk_id = 8, junk_fill = (\<lambda>_. 0)\<rparr> 4 [7, 1, 0, 0] = Fault BadArrayLength"
  using short_packets_misdecoded [of 9 "\<lparr>junk_op = 3, junk_id = 8, junk_fill = (\<lambda>_. 0)\<rparr>" "[7, 1, 0, 0, 0, 0, 0, 0, 0]"]
    short_packets_misdecoded [of 4 "\<lparr>junk_op = 3, junk_id = 8, junk_fill = (\<lambda>_. 0)\<rparr>" "[7, 1, 0, 0]"]
  by simp

section \<open>Remote calls from the client's side\<close>

text \<open>\<^verbatim>\<open>sizeof(SVReturn)\<close>: a type byte and 1024 bytes of value, packed.\<close>

abbreviation SVReturn_size :: nat where
  "SVReturn_size \<equiv> 1025"

text \<open>
  The process state of the message layer: the id counter, the queue of the sending thread, the
  one-message slot that wakes synchronous callers, the ids with a registered promise and the
  values the futures of the callers hold.
\<close>

record messaging =
  nid :: u64
  outbound :: "DefaultMessage smq"
  lmessage :: DefaultMessage
  async_mess_prom :: "u64 set"
  futures :: "u64 \<Rightarrow> bytes option"

definition msg_zero :: DefaultMessage where
  "msg_zero = \<lparr>msg_op = 0, msg_id = 0, msg_size = 0, msg_ptr = None\<rparr>"

definition messaging_init :: messaging where
  "messaging_init = \<lparr>nid = 0, outbound = [], lmessage = msg_zero, async_mess_prom = {}, futures = (\<lambda>_. None)\<rparr>"

definition ScheduleTransmission :: "messaging \<Rightarrow> DefaultMessage \<Rightarrow> messaging" where
  "ScheduleTransmission st msg = st\<lparr>outbound := smq_push (outbound st) msg\<rparr>"

text \<open>
  The common first part of \<^verbatim>\<open>SendSync\<close> and \<^verbatim>\<open>SendAsync\<close>. The packet size goes through
  a \<^verbatim>\<open>u16\<close>. The id of the message is what the caller waits for.
\<close>

definition send_request :: "u8 \<Rightarrow> junk \<Rightarrow> Operation \<Rightarrow> bytes \<Rightarrow> i32 \<Rightarrow> messaging \<Rightarrow> (u64 \<times> messaging) outcome" where
  "send_request xtra j oper data n st =
     (let xtra_op = (if oper = Op_REQUEST then xtra else 0);
          opc = op_code oper + xtra_op;
          total_size = (ucast (n + of_nat MESSAGE_XTRA_SPACE) :: u16)
      in obind (Alloc j (ucast total_size)) (\<lambda>m0.
         obind (SetNew (nid st) m0 opc (Some data)) (\<lambda>(m, nid').
           Ok (msg_id m, ScheduleTransmission (st\<lparr>nid := nid'\<rparr>) m))))"

text \<open>\<^verbatim>\<open>SendAsync\<close> hands the request to the sending thread first and registers its promise afterwards.\<close>

definition SendAsync_schedule :: "junk \<Rightarrow> Operation \<Rightarrow> bytes \<Rightarrow> i32 \<Rightarrow> messaging \<Rightarrow> (u64 \<times> messaging) outcome" where
  "SendAsync_schedule = send_request 2"

definition SendAsync_register :: "u64 \<Rightarrow> messaging \<Rightarrow> messaging" where
  "SendAsync_register i st = st\<lparr>async_mess_prom := insert i (async_mess_prom st)\<rparr>"

definition SendAsync :: "junk \<Rightarrow> Operation \<Rightarrow> bytes \<Rightarrow> i32 \<Rightarrow> messaging \<Rightarrow> (u64 \<times> messaging) outcome" where
  "SendAsync j oper data n st =
     obind (SendAsync_schedule j oper data n st) (\<lambda>(i, st'). Ok (i, SendAsync_register i st'))"

text \<open>\<^verbatim>\<open>SendSync\<close> up to \<^verbatim>\<open>WaitForId\<close>, where the calling thread sleeps.\<close>

definition SendSync_schedule :: "junk \<Rightarrow> Operation \<Rightarrow> bytes \<Rightarrow> i32 \<Rightarrow> messaging \<Rightarrow> (u64 \<times> messaging) outcome" where
  "SendSync_schedule = send_request 1"

text \<open>\<open>ret0\<close> is the uninitialised \<^verbatim>\<open>SVReturn\<close> the response is copied over.\<close>

definition WaitForId :: "bytes \<Rightarrow> u64 \<Rightarrow> messaging \<Rightarrow> (bytes \<times> messaging) outcome" where
  "WaitForId ret0 i st =
     (let lm = lmessage st in
      case msg_ptr lm of
        None \<Rightarrow> Blocked
      | Some p \<Rightarrow>
          if msg_id lm = i then
            obind (memcpy_from p 0 (unat (msg_size lm))) (\<lambda>d.
            obind (memcpy_to ret0 0 d) (\<lambda>ret.
              Ok (ret, st\<lparr>lmessage := Delete lm\<rparr>)))
          else Blocked)"

definition SetMsgIdCondition :: "messaging \<Rightarrow> DefaultMessage \<Rightarrow> messaging outcome" where
  "SetMsgIdCondition st msg =
     (let lm = (if msg_ptr (lmessage st) \<noteq> None then Delete (lmessage st) else lmessage st) in
      obind (Copy msg) (\<lambda>c. Ok ((st\<lparr>lmessage := lm\<rparr>)\<lparr>lmessage := c\<rparr>)))"

definition NotifyPromise :: "messaging \<Rightarrow> DefaultMessage \<Rightarrow> messaging outcome" where
  "NotifyPromise st msg =
     (if msg_id msg \<in> async_mess_prom st then
        (case msg_ptr msg of None \<Rightarrow> Fault NullPointer
         | Some p \<Rightarrow> obind (memcpy_from p 0 SVReturn_size) (\<lambda>v.
             Ok (st\<lparr>futures := (futures st)(msg_id msg \<mapsto> v),
                    async_mess_prom := async_mess_prom st - {msg_id msg}\<rparr>)))
      else Fault OutOfRange)"

definition j0 :: junk where
  "j0 = \<lparr>junk_op = 0, junk_id = 0, junk_fill = (\<lambda>_. 0)\<rparr>"

section \<open>What the request side guarantees\<close>

lemma Copy_wf [simp]: "wf_msg m \<Longrightarrow> Copy m = Ok m"
  by (auto simp: Copy_def memcpy_from_def elim!: wf_msgE)

lemma ucast16_small:
  "L < 2 ^ 16 \<Longrightarrow> (ucast (ucast (word_of_nat L :: u32) :: u16) :: u32) = word_of_nat L"
  by (simp add: unsigned_of_nat take_bit_nat_eq_self)

definition request :: "u8 \<Rightarrow> u64 \<Rightarrow> bytes \<Rightarrow> DefaultMessage" where
  "request opc i data = \<lparr>msg_op = opc, msg_id = i, msg_size = word_of_nat (length data), msg_ptr = Some data\<rparr>"

lemma wf_request: "data \<noteq> [] \<Longrightarrow> length data + 13 < 2 ^ 31 \<Longrightarrow> wf_msg (request opc i data)"
  by (simp add: wf_msg_def request_def)

lemma payload_request [simp]: "payload (request opc i data) = data"
  by (simp add: payload_def request_def)

lemma request_fields [simp]: "msg_id (request opc i data) = i" "msg_op (request opc i data) = opc"
  "msg_ptr (request opc i data) = Some data"
  by (simp_all add: request_def)

lemma SetNew_fresh:
  assumes "0 < length data" "length data < 2 ^ 31"
  shows "SetNew i \<lparr>msg_op = a, msg_id = b, msg_size = word_of_nat (length data),
      msg_ptr = Some (new_array j (length data))\<rparr> opc (Some data) = Ok (request opc i data, i + 1)"
proof -
  have "0 < sint (word_of_nat (length data) :: i64)" "unat (word_of_nat (length data) :: i64) = length data"
    using assms by simp_all
  then show ?thesis
    by (simp add: SetNew_def memcpy_from_def request_def Let_def fill_ptr_whole)
qed

lemma send_request_ok:
  assumes "0 < length data" and "length data + 9 < 2 ^ 16"
  shows "send_request x j oper data (word_of_nat (length data)) st =
    (let opc = op_code oper + (if oper = Op_REQUEST then x else 0) in
     Ok (nid st, st\<lparr>nid := nid st + 1, outbound := outbound st @ [request opc (nid st) data]\<rparr>))"
proof -
  have "(word_of_nat (length data) :: i32) + of_nat MESSAGE_XTRA_SPACE = word_of_nat (length data + 9)"
    by simp
  moreover have "(ucast (ucast (word_of_nat (length data + 9) :: u32) :: u16) :: u32) = word_of_nat (length data + 9)"
    using assms by (intro ucast16_small) simp
  moreover note Alloc_room [of "length data" j] SetNew_fresh [of data]
  ultimately show ?thesis
    using assms
    by (simp add: send_request_def Let_def ScheduleTransmission_def smq_push_def request_def
        del: of_nat_add)
qed

lemma ucast16_wraps:
  "(ucast (ucast (word_of_nat L :: u32) :: u16) :: u32) = word_of_nat (L mod 2 ^ 16)" if "L < 2 ^ 32"
  using that by (simp add: unsigned_of_nat take_bit_nat_eq_self take_bit_eq_mod)

lemma SetNew_prefix:
  assumes "0 < k" "k \<le> length data" "k < 2 ^ 31"
  shows "SetNew i \<lparr>msg_op = a, msg_id = b, msg_size = word_of_nat k, msg_ptr = Some (new_array j k)\<rparr> opc (Some data)
    = Ok (request opc i (take k data), i + 1)"
proof -
  have "0 < sint (word_of_nat k :: i64)" "unat (word_of_nat k :: i64) = k" using assms by simp_all
  then show ?thesis
    using assms by (simp add: SetNew_def memcpy_from_def request_def Let_def)
qed

text \<open>Of the caller's array only the given number of bytes counts.\<close>

lemma send_request_prefix:
  assumes "0 < n" "n \<le> length data" "n + 9 < 2 ^ 16"
  shows "send_request x j oper data (word_of_nat n) st = send_request x j oper (take n data) (word_of_nat n) st"
proof -
  have "(word_of_nat n :: i32) + of_nat MESSAGE_XTRA_SPACE = word_of_nat (n + 9)" by simp
  moreover have "(ucast (ucast (word_of_nat (n + 9) :: u32) :: u16) :: u32) = word_of_nat (n + 9)"
    using assms by (intro ucast16_small) simp
  moreover note Alloc_room [of n j] SetNew_prefix [of n data] SetNew_prefix [of n "take n data"]
  ultimately show ?thesis
    using assms unfolding send_request_def Let_def by (simp del: of_nat_add)
qed

text \<open>
  What a request of any length below two gigabytes puts on the send queue. Up to 65526 bytes
  it is the whole data under the next id, with the operation code of the kind of call. A longer
  one is cut to its length modulo 65536 without an error, so that the server decodes a
  truncated call, an uninitialised message or (after an exception in the caller) nothing.
\<close>

theorem request_sent_modulo_64k:
  assumes "0 < length data" and "length data + 9 < 2 ^ 31"
  defines "k \<equiv> (length data + 9) mod 2 ^ 16"
  shows "SendSync_schedule j Op_REQUEST data (word_of_nat (length data)) st =
    (if k < 9 then Fault BadArrayLength
     else if k = 9 then
       Ok (junk_id j, st\<lparr>outbound := outbound st @
             [\<lparr>msg_op = junk_op j, msg_id = junk_id j, msg_size = 0, msg_ptr = Some []\<rparr>]\<rparr>)
     else Ok (nid st, st\<lparr>nid := nid st + 1,
            outbound := outbound st @ [request (iop_code SYNC_REQUEST) (nid st) (take (k - 9) data)]\<rparr>))"
proof -
  have size: "(ucast (ucast ((word_of_nat (length data) :: i32) + 9) :: u16) :: u32) = word_of_nat k"
    using ucast16_wraps [of "length data + 9"] assms(2) by (simp add: k_def)
  have kd: "k \<le> length data + 9" unfolding k_def by (rule mod_less_eq_dividend)
  have k16: "k < 2 ^ 16" unfolding k_def by simp
  define n where "n = k - 9"
  consider "k < 9" | "k = 9" | "k = n + 9" "0 < n" "n \<le> length data" "n < 2 ^ 16"
    using kd k16 unfolding n_def by linarith
  then show ?thesis
  proof cases
    case 1
    then have "sint (word_of_nat k :: i32) < 9" by simp
    with 1 show ?thesis
      by (simp add: SendSync_schedule_def send_request_def Let_def size Alloc_short)
  next
    case 2
    have "Alloc j (word_of_nat k) =
        Ok \<lparr>msg_op = junk_op j, msg_id = junk_id j, msg_size = 0, msg_ptr = Some []\<rparr>"
      using Alloc_room [of 0 j] 2 by (simp add: new_array_def)
    with 2 show ?thesis
      by (simp add: SendSync_schedule_def send_request_def Let_def size SetNew_def
          ScheduleTransmission_def smq_push_def)
  next
    case 3
    have "Alloc j (word_of_nat k) = Ok \<lparr>msg_op = junk_op j, msg_id = junk_id j,
        msg_size = word_of_nat n, msg_ptr = Some (new_array j n)\<rparr>"
      using Alloc_room [of n j] 3 by (simp del: of_nat_add)
    moreover have "SetNew (nid st) \<lparr>msg_op = junk_op j, msg_id = junk_id j,
        msg_size = word_of_nat n, msg_ptr = Some (new_array j n)\<rparr> 2 (Some data)
        = Ok (request 2 (nid st) (take n data), nid st + 1)"
      using 3 by (intro SetNew_prefix) simp_all
    ultimately show ?thesis
      using 3 by (simp add: SendSync_schedule_def send_request_def Let_def size
          ScheduleTransmission_def smq_push_def)
  qed
qed

theorem request_sent_modulo_64k_witness:
  "SendSync_schedule j0 Op_REQUEST [1, 2, 3] 3 messaging_init
     = Ok (0, messaging_init\<lparr>nid := 1, outbound := [request 2 0 [1, 2, 3]]\<rparr>)
   \<and> SendSync_schedule j0 Op_REQUEST (replicate 65530 0) 65530 messaging_init = Fault BadArrayLength"
  using request_sent_modulo_64k [of "[1, 2, 3]" j0 messaging_init]
    request_sent_modulo_64k [of "replicate 65530 0" j0 messaging_init]
  by (simp add: messaging_init_def)

section \<open>Responses\<close>

text \<open>
  A response handed to the slot wakes exactly the caller that waits for its id: that caller gets
  the response's payload and empties the slot, every other caller keeps sleeping.
\<close>

theorem sync_response_reaches_its_caller:
  assumes "wf_msg m" and "length (payload m) \<le> SVReturn_size" and "length ret0 = SVReturn_size"
  shows "\<exists>st'. SetMsgIdCondition st m = Ok st' \<and>
    WaitForId ret0 i st' =
      (if i = msg_id m
       then Ok (payload m @ drop (length (payload m)) ret0, st'\<lparr>lmessage := Delete m\<rparr>)
       else Blocked)"
proof -
  from assms(1) obtain p where p: "msg_ptr m = Some p" "payload m = p" "unat (msg_size m) = length p"
    by (rule wf_msgE)
  have "SetMsgIdCondition st m = Ok (st\<lparr>lmessage := m\<rparr>)"
    using assms(1) by (simp add: SetMsgIdCondition_def Let_def)
  moreover have "WaitForId ret0 i (st\<lparr>lmessage := m\<rparr>) =
      (if i = msg_id m then Ok (p @ drop (length p) ret0, st\<lparr>lmessage := Delete m\<rparr>) else Blocked)"
    using p assms(2,3)
    by (simp add: WaitForId_def Let_def memcpy_from_def memcpy_to_def blit_def)
  ultimately show ?thesis using p by simp
qed

theorem sync_response_reaches_its_caller_witness:
  "\<exists>st'. SetMsgIdCondition messaging_init (request 5 7 [4, 2]) = Ok st'
     \<and> WaitForId (replicate 1025 0) 7 st' = Ok ([4, 2] @ replicate 1023 0, st'\<lparr>lmessage := Delete (request 5 7 [4, 2])\<rparr>)"
  using sync_response_reaches_its_caller [of "request 5 7 [4, 2]" "replicate 1025 0" messaging_init 7]
  by (simp add: wf_request)

text \<open>
  The slot in a run of the client: the decoding thread hands over responses, callers that find
  theirs take it.
\<close>

inductive slot_step :: "messaging \<Rightarrow> messaging \<Rightarrow> u64 option \<Rightarrow> bool" where
  arrive: "SetMsgIdCondition st m = Ok st' \<Longrightarrow> slot_step st st' (Some (msg_id m))"
| taken: "WaitForId ret0 i st = Ok (r, st') \<Longrightarrow> slot_step st st' None"

inductive slot_run :: "u64 \<Rightarrow> messaging \<Rightarrow> messaging \<Rightarrow> bool" for i where
  refl: "slot_run i st st"
| step: "slot_run i st st' \<Longrightarrow> slot_step st' st'' e \<Longrightarrow> e \<noteq> Some i \<Longrightarrow> slot_run i st st''"

lemma WaitForId_other: "msg_id (lmessage st) \<noteq> i \<or> msg_ptr (lmessage st) = None \<Longrightarrow> WaitForId r i st = Blocked"
  by (auto simp: WaitForId_def Let_def split: option.splits)

lemma Copy_id: "Copy m = Ok c \<Longrightarrow> msg_id c = msg_id m"
  by (auto simp: Copy_def obind_eq_Ok split: if_splits option.splits)

lemma slot_step_other:
  assumes "slot_step st st' e" "e \<noteq> Some i" "msg_id (lmessage st) \<noteq> i \<or> msg_ptr (lmessage st) = None"
  shows "msg_id (lmessage st') \<noteq> i \<or> msg_ptr (lmessage st') = None"
  using assms
proof cases
  case (arrive m)
  then show ?thesis using assms(2) by (auto simp: SetMsgIdCondition_def Let_def obind_eq_Ok dest: Copy_id)
next
  case (taken ret0 k r)
  then have "msg_ptr (lmessage st') = None"
    by (auto simp: WaitForId_def Let_def Delete_def obind_eq_Ok split: option.splits if_splits)
  then show ?thesis ..
qed

text \<open>
  The slot holds one response. When a second response arrives before the caller of the first
  one has run, the first response is lost: in every later run in which no further message
  carries its id, its caller sleeps in \<^verbatim>\<open>WaitForId\<close>.
\<close>

theorem overtaken_response_lost:
  assumes "SetMsgIdCondition st m1 = Ok st1" and "SetMsgIdCondition st1 m2 = Ok st2"
    and "msg_id m1 \<noteq> msg_id m2" and "slot_run (msg_id m1) st2 st3"
  shows "WaitForId ret0 (msg_id m1) st3 = Blocked"
proof -
  have "msg_id (lmessage st2) \<noteq> msg_id m1"
    using assms(2,3) by (auto simp: SetMsgIdCondition_def Let_def obind_eq_Ok dest: Copy_id)
  with assms(4) have "msg_id (lmessage st3) \<noteq> msg_id m1 \<or> msg_ptr (lmessage st3) = None"
    by (induction rule: slot_run.induct) (auto dest: slot_step_other)
  then show ?thesis by (rule WaitForId_other)
qed

theorem overtaken_response_lost_witness:
  "WaitForId (replicate 1025 0) 7
     (messaging_init\<lparr>lmessage := request 5 8 [2]\<rparr>) = Blocked"
proof -
  have 1: "SetMsgIdCondition messaging_init (request 5 7 [1]) = Ok (messaging_init\<lparr>lmessage := request 5 7 [1]\<rparr>)"
    and 2: "SetMsgIdCondition (messaging_init\<lparr>lmessage := request 5 7 [1]\<rparr>) (request 5 8 [2])
      = Ok (messaging_init\<lparr>lmessage := request 5 8 [2]\<rparr>)"
    by (simp_all add: SetMsgIdCondition_def wf_request)
  show ?thesis using overtaken_response_lost [OF 1 2 _ slot_run.refl] by simp
qed

text \<open>
  An asynchronous call whose response arrives after the call returned gets it: the response
  fulfils the future of that call once, no other future changes, and the promise is gone. A
  response that arrives between the two halves of the call, which the source does not exclude,
  throws out of the decoding thread.
\<close>

theorem async_response:
  assumes "0 < length data" and "length data + 9 < 2 ^ 16" and "nid st \<notin> async_mess_prom st"
    and "wf_msg m" and "length (payload m) = SVReturn_size" and "msg_id m = nid st"
    and "SendAsync_schedule j Op_REQUEST data (word_of_nat (length data)) st = Ok (i, st1)"
  shows "NotifyPromise st1 m = Fault OutOfRange
    \<and> (\<exists>st2. NotifyPromise (SendAsync_register i st1) m = Ok st2
      \<and> futures st2 = (futures st)(nid st \<mapsto> payload m) \<and> async_mess_prom st2 = async_mess_prom st)"
proof -
  have st1: "i = nid st" "async_mess_prom st1 = async_mess_prom st" "futures st1 = futures st"
    using assms(7) send_request_ok [OF assms(1,2), of 2 j Op_REQUEST st]
    by (auto simp: SendAsync_schedule_def Let_def)
  have race: "NotifyPromise st1 m = Fault OutOfRange"
    using st1 assms(3,6) by (simp add: NotifyPromise_def)
  from assms(4) obtain p where "msg_ptr m = Some p" "payload m = p" by (rule wf_msgE)
  then have "\<exists>st2. NotifyPromise (SendAsync_register i st1) m = Ok st2
      \<and> futures st2 = (futures st)(nid st \<mapsto> payload m) \<and> async_mess_prom st2 = async_mess_prom st"
    using st1 assms(3,5,6)
    by (simp add: NotifyPromise_def SendAsync_register_def memcpy_from_def)
  with race show ?thesis ..
qed

theorem async_response_witness:
  "\<exists>i st1 st2. SendAsync_schedule j0 Op_REQUEST [1, 2] 2 messaging_init = Ok (i, st1)
     \<and> NotifyPromise st1 (request 6 0 (replicate 1025 0)) = Fault OutOfRange
     \<and> NotifyPromise (SendAsync_register i st1) (request 6 0 (replicate 1025 0)) = Ok st2
     \<and> futures st2 0 = Some (replicate 1025 0)"
proof -
  let ?d = "[1, 2] :: bytes" and ?m = "request 6 0 (replicate 1025 0)"
  obtain i st1 where s: "SendAsync_schedule j0 Op_REQUEST ?d (word_of_nat (length ?d)) messaging_init = Ok (i, st1)"
    using send_request_ok [of ?d 2 j0 Op_REQUEST messaging_init] by (simp add: SendAsync_schedule_def Let_def)
  have "wf_msg ?m" by (rule wf_request) simp_all
  then show ?thesis
    using async_response [OF _ _ _ _ _ _ s, of ?m] s
    by (fastforce simp: messaging_init_def)
qed

end
