(* ===== verification/Sending.thy ===== *)
theory Sending
  imports Link Message
begin

text \<open>
  The sending threads, one in \<^verbatim>\<open>server.cpp\<close> and one in \<^verbatim>\<open>client.cpp\<close> with the same text, and the whole way of
  a message: the threads that queue messages, the sending thread, the connection, and the two threads of the peer
  (theory \<open>Link\<close>), interleaved. Then how a sending thread ends.
\<close>

section \<open>The sending thread\<close>

text \<open>
  Where the thread is: at the test of its loop, at the call of \<^verbatim>\<open>pop\<close>, asleep in the wait of \<^verbatim>\<open>pop\<close>, woken
  there, or at its end.
\<close>

datatype send_pc = AtTest | AtPop | Asleep | Woken | Ended

text \<open>
  \<open>swire\<close> are the bytes given to \<^verbatim>\<open>SendData\<close> that the peer has not received yet; \<open>pushed\<close> records every message
  that was in the queue at the start or queued since.
\<close>

record sender =
  srunning :: bool
  squeue :: "DefaultMessage smq"
  spc :: send_pc
  swire :: bytes
  pushed :: "DefaultMessage list"

definition send_popped :: "DefaultMessage \<times> DefaultMessage smq \<Rightarrow> 'a sender_scheme \<Rightarrow> 'a sender_scheme outcome" where
  "send_popped r s = obind (transmit (fst r)) (\<lambda>d. Ok (s\<lparr>squeue := snd r, spc := AtTest, swire := swire s @ d\<rparr>))"

definition send_own :: "'a sender_scheme \<Rightarrow> 'a sender_scheme outcome" where
  "send_own s =
     (case spc s of
        AtTest \<Rightarrow> Ok (s\<lparr>spc := (if srunning s then AtPop else Ended)\<rparr>)
      | AtPop \<Rightarrow> (case smq_pop msg_zero (squeue s) None of
            Ok r \<Rightarrow> send_popped r s
          | Fault e \<Rightarrow> Fault e
          | Blocked \<Rightarrow> Ok (s\<lparr>spc := Asleep\<rparr>))
      | Asleep \<Rightarrow> Blocked
      | Woken \<Rightarrow> obind (smq_pop msg_zero [] (Some (squeue s))) (\<lambda>r. send_popped r s)
      | Ended \<Rightarrow> Blocked)"

text \<open>\<^verbatim>\<open>notify_one\<close> of a push, \<^verbatim>\<open>notify_all\<close> of \<^verbatim>\<open>notify_unblock\<close>, or a spurious wake-up.\<close>

definition wake :: "send_pc \<Rightarrow> send_pc" where
  "wake pc = (if pc = Asleep then Woken else pc)"

definition queue_message :: "DefaultMessage \<Rightarrow> 'a sender_scheme \<Rightarrow> 'a sender_scheme" where
  "queue_message m s = s\<lparr>squeue := smq_push (squeue s) m, pushed := pushed s @ [m], spc := wake (spc s)\<rparr>"

definition send_unblock :: "'a sender_scheme \<Rightarrow> 'a sender_scheme" where
  "send_unblock s = s\<lparr>squeue := smq_notify_unblock (squeue s), spc := wake (spc s)\<rparr>"

section \<open>The whole way of a message\<close>

record conn = sender +
  rq :: byte_queue
  rpending :: "i32 option"
  rgot :: "bytes list"

text \<open>A connection starts with whatever the queue, a static variable, still holds.\<close>

definition conn_init :: "DefaultMessage list \<Rightarrow> bytes \<Rightarrow> conn" where
  "conn_init q0 mem = \<lparr>srunning = True, squeue = q0, spc = AtTest, swire = [], pushed = q0,
     rq = ByteQueue_new mem, rpending = None, rgot = []\<rparr>"

text \<open>The steps of the three threads. \<^verbatim>\<open>recv\<close> returns at least one byte and at most 512, cut where it likes.\<close>

inductive conn_own :: "conn \<Rightarrow> conn \<Rightarrow> bool" where
  sending: "send_own s = Ok s' \<Longrightarrow> conn_own s s'"
| receiving: "\<lbrakk>swire s = c @ r; c \<noteq> []; length c \<le> 512; addBytes (rq s) c = Ok q'\<rbrakk> \<Longrightarrow>
     conn_own s (s\<lparr>swire := r, rq := q'\<rparr>)"
| heading: "\<lbrakk>rpending s = None; fetch_begin (rq s) = Ok (Some n)\<rbrakk> \<Longrightarrow> conn_own s (s\<lparr>rpending := Some n\<rparr>)"
| delivering: "\<lbrakk>rpending s = Some n; fetch_finish (rq s) n = Ok (m, sz, q')\<rbrakk> \<Longrightarrow>
     conn_own s (s\<lparr>rpending := None, rq := q', rgot := rgot s @ [m]\<rparr>)"

text \<open>The steps of everyone else: queue a message, clear the running flag, wake the thread.\<close>

inductive conn_env :: "conn \<Rightarrow> conn \<Rightarrow> bool" where
  queueing: "conn_env s (queue_message m s)"
| stopping: "conn_env s (s\<lparr>srunning := False\<rparr>)"
| waking: "conn_env s (send_unblock s)"

inductive_cases conn_ownE: "conn_own s s'"
inductive_cases conn_envE: "conn_env s s'"

definition conn_step :: "conn \<Rightarrow> conn \<Rightarrow> bool" where
  "conn_step s s' \<longleftrightarrow> conn_own s s' \<or> conn_env s s'"

section \<open>Invariant\<close>

text \<open>
  Every message is delivered, on its way, or still queued, in this order; the thread sleeps only on an empty queue and
  ends only when it was told to.
\<close>

definition conn_parts :: "nat \<Rightarrow> DefaultMessage list \<Rightarrow> DefaultMessage list \<Rightarrow> conn \<Rightarrow> bool" where
  "conn_parts cap got due s \<longleftrightarrow>
     pushed s = got @ due @ squeue s \<and> rgot s = map body got \<and> bq.stream_ok (map body due) (rq s) [swire s]
     \<and> (\<forall>n. rpending s = Some n \<longrightarrow> due \<noteq> [] \<and> n = header (body (hd due)))
     \<and> capacity (rq s) = cap \<and> (spc s = Asleep \<longrightarrow> squeue s = []) \<and> (spc s = Ended \<longrightarrow> \<not> srunning s)"

definition conn_inv :: "nat \<Rightarrow> conn \<Rightarrow> bool" where
  "conn_inv cap s \<longleftrightarrow> (list_all wf_msg (pushed s) \<longrightarrow> (\<exists>got due. conn_parts cap got due s))"

lemma conn_inv_init: "length mem + 512 < 2 ^ 64 \<Longrightarrow> conn_inv (length mem) (conn_init q0 mem)"
  by (auto simp: conn_inv_def conn_parts_def conn_init_def bq.stream_ok_def bq_live_def intro!: exI [of _ "[] :: DefaultMessage list"])

lemma transmit_zero [simp]: "transmit msg_zero = Ok []"
  by (simp add: transmit_def msg_zero_def)

text \<open>What a step of the sending thread does, by the place where it is.\<close>

lemma send_own_cases:
  assumes "send_own s = Ok s'"
  obtains (test) "spc s = AtTest" "s' = s\<lparr>spc := (if srunning s then AtPop else Ended)\<rparr>"
  | (sleep) "spc s = AtPop" "squeue s = []" "s' = s\<lparr>spc := Asleep\<rparr>"
  | (idle) "spc s = Woken" "squeue s = []" "s' = s\<lparr>squeue := [], spc := AtTest\<rparr>"
  | (send) m q d where "spc s \<in> {AtPop, Woken}" "squeue s = m # q" "transmit m = Ok d"
      "s' = s\<lparr>squeue := q, spc := AtTest, swire := swire s @ d\<rparr>"
proof (cases "squeue s")
  case Nil
  have wok: "spc s = Woken \<Longrightarrow> s' = s\<lparr>squeue := [], spc := AtTest\<rparr>"
    using Nil assms by (simp add: send_own_def send_popped_def)
  show ?thesis
  proof (cases "spc s")
    case Woken
    then show ?thesis using idle Nil wok by blast
  qed (use Nil assms test sleep in \<open>auto simp: send_own_def\<close>)
next
  case (Cons m q)
  then show ?thesis using assms test send
    by (cases "spc s") (auto simp: send_own_def send_popped_def smq_pop_def after_wait_def elim!: obind_OkE)
qed

lemma conn_parts_stream_send:
  assumes "bq.stream_ok (map body due) q [w]" "wf_msg m" "transmit m = Ok d"
  shows "bq.stream_ok (map body (due @ [m])) q [w @ d]"
  using assms transmit_frame [OF assms(2)] valid_body [OF assms(2)] by (auto simp: bq.stream_ok_def)

lemma conn_own_parts:
  assumes "conn_own s s'" "list_all wf_msg (pushed s)" "conn_parts cap got due s"
  shows "\<exists>got due. conn_parts cap got due s'"
  using assms(1)
proof cases
  case sending
  then show ?thesis
  proof (cases rule: send_own_cases)
    case (send m q d)
    have "wf_msg m" using assms(2,3) send(2) by (simp add: conn_parts_def)
    then have "conn_parts cap got (due @ [m]) s'"
      using assms(3) send conn_parts_stream_send [of due "rq s" "swire s" m d] by (auto simp: conn_parts_def)
    then show ?thesis by blast
  qed (insert assms(3), rule exI [of _ got], rule exI [of _ due], auto simp: conn_parts_def)+
next
  case (receiving c r q')
  have "bq.stream_ok (map body due) (rq s) (c # [r])"
    using assms(3) receiving by (simp add: conn_parts_def bq.stream_ok_def)
  then have "bq.stream_ok (map body due) q' [r] \<and> capacity q' = capacity (rq s)"
    using receiving by (intro bq.add_stream) auto
  then have "conn_parts cap got due s'" using assms(3) receiving by (simp add: conn_parts_def)
  then show ?thesis by blast
next
  case (heading n)
  have "bq.stream_ok (map body due) (rq s) [swire s]" using assms(3) by (simp add: conn_parts_def)
  from bq.peek_stream [OF this heading(3)] have "due \<noteq> [] \<and> n = header (body (hd due))" by (cases due) auto
  then have "conn_parts cap got due s'" using assms(3) heading by (simp add: conn_parts_def)
  then show ?thesis by blast
next
  case (delivering n m sz q')
  obtain d ds where d: "due = d # ds" "n = header (body d)"
    using assms(3) delivering by (cases due) (auto simp: conn_parts_def)
  then have "m = body d \<and> bq.stream_ok (map body ds) q' [swire s] \<and> capacity q' = capacity (rq s)"
    using bq.grab_stream [of "body d" "map body ds" "rq s" "[swire s]" m sz q'] delivering assms(3)
    by (simp add: conn_parts_def)
  then have "conn_parts cap (got @ [d]) ds s'" using assms(3) delivering d by (simp add: conn_parts_def)
  then show ?thesis by blast
qed

lemma conn_own_pushed: "conn_own s s' \<Longrightarrow> pushed s' = pushed s \<and> srunning s' = srunning s"
  by (erule conn_ownE) (auto elim!: send_own_cases)

lemma conn_env_parts: "conn_env s s' \<Longrightarrow> conn_parts cap got due s \<Longrightarrow> conn_parts cap got due s'"
  by (erule conn_envE)
    (simp_all add: conn_parts_def queue_message_def send_unblock_def smq_push_def smq_notify_unblock_def wake_def)

lemma conn_env_pushed: "conn_env s s' \<Longrightarrow> \<exists>ms. pushed s' = pushed s @ ms"
  by (erule conn_envE) (simp_all add: queue_message_def send_unblock_def)

lemma conn_step_inv:
  assumes "conn_step s s'" "conn_inv cap s"
  shows "conn_inv cap s'"
  using assms(1) unfolding conn_step_def
proof
  assume "conn_own s s'"
  then show ?thesis using assms(2) conn_own_parts conn_own_pushed by (metis conn_inv_def)
next
  assume e: "conn_env s s'"
  show ?thesis unfolding conn_inv_def
  proof
    assume "list_all wf_msg (pushed s')"
    then have "list_all wf_msg (pushed s)" using conn_env_pushed [OF e] by auto
    then show "\<exists>got due. conn_parts cap got due s'"
      using assms(2) conn_env_parts [OF e] unfolding conn_inv_def by blast
  qed
qed

interpretation conn: invariant_system conn_step "conn_inv cap" for cap
  by unfold_locales (rule conn_step_inv)

section \<open>Every queued message is delivered\<close>

fun pc_rank :: "send_pc \<Rightarrow> nat" where
  "pc_rank AtTest = 2"
| "pc_rank AtPop = 1"
| "pc_rank Asleep = 0"
| "pc_rank Woken = 3"
| "pc_rank Ended = 0"

definition conn_rank :: "conn \<Rightarrow> nat" where
  "conn_rank s = pc_rank (spc s) + sum_list (map (\<lambda>m. 5 + 3 * length (frame (body m))) (squeue s))
     + 3 * length (swire s) + 2 * length (content (rq s)) + (if rpending s = None then 1 else 0)"

lemma conn_own_rank:
  assumes "conn_own s s'" "list_all wf_msg (pushed s)" "conn_parts cap got due s"
  shows "conn_rank s' < conn_rank s"
  using assms(1)
proof cases
  case sending
  then show ?thesis
  proof (cases rule: send_own_cases)
    case (send m q d)
    have "wf_msg m" using assms(2,3) send(2) by (simp add: conn_parts_def)
    then have "length d = length (frame (body m))" using send(3) transmit_frame [of m] by simp
    then show ?thesis using send by (auto simp: conn_rank_def)
  qed (simp_all add: conn_rank_def)
next
  case (receiving c r q')
  have st: "bq.stream_ok (map body due) (rq s) (c # [r])"
    using assms(3) receiving by (simp add: conn_parts_def bq.stream_ok_def)
  then have "bq.stream_ok (map body due) q' [r]" using bq.add_stream receiving by blast
  then have "content q' @ r = content (rq s) @ c @ r" using st by (simp add: bq.stream_ok_def)
  then have "length (content q') = length (content (rq s)) + length c" by simp
  then show ?thesis using receiving by (simp add: conn_rank_def)
next
  case (heading n)
  then show ?thesis by (simp add: conn_rank_def)
next
  case (delivering n m sz q')
  obtain d ds where d: "due = d # ds" "n = header (body d)"
    using assms(3) delivering by (cases due) (auto simp: conn_parts_def)
  then have "length (content (rq s)) = length (content q') + length (body d) + 4"
    using bq.grab_stream [of "body d" "map body ds" "rq s" "[swire s]" m sz q'] delivering assms(3)
    by (simp add: conn_parts_def)
  then show ?thesis using delivering by (simp add: conn_rank_def)
qed

text \<open>A stream of bytes can be cut into pieces that \<^verbatim>\<open>recv\<close> may return.\<close>

lemma cut_exists: "\<exists>cs. concat cs = w \<and> list_all (\<lambda>c. c \<noteq> [] \<and> length c \<le> 512) cs" for w :: bytes
proof (induction "length w" arbitrary: w rule: less_induct)
  case less
  show ?case
  proof (cases "w = []")
    case False
    then obtain cs where "concat cs = drop 512 w" "list_all (\<lambda>c. c \<noteq> [] \<and> length c \<le> 512) cs"
      using less [of "drop 512 w"] by auto
    then show ?thesis using False by (intro exI [of _ "take 512 w # cs"]) simp
  qed (auto intro: exI [of _ "[]"])
qed

lemma sender_progress:
  assumes "conn_parts cap got due s" "list_all wf_msg (pushed s)" "srunning s" "squeue s \<noteq> []"
  shows "\<exists>s'. send_own s = Ok s'"
proof -
  obtain m q where q: "squeue s = m # q" using assms(4) by (cases "squeue s") auto
  then have "wf_msg m" using assms(1,2) by (simp add: conn_parts_def)
  then have "transmit m = Ok (frame (body m))" by (rule transmit_frame)
  moreover have "spc s \<noteq> Asleep" "spc s \<noteq> Ended" using assms(1,3,4) by (auto simp: conn_parts_def)
  ultimately show ?thesis using q
    by (cases "spc s") (simp_all add: send_own_def send_popped_def smq_pop_def after_wait_def)
qed

lemma receiver_progress:
  assumes parts: "conn_parts cap got due s" and "due \<noteq> []" "list_all (\<lambda>m. length (body m) + 515 \<le> cap) due"
  shows "\<exists>s'. conn_own s s'"
proof -
  obtain cs where cs: "concat cs = swire s" "list_all (\<lambda>c. c \<noteq> [] \<and> length c \<le> 512) cs" using cut_exists by blast
  have st: "bq.stream_ok (map body due) (rq s) cs"
    using parts cs(1) by (simp add: conn_parts_def bq.stream_ok_def)
  have fit: "list_all (\<lambda>m. length m + 4 + 511 \<le> capacity (rq s)) (map body due)"
    using assms(3) parts by (auto simp: conn_parts_def list_all_iff)
  have hd: "hd (map body due) = body (hd due)" using assms(2) by (simp add: hd_map)
  from bq.stream_progress [OF st _ fit] assms(2) cs(2) consider
      (recv) c cs' q' where "cs = c # cs'" "addBytes (rq s) c = Ok q'"
    | (dec) r where "fetch_begin (rq s) = Ok (Some (header (body (hd due))))" "fetch_finish (rq s) (header (body (hd due))) = Ok r"
    by (auto simp: outcome_simps hd list_all_iff)
  then show ?thesis
  proof cases
    case recv
    then have "swire s = c @ concat cs'" using cs(1) by simp
    then show ?thesis using conn_own.receiving [of s c "concat cs'" q'] cs(2) recv by auto
  next
    case dec
    show ?thesis
    proof (cases "rpending s")
      case None
      then show ?thesis using dec(1) conn_own.heading by blast
    next
      case (Some n)
      then have "n = header (body (hd due))" using parts by (simp add: conn_parts_def)
      then show ?thesis using Some dec(2) conn_own.delivering by (metis prod_cases3)
    qed
  qed
qed

definition conn_fits :: "nat \<Rightarrow> conn \<Rightarrow> bool" where
  "conn_fits cap s \<longleftrightarrow> srunning s \<and> list_all (\<lambda>m. wf_msg m \<and> length (body m) + 515 \<le> cap) (pushed s)
     \<and> (\<exists>got due. conn_parts cap got due s)"

lemma conn_fitsD: "conn_fits cap s \<Longrightarrow> list_all wf_msg (pushed s)"
  by (auto simp: conn_fits_def list_all_iff)

interpretation delivery: ranked_system conn_own "conn_fits cap" conn_rank "\<lambda>s. rgot s = map body (pushed s)" for cap
proof
  show "conn_own s s' \<Longrightarrow> conn_fits cap s \<Longrightarrow> conn_fits cap s'" for s s'
    using conn_own_parts [of s s'] conn_own_pushed [of s s'] conn_fitsD [of cap s] by (fastforce simp: conn_fits_def)
  show "conn_own s s' \<Longrightarrow> conn_fits cap s \<Longrightarrow> conn_rank s' < conn_rank s" for s s'
    using conn_own_rank [of s s'] conn_fitsD [of cap s] by (auto simp: conn_fits_def)
  fix s assume fits: "conn_fits cap s" and ng: "rgot s \<noteq> map body (pushed s)"
  obtain got due where p: "conn_parts cap got due s" using fits by (auto simp: conn_fits_def)
  show "\<exists>s'. conn_own s s'"
  proof (cases "squeue s = []")
    case True
    then have "due \<noteq> []" using p ng by (auto simp: conn_parts_def)
    moreover have "list_all (\<lambda>m. length (body m) + 515 \<le> cap) due"
      using fits p by (auto simp: conn_fits_def conn_parts_def list_all_iff)
    ultimately show ?thesis using receiver_progress [OF p] by blast
  next
    case False
    then show ?thesis using sender_progress [OF p conn_fitsD [OF fits]] fits conn_own.sending
      by (auto simp: conn_fits_def)
  qed
qed

lemma conn_run_pushed: "conn_step\<^sup>*\<^sup>* s s' \<Longrightarrow> \<exists>ms. pushed s' = pushed s @ ms"
proof (induction rule: rtranclp_induct)
  case (step s1 s2)
  then show ?case using conn_own_pushed conn_env_pushed unfolding conn_step_def by (metis append.assoc append_Nil2)
qed simp

lemma own_run_pushed: "conn_own\<^sup>*\<^sup>* s s' \<Longrightarrow> pushed s' = pushed s"
  by (induction rule: rtranclp_induct) (auto dest: conn_own_pushed)

lemma own_run_is_run: "conn_own\<^sup>*\<^sup>* s s' \<Longrightarrow> conn_step\<^sup>*\<^sup>* s s'"
  by (erule rtranclp_mono [THEN predicate2D, rotated]) (auto simp: conn_step_def)

text \<open>
  C1. However the threads that queue messages, the sending thread, TCP, the receiving thread and the decoding thread of
  the peer interleave, and also when the connection is being stopped: the peer has received an initial part of
  what was queued, in order and complete, starting with what the queue held when the connection began, and every message
  it has received decodes to the message that was queued.
\<close>

theorem delivered_in_order:
  assumes "length mem + 512 < 2 ^ 64" and "conn_step\<^sup>*\<^sup>* (conn_init q0 mem) s" and "list_all wf_msg (pushed s)"
  shows "\<exists>got rest new. pushed s = q0 @ new \<and> pushed s = got @ rest \<and> rgot s = map body got
    \<and> (\<forall>m\<in>set got. decode j (word_of_nat (length (body m))) (body m @ stale) = Ok m)"
proof -
  have "conn_inv (length mem) s" using conn.run_inv [OF assms(2) conn_inv_init [OF assms(1)]] .
  then obtain got due where p: "conn_parts (length mem) got due s" using assms(3) by (auto simp: conn_inv_def)
  obtain new where "pushed s = q0 @ new" using conn_run_pushed [OF assms(2)] by (auto simp: conn_init_def)
  moreover have "\<forall>m\<in>set got. decode j (word_of_nat (length (body m))) (body m @ stale) = Ok m"
    using assms(3) p decode_body by (auto simp: conn_parts_def list_all_iff)
  moreover have "pushed s = got @ due @ squeue s" "rgot s = map body got" using p by (simp_all add: conn_parts_def)
  ultimately show ?thesis by blast
qed

text \<open>
  C5. As long as the connection is up, every message that was queued is delivered, when the peer's buffer has room for each of
  them and one more chunk: from every reachable state the three threads reach a state in which all have been received; they
  make only a bounded number of steps when nothing new is queued; and when none of them can move, all have been received.
\<close>

theorem queued_messages_delivered:
  assumes "length mem + 512 < 2 ^ 64" and "conn_step\<^sup>*\<^sup>* (conn_init q0 mem) s" and "srunning s"
    and "list_all (\<lambda>m. wf_msg m \<and> length (body m) + 515 \<le> length mem) (pushed s)"
  shows "(\<exists>s'. conn_own\<^sup>*\<^sup>* s s' \<and> rgot s' = map body (pushed s))
    \<and> (\<forall>n s'. (conn_own ^^ n) s s' \<longrightarrow> n \<le> conn_rank s)
    \<and> ((\<nexists>s'. conn_own s s') \<longrightarrow> rgot s = map body (pushed s))"
proof -
  have "conn_inv (length mem) s" using conn.run_inv [OF assms(2) conn_inv_init [OF assms(1)]] .
  moreover have "list_all wf_msg (pushed s)" using assms(4) by (auto simp: list_all_iff)
  ultimately have fits: "conn_fits (length mem) s" using assms(3,4) by (simp add: conn_inv_def conn_fits_def)
  have "\<exists>s'. conn_own\<^sup>*\<^sup>* s s' \<and> rgot s' = map body (pushed s)"
    using delivery.reaches_goal [OF fits] own_run_pushed by metis
  moreover have "\<forall>n s'. (conn_own ^^ n) s s' \<longrightarrow> n \<le> conn_rank s"
    using delivery.run_bounded [OF _ fits] by (meson le_add1 le_trans)
  ultimately show ?thesis using delivery.progress [OF fits] by blast
qed

lemma conn_ex_wf: "wf_msg (request 5 7 [42])"
  by (simp add: wf_request)

theorem queued_messages_delivered_witness:
  "\<exists>s'. conn_own\<^sup>*\<^sup>* (conn_init [request 5 7 [42]] (replicate 600 0)) s' \<and> rgot s' = [body (request 5 7 [42])]"
proof -
  let ?s = "conn_init [request 5 7 [42]] (replicate 600 0)"
  have "(\<exists>s'. conn_own\<^sup>*\<^sup>* ?s s' \<and> rgot s' = map body (pushed ?s))
    \<and> (\<forall>n s'. (conn_own ^^ n) ?s s' \<longrightarrow> n \<le> conn_rank ?s)
    \<and> ((\<nexists>s'. conn_own ?s s') \<longrightarrow> rgot ?s = map body (pushed ?s))"
    by (rule queued_messages_delivered [where mem = "replicate 600 0" and ?q0.0 = "[request 5 7 [42]]"])
      (simp_all add: conn_ex_wf conn_init_def)
  then show ?thesis by (auto simp: conn_init_def)
qed

theorem delivered_in_order_witness:
  "\<exists>s got rest. conn_step\<^sup>*\<^sup>* (conn_init [request 5 7 [42]] (replicate 600 0)) s \<and> rgot s \<noteq> []
     \<and> pushed s = got @ rest \<and> rgot s = map body got"
proof -
  let ?s = "conn_init [request 5 7 [42]] (replicate 600 0)"
  have "conn_fits 600 ?s"
    using conn_inv_init [of "replicate 600 0" "[request 5 7 [42]]"] conn_ex_wf
    by (simp add: conn_inv_def conn_fits_def conn_init_def)
  then obtain s where s: "conn_own\<^sup>*\<^sup>* ?s s" "rgot s = map body (pushed s)" using delivery.reaches_goal by blast
  then have p: "pushed s = [request 5 7 [42]]" using own_run_pushed [OF s(1)] by (simp add: conn_init_def)
  then have "list_all wf_msg (pushed s)" using conn_ex_wf by simp
  then obtain got rest where "pushed s = got @ rest" "rgot s = map body got"
    using delivered_in_order [OF _ own_run_is_run [OF s(1)], where j = j0 and stale = "[]"] by auto
  moreover have "rgot s \<noteq> []" using s(2) p by simp
  ultimately show ?thesis using own_run_is_run [OF s(1)] by blast
qed

section \<open>The end of a sending thread\<close>

abbreviation send_run :: "'a sender_scheme \<Rightarrow> 'a sender_scheme \<Rightarrow> bool" where
  "send_run \<equiv> (\<lambda>s s'. send_own s = Ok s')\<^sup>*\<^sup>*"

lemma send_run_test: "spc s = AtTest \<Longrightarrow> \<not> srunning s \<Longrightarrow> \<exists>s'. send_run s s' \<and> spc s' = Ended"
  by (intro exI [of _ "s\<lparr>spc := Ended\<rparr>"] conjI r_into_rtranclp) (simp_all add: send_own_def)

lemma send_run_pops:
  assumes "send_own s = Ok s1" "spc s1 = AtTest" "\<not> srunning s1"
  shows "\<exists>s'. send_run s s' \<and> spc s' = Ended"
  using send_run_test [OF assms(2,3)] assms(1) by (meson converse_rtranclp_into_rtranclp)

lemma send_run_asleep:
  assumes "send_run s s'" "spc s = Asleep"
  shows "s' = s"
  using assms by (induction rule: converse_rtranclp_induct) (auto simp: send_own_def)

lemma send_run_sleeps:
  assumes "send_run s s'" "spc s = AtPop" "squeue s = []"
  shows "s' = s \<or> s' = s\<lparr>spc := Asleep\<rparr>"
  using assms(1)
proof (cases rule: converse_rtranclpE)
  case (step s1)
  then have "s1 = s\<lparr>spc := Asleep\<rparr>" using assms(2,3) by (simp add: send_own_def)
  then show ?thesis using send_run_asleep [OF step(2)] by simp
qed simp

text \<open>
  C25. When a sending thread can be stopped. Clearing the running flag and notifying the queue ends the thread from every
  place but one: between the test of its loop and the wait inside \<^verbatim>\<open>pop\<close>, with nothing queued. From there the
  notification finds nobody waiting, the thread goes to sleep, and the \<^verbatim>\<open>join\<close> of \<^verbatim>\<open>StopThread\<close> waits for ever.
\<close>

theorem stop_ends_sending_thread:
  assumes "list_all wf_msg (squeue s)"
  shows "(\<exists>s'. send_run (send_unblock (s\<lparr>srunning := False\<rparr>)) s' \<and> spc s' = Ended)
    \<longleftrightarrow> \<not> (spc s = AtPop \<and> squeue s = [])"
proof -
  let ?s = "send_unblock (s\<lparr>srunning := False\<rparr>)"
  have hang: "\<not> (\<exists>s'. send_run ?s s' \<and> spc s' = Ended)" if "spc s = AtPop" "squeue s = []"
  proof -
    have "spc ?s = AtPop" "squeue ?s = []" using that by (simp_all add: send_unblock_def wake_def smq_notify_unblock_def)
    then show ?thesis using send_run_sleeps [of ?s] by fastforce
  qed
  have ends: "\<exists>s'. send_run ?s s' \<and> spc s' = Ended" if "\<not> (spc s = AtPop \<and> squeue s = [])"
  proof (cases "squeue s")
    case Nil
    then show ?thesis using that send_run_test [of ?s] send_run_pops [of ?s]
      by (cases "spc s") (auto simp: send_unblock_def wake_def smq_notify_unblock_def send_own_def send_popped_def)
  next
    case (Cons m q)
    then have "transmit m = Ok (frame (body m))" using assms transmit_frame by simp
    then show ?thesis using Cons send_run_test [of ?s] send_run_pops [of ?s]
      by (cases "spc s") (auto simp: send_unblock_def wake_def smq_notify_unblock_def send_own_def send_popped_def
          smq_pop_def after_wait_def)
  qed
  show ?thesis using hang ends by blast
qed

definition sender_at :: "send_pc \<Rightarrow> sender" where
  "sender_at pc = \<lparr>srunning = True, squeue = [], spc = pc, swire = [], pushed = []\<rparr>"

theorem stop_ends_sending_thread_witness:
  "(\<exists>s'. send_run (send_unblock ((sender_at Asleep)\<lparr>srunning := False\<rparr>)) s' \<and> spc s' = Ended)
   \<and> \<not> (\<exists>s'. send_run (send_unblock ((sender_at AtPop)\<lparr>srunning := False\<rparr>)) s' \<and> spc s' = Ended)"
  using stop_ends_sending_thread [of "sender_at Asleep"] stop_ends_sending_thread [of "sender_at AtPop"]
  by (simp add: sender_at_def)

end
