(* ===== verification/Crypto.thy ===== *)
theory Crypto
  imports Prelude
begin

text \<open>
  The cryptographic helpers of \<^verbatim>\<open>DCS_Core/src/auth.cpp\<close>. OpenSSL is a parameter: a record of
  the envelope calls the source makes, each of which may fail. What is modelled is what the source
  itself does: the order of the calls, the early return after each failure, which buffer is
  written when, and the release of the context on every path.
\<close>

section \<open>Random bytes and hashing\<close>

text \<open>\<open>cRandInit\<close> is the flag of \<^verbatim>\<open>InitCryptoRand\<close>; \<open>rand\<close> is what \<^verbatim>\<open>RAND_bytes\<close> stores.\<close>

definition InitCryptoRand :: "bool \<Rightarrow> bool" where
  "InitCryptoRand cRandInit = True"

definition gen_bytes :: "nat \<Rightarrow> bool \<Rightarrow> (nat \<Rightarrow> bytes) \<Rightarrow> bytes option \<Rightarrow> bytes option" where
  "gen_bytes n cRandInit rand dst =
     (case dst of None \<Rightarrow> None | Some b \<Rightarrow> Some (if cRandInit then blit b 0 (rand n) else b))"

definition GenerateSalt :: "bool \<Rightarrow> (nat \<Rightarrow> bytes) \<Rightarrow> bytes option \<Rightarrow> bytes option" where
  "GenerateSalt = gen_bytes 8"

definition GenerateRandSafeIV128 :: "bool \<Rightarrow> (nat \<Rightarrow> bytes) \<Rightarrow> bytes option \<Rightarrow> bytes option" where
  "GenerateRandSafeIV128 = gen_bytes 16"

text \<open>An empty or missing string leaves the output as it was.\<close>

definition SHA256Str :: "(string \<Rightarrow> bytes) \<Rightarrow> string option \<Rightarrow> bytes option \<Rightarrow> bytes option" where
  "SHA256Str sha256 str hash =
     (case hash of None \<Rightarrow> None
      | Some h \<Rightarrow> (case str of None \<Rightarrow> Some h
          | Some s \<Rightarrow> if strlen s = 0 then Some h else Some (blit h 0 (sha256 (cstr s)))))"

section \<open>Hexadecimal output\<close>

definition hex_digit :: "nat \<Rightarrow> char" where
  "hex_digit d = ''0123456789abcdef'' ! d"

definition hex_byte :: "u8 \<Rightarrow> string" where
  "hex_byte b = [hex_digit (unat b div 16), hex_digit (unat b mod 16)]"

text \<open>Each \<^verbatim>\<open>sprintf\<close> also writes the terminator, which the next one overwrites.\<close>

fun hex_loop :: "string \<Rightarrow> nat \<Rightarrow> bytes \<Rightarrow> string outcome" where
  "hex_loop out i [] = Ok out"
| "hex_loop out i (b # bs) =
     obind (memcpy_to out (i * 2) (hex_byte b @ [NUL])) (\<lambda>out'. hex_loop out' (i + 1) bs)"

definition HexStringifyBytes :: "string option \<Rightarrow> bytes option \<Rightarrow> string option outcome" where
  "HexStringifyBytes out hash =
     (case hash of None \<Rightarrow> Ok out
      | Some h \<Rightarrow> (case out of None \<Rightarrow> Ok None
          | Some b \<Rightarrow> obind (hex_loop b 0 h) (\<lambda>b'. Ok (Some b'))))"

lemma hex_loop_ok:
  assumes "2 * i + 2 * length bs + 1 \<le> length out" and "bs \<noteq> [] \<or> (2 * i < length out \<and> out ! (2 * i) = NUL)"
  shows "\<exists>out'. hex_loop out i bs = Ok out' \<and> length out' = length out
    \<and> take (2 * i + 2 * length bs + 1) out' = take (2 * i) out @ concat (map hex_byte bs) @ [NUL]"
  using assms
proof (induction bs arbitrary: out i)
  case Nil
  then show ?case by (simp add: take_Suc_conv_app_nth)
next
  case (Cons b bs)
  let ?w = "hex_byte b @ [NUL]"
  let ?out = "blit out (i * 2) ?w"
  have w: "length ?w = 3" by (simp add: hex_byte_def)
  have fits: "i * 2 + 3 \<le> length out" using Cons.prems(1) by simp
  then have len: "length ?out = length out" using w by simp
  have t: "take (2 * (i + 1)) ?out = take (2 * i) out @ hex_byte b"
    using fits by (simp add: blit_def hex_byte_def mult.commute)
  have z: "?out ! (2 * (i + 1)) = NUL"
    using fits by (simp add: blit_def hex_byte_def nth_append mult.commute)
  have "\<exists>out'. hex_loop ?out (i + 1) bs = Ok out' \<and> length out' = length ?out
      \<and> take (2 * (i + 1) + 2 * length bs + 1) out' = take (2 * (i + 1)) ?out @ concat (map hex_byte bs) @ [NUL]"
    using Cons.prems(1) len fits z by (intro Cons.IH) simp_all
  then show ?case using fits w len by (auto simp: memcpy_to_def t [simplified])
qed

text \<open>
  Bytes are printed as twice as many lower-case hexadecimal digits and a terminator, nothing
  else of the output changes its length, and different byte strings print differently.
\<close>

theorem hex_output:
  assumes "2 * length h + 1 \<le> length out" and "h \<noteq> []"
  shows "\<exists>out'. HexStringifyBytes (Some out) (Some h) = Ok (Some out') \<and> length out' = length out
    \<and> take (2 * length h + 1) out' = concat (map hex_byte h) @ [NUL]
    \<and> (\<forall>g. concat (map hex_byte g) = concat (map hex_byte h) \<longrightarrow> g = h)"
proof -
  have digit: "hex_digit a = hex_digit b \<Longrightarrow> a = b" if "a < 16" "b < 16" for a b
  proof -
    have "distinct ''0123456789abcdef''" by simp
    then show "hex_digit a = hex_digit b \<Longrightarrow> a = b"
      using that nth_eq_iff_index_eq [of "''0123456789abcdef''" a b] by (simp add: hex_digit_def)
  qed
  have byte: "x = y" if e: "hex_byte x = hex_byte y" for x y
  proof -
    have b: "unat x div 16 < 16" "unat y div 16 < 16"
      using unsigned_less [of x, where ?'a = nat] unsigned_less [of y, where ?'a = nat] by (simp_all add: div_less_iff_less_mult)
    have "unat x div 16 = unat y div 16" "unat x mod 16 = unat y mod 16"
      using e digit b by (simp_all add: hex_byte_def)
    then have "unat x = unat y" by (metis div_mult_mod_eq)
    then show ?thesis by (simp add: word_unat_eq_iff)
  qed
  have inj: "concat (map hex_byte g) = concat (map hex_byte k) \<Longrightarrow> g = k" for g k
  proof (induction g arbitrary: k)
    case Nil
    then show ?case by (cases k) (simp_all add: hex_byte_def)
  next
    case (Cons x xs)
    then obtain y ys where k: "k = y # ys" by (cases k) (simp_all add: hex_byte_def)
    then have "hex_byte x = hex_byte y" "concat (map hex_byte xs) = concat (map hex_byte ys)"
      using Cons.prems by (simp_all add: hex_byte_def [of x] hex_byte_def [of y])
    then show ?case using byte Cons.IH k by simp
  qed
  show ?thesis
    using hex_loop_ok [of 0 h out] assms inj by (auto simp: HexStringifyBytes_def)
qed

theorem hex_output_witness:
  "\<exists>out'. HexStringifyBytes (Some (replicate 5 CHR ''?'')) (Some [10, 255]) = Ok (Some out')
     \<and> take 5 out' = concat (map hex_byte [10, 255]) @ [NUL]"
  using hex_output [of "[10, 255]" "replicate 5 CHR ''?''"] by auto

section \<open>AES-256 in GCM mode\<close>

text \<open>The calls on an envelope context \<open>'c\<close>; a failed call is \<open>None\<close>.\<close>

record 'c evp =
  CTX_new :: "'c option"
  EncryptInit :: "'c \<Rightarrow> 'c option"
  DecryptInit :: "'c \<Rightarrow> 'c option"
  set_ivlen :: "nat \<Rightarrow> 'c \<Rightarrow> 'c option"
  set_key_iv :: "bytes \<Rightarrow> bytes \<Rightarrow> 'c \<Rightarrow> 'c option"
  put_aad :: "bytes \<Rightarrow> 'c \<Rightarrow> 'c option"
  EncryptUpdate :: "bytes \<Rightarrow> 'c \<Rightarrow> (bytes \<times> 'c) option"
  EncryptFinal :: "'c \<Rightarrow> (bytes \<times> 'c) option"
  get_tag :: "'c \<Rightarrow> bytes option"
  DecryptUpdate :: "bytes \<Rightarrow> 'c \<Rightarrow> (bytes \<times> 'c) option"
  set_tag :: "bytes \<Rightarrow> 'c \<Rightarrow> 'c option"
  DecryptFinal :: "'c \<Rightarrow> (bytes \<times> 'c) option"

text \<open>The caller's output buffers and the number of contexts allocated and not freed.\<close>

record aes_io =
  io_out :: bytes
  io_tag :: bytes
  live_ctx :: int

definition CTX_free :: "aes_io \<Rightarrow> aes_io" where
  "CTX_free s = s\<lparr>live_ctx := live_ctx s - 1\<rparr>"

text \<open>The associated data is skipped when its size is 0 or its pointer null.\<close>

definition feed_aad :: "'c evp \<Rightarrow> bytes option \<Rightarrow> 'c \<Rightarrow> 'c option" where
  "feed_aad ev aad c = (case aad of None \<Rightarrow> Some c | Some a \<Rightarrow> if 0 < length a then put_aad ev a c else Some c)"

definition put_out :: "aes_io \<Rightarrow> nat \<Rightarrow> bytes \<Rightarrow> aes_io outcome" where
  "put_out s off d = obind (memcpy_to (io_out s) off d) (\<lambda>b. Ok (s\<lparr>io_out := b\<rparr>))"

definition EncryptAES256 :: "'c evp \<Rightarrow> bytes \<Rightarrow> bytes option \<Rightarrow> bytes \<Rightarrow> bytes \<Rightarrow> aes_io \<Rightarrow> aes_io outcome" where
  "EncryptAES256 ev plain aad key iv s =
     (case CTX_new ev of None \<Rightarrow> Ok s
      | Some c \<Rightarrow> let s = s\<lparr>live_ctx := live_ctx s + 1\<rparr> in
     (case EncryptInit ev c of None \<Rightarrow> Ok (CTX_free s)
      | Some c \<Rightarrow>
     (case set_ivlen ev 16 c of None \<Rightarrow> Ok (CTX_free s)
      | Some c \<Rightarrow>
     (case set_key_iv ev key iv c of None \<Rightarrow> Ok (CTX_free s)
      | Some c \<Rightarrow>
     (case feed_aad ev aad c of None \<Rightarrow> Ok (CTX_free s)
      | Some c \<Rightarrow>
     (case EncryptUpdate ev plain c of None \<Rightarrow> Ok (CTX_free s)
      | Some (d, c) \<Rightarrow> obind (put_out s 0 d) (\<lambda>s.
     (case EncryptFinal ev c of None \<Rightarrow> Ok (CTX_free s)
      | Some (d', c) \<Rightarrow> obind (put_out s (length d) d') (\<lambda>s.
     (case get_tag ev c of None \<Rightarrow> Ok (CTX_free s)
      | Some t \<Rightarrow> obind (memcpy_to (io_tag s) 0 t) (\<lambda>t'. Ok (CTX_free (s\<lparr>io_tag := t'\<rparr>)))))))))))))"

text \<open>The length of the plain text, or -1, with the buffers.\<close>

definition DecryptAES256 :: "'c evp \<Rightarrow> bytes \<Rightarrow> bytes option \<Rightarrow> bytes \<Rightarrow> bytes \<Rightarrow> bytes option \<Rightarrow> aes_io \<Rightarrow> (int \<times> aes_io) outcome" where
  "DecryptAES256 ev cipher aad key iv tag s =
     (case CTX_new ev of None \<Rightarrow> Ok (-1, s)
      | Some c \<Rightarrow> let s = s\<lparr>live_ctx := live_ctx s + 1\<rparr> in
     (case DecryptInit ev c of None \<Rightarrow> Ok (-1, CTX_free s)
      | Some c \<Rightarrow>
     (case set_ivlen ev 16 c of None \<Rightarrow> Ok (-1, CTX_free s)
      | Some c \<Rightarrow>
     (case set_key_iv ev key iv c of None \<Rightarrow> Ok (-1, CTX_free s)
      | Some c \<Rightarrow>
     (case feed_aad ev aad c of None \<Rightarrow> Ok (-1, CTX_free s)
      | Some c \<Rightarrow>
     (case DecryptUpdate ev cipher c of None \<Rightarrow> Ok (-1, CTX_free s)
      | Some (d, c) \<Rightarrow> obind (put_out s 0 d) (\<lambda>s.
     (case (case tag of None \<Rightarrow> Some c | Some t \<Rightarrow> set_tag ev t c) of None \<Rightarrow> Ok (-1, CTX_free s)
      | Some c \<Rightarrow>
     (case DecryptFinal ev c of None \<Rightarrow> Ok (-1, CTX_free s)
      | Some (d', c) \<Rightarrow> obind (put_out s (length d) d') (\<lambda>s.
          Ok (int (length d) + int (length d'), CTX_free s)))))))))))"

lemma put_out_ctx: "put_out s n d = Ok s' \<Longrightarrow> live_ctx s' = live_ctx s"
  by (auto simp: put_out_def obind_eq_Ok)

lemma encrypt_ctx: "EncryptAES256 ev plain aad key iv s = Ok s' \<Longrightarrow> live_ctx s' = live_ctx s"
  unfolding EncryptAES256_def CTX_free_def Let_def
  by (auto split: option.splits elim!: obind_OkE dest!: put_out_ctx)

lemma decrypt_ctx: "DecryptAES256 ev cipher aad key iv tag s = Ok (n, s') \<Longrightarrow> live_ctx s' = live_ctx s"
  unfolding DecryptAES256_def CTX_free_def Let_def
  by (auto split: option.splits elim!: obind_OkE dest!: put_out_ctx)

text \<open>
  Neither operation leaks a context, whichever of the library calls fails: the number of live
  contexts after a return is the number before the call.
\<close>

theorem aes_contexts_released:
  "(EncryptAES256 ev plain aad key iv s = Ok s' \<longrightarrow> live_ctx s' = live_ctx s)
   \<and> (DecryptAES256 ev cipher aad key iv tag s = Ok (n, s'') \<longrightarrow> live_ctx s'' = live_ctx s)"
  using encrypt_ctx decrypt_ctx by blast

definition evp_broken :: "unit evp" where
  "evp_broken = \<lparr>CTX_new = Some (), EncryptInit = Some, DecryptInit = Some, set_ivlen = (\<lambda>_ _. None),
     set_key_iv = (\<lambda>_ _. Some), put_aad = (\<lambda>_. Some), EncryptUpdate = (\<lambda>d c. Some (d, c)),
     EncryptFinal = (\<lambda>c. Some ([], c)), get_tag = (\<lambda>_. Some []), DecryptUpdate = (\<lambda>d c. Some (d, c)),
     set_tag = (\<lambda>_. Some), DecryptFinal = (\<lambda>c. Some ([], c))\<rparr>"

theorem aes_contexts_released_witness:
  "\<exists>s'. EncryptAES256 evp_broken [1] None [] [] \<lparr>io_out = [0], io_tag = [], live_ctx = 0\<rparr> = Ok s' \<and> live_ctx s' = 0"
proof -
  obtain s' where s': "EncryptAES256 evp_broken [1] None [] [] \<lparr>io_out = [0], io_tag = [], live_ctx = 0\<rparr> = Ok s'"
    by (simp add: EncryptAES256_def evp_broken_def Let_def)
  then show ?thesis using aes_contexts_released by fastforce
qed

text \<open>When no call fails, the cipher text is the update's output followed by the final block.\<close>

definition evp_succeeds :: "'c evp \<Rightarrow> bool" where
  "evp_succeeds ev \<longleftrightarrow> CTX_new ev \<noteq> None
     \<and> (\<forall>c. EncryptInit ev c \<noteq> None \<and> DecryptInit ev c \<noteq> None \<and> (\<forall>n. set_ivlen ev n c \<noteq> None)
         \<and> (\<forall>k iv. set_key_iv ev k iv c \<noteq> None) \<and> (\<forall>a. put_aad ev a c \<noteq> None)
         \<and> (\<forall>d. EncryptUpdate ev d c \<noteq> None) \<and> EncryptFinal ev c \<noteq> None \<and> get_tag ev c \<noteq> None)"

text \<open>The cipher text and tag as a function of the inputs, for a library whose calls succeed.\<close>

definition aes_gcm :: "'c evp \<Rightarrow> bytes \<Rightarrow> bytes \<Rightarrow> bytes \<Rightarrow> bytes \<times> bytes" where
  "aes_gcm ev plain key iv =
     (let c = the (set_key_iv ev key iv (the (set_ivlen ev 16 (the (EncryptInit ev (the (CTX_new ev)))))));
          (d, c) = the (EncryptUpdate ev plain c);
          (d', c) = the (EncryptFinal ev c)
      in (d @ d', the (get_tag ev c)))"

lemma EncryptAES256_ok:
  assumes ok: "evp_succeeds ev" and len: "length (fst (aes_gcm ev plain key iv)) = length (io_out s)"
    and tag: "length (snd (aes_gcm ev plain key iv)) = length (io_tag s)"
  shows "EncryptAES256 ev plain None key iv s =
    Ok (s\<lparr>io_out := fst (aes_gcm ev plain key iv), io_tag := snd (aes_gcm ev plain key iv)\<rparr>)"
proof -
  obtain c0 where c0: "CTX_new ev = Some c0" using ok by (auto simp: evp_succeeds_def)
  obtain c1 where c1: "EncryptInit ev c0 = Some c1" using ok by (metis evp_succeeds_def option.exhaust)
  obtain c2 where c2: "set_ivlen ev 16 c1 = Some c2" using ok by (metis evp_succeeds_def option.exhaust)
  obtain c3 where c3: "set_key_iv ev key iv c2 = Some c3" using ok by (metis evp_succeeds_def option.exhaust)
  obtain d c4 where c4: "EncryptUpdate ev plain c3 = Some (d, c4)"
    using ok by (metis evp_succeeds_def option.exhaust surj_pair)
  obtain d' c5 where c5: "EncryptFinal ev c4 = Some (d', c5)"
    using ok by (metis evp_succeeds_def option.exhaust surj_pair)
  obtain t where t: "get_tag ev c5 = Some t" using ok by (metis evp_succeeds_def option.exhaust)
  have g: "aes_gcm ev plain key iv = (d @ d', t)"
    by (simp add: aes_gcm_def c0 c1 c2 c3 c4 c5 t)
  have "length d + length d' = length (io_out s)" "length t = length (io_tag s)" using len tag by (simp_all add: g)
  moreover from this have "blit (blit (io_out s) 0 d) (length d) d' = d @ d'" "blit (io_tag s) 0 t = t"
    by (simp_all add: blit_def)
  ultimately show ?thesis
    by (simp add: EncryptAES256_def c0 c1 c2 c3 c4 c5 t g feed_aad_def put_out_def memcpy_to_def CTX_free_def Let_def)
qed

end
