(* ===== verification/Database.thy ===== *)
theory Database
  imports Prelude Systems
begin

text \<open>
  The persistent store of \<^verbatim>\<open>DCS_Core/src/db.cpp\<close>: variables with a read cache in front of
  them, users and the event log. SQLite is a parameter: a record of what a prepared
  statement returns and does, with its documented behaviour as a named contract.
\<close>

section \<open>SQLite as the code sees it\<close>

datatype cell = CNull | CText string | CInt int | CBlob bytes

text \<open>
  \<open>sq_select d q\<close> are the rows of the query \<open>q\<close>, \<open>None\<close> when it does not prepare;
  \<open>sq_run d q ps\<close> is the database after the statement \<open>q\<close> with bound parameters
  \<open>ps\<close>, \<open>None\<close> when preparing or stepping it fails.
\<close>

record 'd sqlite =
  sq_select :: "'d \<Rightarrow> string \<Rightarrow> cell list list option"
  sq_run :: "'d \<Rightarrow> string \<Rightarrow> cell list \<Rightarrow> 'd option"

record 'd rdb =
  realtime_db :: 'd
  db_var_cache :: "string \<Rightarrow> string option"
  authenticated_username :: string

datatype LogOperation = VAR_CREATE | VAR_UPDATE | VAR_DELETE | USR_CREATE | USR_DELETE | NETWORK

fun LogOperationNames :: "LogOperation \<Rightarrow> string" where
  "LogOperationNames VAR_CREATE = ''VAR_CREATE''"
| "LogOperationNames VAR_UPDATE = ''VAR_UPDATE''"
| "LogOperationNames VAR_DELETE = ''VAR_DELETE''"
| "LogOperationNames USR_CREATE = ''USR_CREATE''"
| "LogOperationNames USR_DELETE = ''USR_DELETE''"
| "LogOperationNames NETWORK = ''NETWORK''"

section \<open>Statements\<close>

definition quoted :: "string \<Rightarrow> string" where
  "quoted s = CHR 0x22 # s @ [CHR 0x22]"

definition select_text :: "string \<Rightarrow> string \<Rightarrow> string \<Rightarrow> string" where
  "select_text table column statement = ''SELECT '' @ column @ '' FROM '' @ table @ '' WHERE '' @ statement"

text \<open>The column index of the fetch loops grows with every row; SQLite leaves a read past the last column undefined.\<close>

fun text_rows :: "nat \<Rightarrow> cell list list \<Rightarrow> string list outcome" where
  "text_rows i [] = Ok []"
| "text_rows i (r # rs) =
     obind (read_at r i) (\<lambda>c. case c of
         CText t \<Rightarrow> obind (text_rows (i + 1) rs) (\<lambda>ts. Ok (t # ts))
       | CInt n \<Rightarrow> obind (text_rows (i + 1) rs) (\<lambda>ts. Ok (to_string n # ts))
       | _ \<Rightarrow> Fault NullPointer)"

fun int_rows :: "nat \<Rightarrow> cell list list \<Rightarrow> int list outcome" where
  "int_rows i [] = Ok []"
| "int_rows i (r # rs) =
     obind (read_at r i) (\<lambda>c. obind (int_rows (i + 1) rs) (\<lambda>ns.
       Ok ((case c of CInt n \<Rightarrow> n | _ \<Rightarrow> 0) # ns)))"

text \<open>A blob starts with its own total length in eight bytes.\<close>

fun blob_rows :: "nat \<Rightarrow> cell list list \<Rightarrow> bytes list outcome" where
  "blob_rows i [] = Ok []"
| "blob_rows i (r # rs) =
     obind (read_at r i) (\<lambda>c. case c of
         CBlob b \<Rightarrow> obind (memcpy_from b 0 8) (\<lambda>szb.
           obind (memcpy_from b 0 (unat (get64 szb))) (\<lambda>v.
           obind (blob_rows (i + 1) rs) (\<lambda>vs. Ok (v # vs))))
       | _ \<Rightarrow> Fault NullPointer)"

text \<open>\<^verbatim>\<open>QueryEntries\<close> at its three used types; a query that does not prepare leaves the result empty.\<close>

definition QueryEntries_TEXT :: "'d sqlite \<Rightarrow> 'd \<Rightarrow> string \<Rightarrow> string \<Rightarrow> string \<Rightarrow> string list outcome" where
  "QueryEntries_TEXT sq d table column statement =
     (case sq_select sq d (select_text table column statement) of
        None \<Rightarrow> Ok [] | Some rows \<Rightarrow> text_rows 0 rows)"

definition QueryEntries_INT :: "'d sqlite \<Rightarrow> 'd \<Rightarrow> string \<Rightarrow> string \<Rightarrow> string \<Rightarrow> int list outcome" where
  "QueryEntries_INT sq d table column statement =
     (case sq_select sq d (select_text table column statement) of
        None \<Rightarrow> Ok [] | Some rows \<Rightarrow> int_rows 0 rows)"

definition QueryEntries_BLOB :: "'d sqlite \<Rightarrow> 'd \<Rightarrow> string \<Rightarrow> string \<Rightarrow> string \<Rightarrow> bytes list outcome" where
  "QueryEntries_BLOB sq d table column statement =
     (case sq_select sq d (select_text table column statement) of
        None \<Rightarrow> Ok [] | Some rows \<Rightarrow> blob_rows 0 rows)"

definition insert_text :: "string \<Rightarrow> string \<Rightarrow> nat \<Rightarrow> string" where
  "insert_text table cols n =
     ''INSERT OR REPLACE INTO '' @ table @ '' ('' @ cols @ '') VALUES ('' @ concat (replicate (n - 1) ''?,'') @ ''?)''"

text \<open>An error is logged and leaves the database as it was.\<close>

definition InsertEntry :: "'d sqlite \<Rightarrow> 'd \<Rightarrow> string \<Rightarrow> string \<Rightarrow> cell list \<Rightarrow> 'd" where
  "InsertEntry sq d table cols ps =
     (case sq_run sq d (insert_text table cols (length ps)) ps of None \<Rightarrow> d | Some d' \<Rightarrow> d')"

section \<open>Variables and the log\<close>

definition log_event :: "'d sqlite \<Rightarrow> string \<Rightarrow> LogOperation \<Rightarrow> string \<Rightarrow> 'd \<Rightarrow> 'd" where
  "log_event sq who oper what d =
     InsertEntry sq d ''EVENTS'' ''USERNAME,OPERATION,OP_DESCRIPTION''
       [CText who, CText (LogOperationNames oper), CText what]"

definition LogEventUser :: "'d sqlite \<Rightarrow> LogOperation \<Rightarrow> string \<Rightarrow> 'd rdb \<Rightarrow> 'd rdb" where
  "LogEventUser sq oper what st =
     st\<lparr>realtime_db := log_event sq (authenticated_username st) oper what (realtime_db st)\<rparr>"

definition LogEventSystem :: "'d sqlite \<Rightarrow> LogOperation \<Rightarrow> string \<Rightarrow> 'd rdb \<Rightarrow> 'd rdb" where
  "LogEventSystem sq oper what st =
     st\<lparr>realtime_db := log_event sq ''System'' oper what (realtime_db st)\<rparr>"

definition ReadVariable :: "'d sqlite \<Rightarrow> string \<Rightarrow> 'd rdb \<Rightarrow> string outcome" where
  "ReadVariable sq name st =
     obind (QueryEntries_TEXT sq (realtime_db st) ''VARIABLES'' ''VALUE'' (''NAME = '' @ quoted name))
       (\<lambda>rows. Ok (case rows of [] \<Rightarrow> [] | v # _ \<Rightarrow> v))"

definition GetVariableDescriptor :: "'d sqlite \<Rightarrow> string \<Rightarrow> 'd rdb \<Rightarrow> string outcome" where
  "GetVariableDescriptor sq name st =
     obind (QueryEntries_TEXT sq (realtime_db st) ''VARIABLES'' ''DESCRIPTOR'' (''NAME = '' @ quoted name))
       (\<lambda>rows. Ok (case rows of [] \<Rightarrow> [] | v # _ \<Rightarrow> v))"

definition insert_variable :: "'d sqlite \<Rightarrow> string \<Rightarrow> string \<Rightarrow> string option \<Rightarrow> 'd rdb \<Rightarrow> 'd rdb" where
  "insert_variable sq name v descr st =
     st\<lparr>realtime_db := InsertEntry sq (realtime_db st) ''VARIABLES'' ''NAME,VALUE,DESCRIPTOR''
         [CText name, CText v, (case descr of None \<Rightarrow> CNull | Some t \<Rightarrow> CText t)]\<rparr>"

text \<open>The two overloads differ in how the value becomes text; \<open>v\<close> is that text.\<close>

definition WriteVariable :: "'d sqlite \<Rightarrow> string \<Rightarrow> string \<Rightarrow> string option \<Rightarrow> 'd rdb \<Rightarrow> 'd rdb outcome" where
  "WriteVariable sq name v descr st =
     (let what = name @ ''='' @ v in
      obind (ReadVariable sq name st) (\<lambda>old.
        let st = LogEventSystem sq (if old = [] then VAR_CREATE else VAR_UPDATE) what st
        in Ok (insert_variable sq name v descr st)))"

definition WriteVariableSys :: "'d sqlite \<Rightarrow> string \<Rightarrow> string \<Rightarrow> string option \<Rightarrow> 'd rdb \<Rightarrow> 'd rdb" where
  "WriteVariableSys sq name v descr st = insert_variable sq name v descr st"

definition DeleteVariableInternal :: "'d sqlite \<Rightarrow> string \<Rightarrow> 'd rdb \<Rightarrow> (bool \<times> 'd rdb) outcome" where
  "DeleteVariableInternal sq name st =
     obind (ReadVariable sq name st) (\<lambda>old.
       if old = [] then Ok (False, st)
       else case sq_run sq (realtime_db st) (''DELETE FROM VARIABLES WHERE NAME = '' @ quoted name) [] of
              None \<Rightarrow> Ok (False, st)
            | Some d' \<Rightarrow> Ok (True, st\<lparr>realtime_db := d'\<rparr>))"

definition DeleteVariable :: "'d sqlite \<Rightarrow> string \<Rightarrow> 'd rdb \<Rightarrow> 'd rdb outcome" where
  "DeleteVariable sq name st =
     obind (DeleteVariableInternal sq name st) (\<lambda>(ok, st').
       Ok (if ok then LogEventUser sq VAR_DELETE name st' else st'))"

definition DeleteVariableSys :: "'d sqlite \<Rightarrow> string \<Rightarrow> 'd rdb \<Rightarrow> 'd rdb outcome" where
  "DeleteVariableSys sq name st =
     obind (DeleteVariableInternal sq name st) (\<lambda>(ok, st').
       Ok (if ok then LogEventSystem sq VAR_DELETE name st' else st'))"

section \<open>The cached interface\<close>

datatype Authority = SYS | USER

definition InvalidateCache :: "'d rdb \<Rightarrow> 'd rdb" where
  "InvalidateCache st = st\<lparr>db_var_cache := (\<lambda>_. None)\<rparr>"

text \<open>The common part of the two reads: \<open>Ok None\<close> is the warning that the variable is not there.\<close>

definition read_cached :: "'d sqlite \<Rightarrow> string \<Rightarrow> 'd rdb \<Rightarrow> (string option \<times> 'd rdb) outcome" where
  "read_cached sq name st =
     (case db_var_cache st name of
        Some v \<Rightarrow> Ok (Some v, st)
      | None \<Rightarrow> obind (ReadVariable sq name st) (\<lambda>v.
          if v = [] then Ok (None, st)
          else Ok (Some v, st\<lparr>db_var_cache := (db_var_cache st)(name \<mapsto> v)\<rparr>)))"

definition ReadValuef64 :: "(string \<Rightarrow> 'f) \<Rightarrow> 'f \<Rightarrow> 'd sqlite \<Rightarrow> string \<Rightarrow> 'd rdb \<Rightarrow> ('f \<times> 'd rdb) outcome" where
  "ReadValuef64 atof zero sq variable st =
     obind (read_cached sq (cstr variable) st) (\<lambda>(r, st').
       Ok (case r of None \<Rightarrow> zero | Some v \<Rightarrow> atof v, st'))"

text \<open>\<open>junk\<close> is the uninitialised 512-byte buffer of the returned string.\<close>

definition ReadValueString :: "string \<Rightarrow> 'd sqlite \<Rightarrow> string \<Rightarrow> 'd rdb \<Rightarrow> (string \<times> 'd rdb) outcome" where
  "ReadValueString junk sq variable st =
     obind (read_cached sq (cstr variable) st) (\<lambda>(r, st').
       case r of None \<Rightarrow> Ok (replicate 512 NUL, st')
       | Some v \<Rightarrow> obind (memcpy_to junk 0 (v @ [NUL])) (\<lambda>out. Ok (out, st')))"

definition uncache :: "string \<Rightarrow> 'd rdb \<Rightarrow> 'd rdb" where
  "uncache name st = st\<lparr>db_var_cache := (db_var_cache st)(name := None)\<rparr>"

definition WriteValueText :: "Authority \<Rightarrow> 'd sqlite \<Rightarrow> string \<Rightarrow> string \<Rightarrow> string \<Rightarrow> 'd rdb \<Rightarrow> 'd rdb outcome" where
  "WriteValueText auth sq name v descr st =
     obind (case auth of SYS \<Rightarrow> Ok (WriteVariableSys sq name v (Some descr) st)
            | USER \<Rightarrow> WriteVariable sq name v (Some descr) st) (\<lambda>st'. Ok (uncache name st'))"

text \<open>\<open>fmt\<close> is \<^verbatim>\<open>std::to_string(double)\<close>.\<close>

definition WriteValuef64 :: "('f \<Rightarrow> string) \<Rightarrow> Authority \<Rightarrow> 'd sqlite \<Rightarrow> string \<Rightarrow> 'f \<Rightarrow> string \<Rightarrow> 'd rdb \<Rightarrow> 'd rdb outcome" where
  "WriteValuef64 fmt auth sq variable v descr st = WriteValueText auth sq (cstr variable) (fmt v) (cstr descr) st"

definition WriteValueString :: "Authority \<Rightarrow> 'd sqlite \<Rightarrow> string \<Rightarrow> string \<Rightarrow> string \<Rightarrow> 'd rdb \<Rightarrow> 'd rdb outcome" where
  "WriteValueString auth sq variable v descr st = WriteValueText auth sq (cstr variable) (cstr v) (cstr descr) st"

definition DeleteValue :: "Authority \<Rightarrow> 'd sqlite \<Rightarrow> string \<Rightarrow> 'd rdb \<Rightarrow> 'd rdb outcome" where
  "DeleteValue auth sq variable st =
     obind (case auth of SYS \<Rightarrow> DeleteVariableSys sq (cstr variable) st
            | USER \<Rightarrow> DeleteVariable sq (cstr variable) st) (\<lambda>st'. Ok (uncache (cstr variable) st'))"

section \<open>Users\<close>

record User =
  user_u :: string
  user_p :: bytes

definition INVALID_USER :: string where
  "INVALID_USER = ''INVALID_USER''"

text \<open>\<open>p0\<close> is the uninitialised password field of a fresh \<^verbatim>\<open>User\<close>.\<close>

definition GetUser :: "bytes \<Rightarrow> 'd sqlite \<Rightarrow> string \<Rightarrow> 'd rdb \<Rightarrow> User outcome" where
  "GetUser p0 sq username st =
     obind (QueryEntries_TEXT sq (realtime_db st) ''USERS'' ''USERNAME'' (''USERNAME = '' @ quoted username)) (\<lambda>rows.
       case rows of [] \<Rightarrow> Ok \<lparr>user_u = INVALID_USER, user_p = p0\<rparr>
       | u # _ \<Rightarrow>
         if 32 \<le> length u then Fault OutOfBounds
         else obind (QueryEntries_BLOB sq (realtime_db st) ''USERS'' ''PASS_HASH'' (''USERNAME = '' @ quoted username)) (\<lambda>hs.
              obind (read_at hs 0) (\<lambda>h.
              obind (memcpy_from h 8 32) (\<lambda>p. Ok \<lparr>user_u = u, user_p = p\<rparr>))))"

definition is_digit :: "char \<Rightarrow> bool" where
  "is_digit c \<longleftrightarrow> c \<in> set ''0123456789''"

text \<open>Why a user was not added.\<close>

datatype add_user_error = NameTooLong | HasSpaces | UserExists | PasswordTooShort | NoDigit

definition AddUser :: "(string \<Rightarrow> bytes) \<Rightarrow> bytes \<Rightarrow> 'd sqlite \<Rightarrow> string \<Rightarrow> string \<Rightarrow> 'd rdb \<Rightarrow> (add_user_error + 'd rdb) outcome" where
  "AddUser SHA256 p0 sq username password st =
     (if 32 \<le> length username then Ok (Inl NameTooLong)
      else if CHR '' '' \<in> set username \<or> CHR '' '' \<in> set password then Ok (Inl HasSpaces)
      else obind (GetUser p0 sq username st) (\<lambda>u.
        if user_u u \<noteq> INVALID_USER then Ok (Inl UserExists)
        else if length password < 5 then Ok (Inl PasswordTooShort)
        else if \<not> list_ex is_digit password then Ok (Inl NoDigit)
        else
          let blob = put64 40 @ SHA256 password;
              st = st\<lparr>realtime_db := InsertEntry sq (realtime_db st) ''USERS'' ''USERNAME,PASS_HASH,ACCESS_LVL''
                       [CText username, CBlob blob, CInt 0]\<rparr>
          in Ok (Inr (LogEventSystem sq USR_CREATE username st))))"

definition RemoveUser :: "bytes \<Rightarrow> 'd sqlite \<Rightarrow> string \<Rightarrow> 'd rdb \<Rightarrow> 'd rdb outcome" where
  "RemoveUser p0 sq username st =
     obind (GetUser p0 sq username st) (\<lambda>u.
       if user_u u = INVALID_USER then Ok st
       else case sq_run sq (realtime_db st) (''DELETE FROM USERS WHERE USERNAME = '' @ quoted username) [] of
              None \<Rightarrow> Ok st
            | Some d' \<Rightarrow> Ok (LogEventSystem sq USR_DELETE username (st\<lparr>realtime_db := d'\<rparr>)))"

fun fill_hashes :: "string list \<Rightarrow> bytes list \<Rightarrow> User list outcome" where
  "fill_hashes [] hs = Ok []"
| "fill_hashes (u # us) [] = Fault OutOfBounds"
| "fill_hashes (u # us) (h # hs) =
     obind (memcpy_from h 8 32) (\<lambda>p. obind (fill_hashes us hs) (\<lambda>r. Ok (\<lparr>user_u = u, user_p = p\<rparr> # r)))"

definition GetAllUsers :: "'d sqlite \<Rightarrow> 'd rdb \<Rightarrow> User list outcome" where
  "GetAllUsers sq st =
     obind (QueryEntries_TEXT sq (realtime_db st) ''USERS'' ''USERNAME'' ''1==1'') (\<lambda>names.
       if names = [] then Ok []
       else if list_ex (\<lambda>u. 32 \<le> length u) names then Fault OutOfBounds
       else obind (QueryEntries_BLOB sq (realtime_db st) ''USERS'' ''PASS_HASH'' ''1==1'') (fill_hashes names))"

definition SetAuthenticatedUser :: "User option \<Rightarrow> 'd rdb \<Rightarrow> 'd rdb" where
  "SetAuthenticatedUser u st =
     st\<lparr>authenticated_username := (case u of None \<Rightarrow> [] | Some u \<Rightarrow> user_u u)\<rparr>"

definition GetAuthenticatedUsername :: "'d rdb \<Rightarrow> string" where
  "GetAuthenticatedUsername st = authenticated_username st"

section \<open>The contract of SQLite on the VARIABLES table\<close>

text \<open>
  A double-quoted word that names a column is that column, any other one is a string literal;
  the statements of the source look a variable up by such a word, so the contract speaks of
  names without a quote that are no column of the table.
\<close>

definition upcase :: "char \<Rightarrow> char" where
  "upcase c = (if 97 \<le> (of_char c :: nat) \<and> (of_char c :: nat) \<le> 122 then char_of ((of_char c :: nat) - 32) else c)"

definition plain_name :: "string \<Rightarrow> bool" where
  "plain_name n \<longleftrightarrow> CHR 0x22 \<notin> set n \<and> NUL \<notin> set n
     \<and> map upcase n \<notin> {''NAME'', ''VALUE'', ''DESCRIPTOR'', ''ROWID'', ''OID'', ''_ROWID_'', ''USERNAME'', ''PASS_HASH'', ''ACCESS_LVL'', ''ID''}"

definition var_query :: "string \<Rightarrow> string" where
  "var_query n = select_text ''VARIABLES'' ''VALUE'' (''NAME = '' @ quoted n)"

definition var_insert :: string where
  "var_insert = insert_text ''VARIABLES'' ''NAME,VALUE,DESCRIPTOR'' 3"

definition var_delete :: "string \<Rightarrow> string" where
  "var_delete n = ''DELETE FROM VARIABLES WHERE NAME = '' @ quoted n"

definition event_insert :: string where
  "event_insert = insert_text ''EVENTS'' ''USERNAME,OPERATION,OP_DESCRIPTION'' 3"

text \<open>\<open>vars d\<close> is the content of the table: \<^verbatim>\<open>NAME\<close> is its primary key.\<close>

definition sqlite_vars :: "'d sqlite \<Rightarrow> ('d \<Rightarrow> string \<Rightarrow> string option) \<Rightarrow> bool" where
  "sqlite_vars sq vars \<longleftrightarrow>
     (\<forall>d n. plain_name n \<longrightarrow> sq_select sq d (var_query n) = Some (case vars d n of None \<Rightarrow> [] | Some v \<Rightarrow> [[CText v]]))
   \<and> (\<forall>d n v c d'. sq_run sq d var_insert [CText n, CText v, c] = Some d' \<longrightarrow> vars d' = (vars d)(n \<mapsto> v))
   \<and> (\<forall>d n d'. plain_name n \<longrightarrow> sq_run sq d (var_delete n) [] = Some d' \<longrightarrow> vars d' = (vars d)(n := None))
   \<and> (\<forall>d ps d'. sq_run sq d event_insert ps = Some d' \<longrightarrow> vars d' = vars d)"

text \<open>No statement fails: the disk is not full, the file is not locked.\<close>

definition sqlite_succeeds :: "'d sqlite \<Rightarrow> bool" where
  "sqlite_succeeds sq \<longleftrightarrow> (\<forall>d q ps. sq_run sq d q ps \<noteq> None)"

section \<open>Reads through the cache are current\<close>

definition cache_ok :: "('d \<Rightarrow> string \<Rightarrow> string option) \<Rightarrow> 'd rdb \<Rightarrow> bool" where
  "cache_ok vars st \<longleftrightarrow>
     (\<forall>n v. db_var_cache st n = Some v \<longrightarrow> vars (realtime_db st) n = Some v \<and> v \<noteq> [])"

text \<open>An empty value counts as no value.\<close>

definition present :: "string option \<Rightarrow> string option" where
  "present r = (case r of None \<Rightarrow> None | Some v \<Rightarrow> if v = [] then None else Some v)"

lemma ReadVariable_current:
  assumes "sqlite_vars sq vars" "plain_name n"
  shows "ReadVariable sq n st = Ok (case vars (realtime_db st) n of None \<Rightarrow> [] | Some v \<Rightarrow> v)"
  using assms
  by (auto simp: ReadVariable_def QueryEntries_TEXT_def sqlite_vars_def var_query_def read_at_def
      split: option.splits)

lemma log_vars [simp]:
  assumes "sqlite_vars sq vars"
  shows "vars (realtime_db (LogEventSystem sq oper what st)) = vars (realtime_db st)"
    and "vars (realtime_db (LogEventUser sq oper what st)) = vars (realtime_db st)"
    and "db_var_cache (LogEventSystem sq oper what st) = db_var_cache st"
    and "db_var_cache (LogEventUser sq oper what st) = db_var_cache st"
  using assms
  by (auto simp: LogEventSystem_def LogEventUser_def log_event_def InsertEntry_def sqlite_vars_def
      event_insert_def numeral_3_eq_3 split: option.splits)

lemma succeedsD: "sqlite_succeeds sq \<Longrightarrow> sq_run sq d q ps = None \<Longrightarrow> False"
  unfolding sqlite_succeeds_def by blast

lemma insert_variable_vars:
  assumes "sqlite_vars sq vars"
  shows "vars (realtime_db (insert_variable sq n v c st)) \<in> {vars (realtime_db st), (vars (realtime_db st))(n \<mapsto> v)}"
    and "db_var_cache (insert_variable sq n v c st) = db_var_cache st"
    and "sqlite_succeeds sq \<Longrightarrow> vars (realtime_db (insert_variable sq n v c st)) = (vars (realtime_db st))(n \<mapsto> v)"
proof -
  let ?r = "sq_run sq (realtime_db st) var_insert [CText n, CText v, (case c of None \<Rightarrow> CNull | Some t \<Rightarrow> CText t)]"
  have e: "insert_variable sq n v c st = st\<lparr>realtime_db := (case ?r of None \<Rightarrow> realtime_db st | Some d \<Rightarrow> d)\<rparr>"
    by (simp add: insert_variable_def InsertEntry_def var_insert_def numeral_3_eq_3)
  have s: "?r = Some d' \<Longrightarrow> vars d' = (vars (realtime_db st))(n \<mapsto> v)" for d'
    using assms by (simp add: sqlite_vars_def)
  show "vars (realtime_db (insert_variable sq n v c st)) \<in> {vars (realtime_db st), (vars (realtime_db st))(n \<mapsto> v)}"
    and "db_var_cache (insert_variable sq n v c st) = db_var_cache st"
    unfolding e using s by (auto split: option.splits)
  show "vars (realtime_db (insert_variable sq n v c st)) = (vars (realtime_db st))(n \<mapsto> v)" if "sqlite_succeeds sq"
    unfolding e using s succeedsD [OF that] by (auto split: option.splits)
qed

lemma read_cached_current:
  assumes "sqlite_vars sq vars" "plain_name n" "cache_ok vars st"
  shows "\<exists>st'. read_cached sq n st = Ok (present (vars (realtime_db st) n), st')
    \<and> cache_ok vars st' \<and> realtime_db st' = realtime_db st"
proof (cases "db_var_cache st n")
  case None
  then show ?thesis
    using assms ReadVariable_current [OF assms(1,2), of st]
    by (auto simp: read_cached_def present_def cache_ok_def split: option.splits)
next
  case (Some v)
  then show ?thesis
    using assms(3) by (auto simp: read_cached_def present_def cache_ok_def)
qed

lemma uncache_ok:
  assumes "cache_ok vars st" "db_var_cache st' = db_var_cache st"
    and "\<And>k. k \<noteq> n \<Longrightarrow> vars (realtime_db st') k = vars (realtime_db st) k"
  shows "cache_ok vars (uncache n st')"
  using assms by (auto simp: cache_ok_def uncache_def)

lemma WriteValueText_effect:
  assumes c: "sqlite_vars sq vars" and n: "plain_name n" and k: "cache_ok vars st"
  shows "\<exists>st'. WriteValueText auth sq n v descr st = Ok st' \<and> cache_ok vars st'
    \<and> vars (realtime_db st') \<in> {vars (realtime_db st), (vars (realtime_db st))(n \<mapsto> v)}
    \<and> (sqlite_succeeds sq \<longrightarrow> vars (realtime_db st') = (vars (realtime_db st))(n \<mapsto> v))"
proof -
  define log where "log = (\<lambda>st. case auth of SYS \<Rightarrow> st
    | USER \<Rightarrow> LogEventSystem sq (if (case vars (realtime_db st) n of None \<Rightarrow> [] | Some v \<Rightarrow> v) = []
        then VAR_CREATE else VAR_UPDATE) (n @ ''='' @ v) st)"
  define st1 where "st1 = insert_variable sq n v (Some descr) (log st)"
  have w: "WriteValueText auth sq n v descr st = Ok (uncache n st1)"
    by (cases auth) (simp_all add: WriteValueText_def WriteVariableSys_def WriteVariable_def
        ReadVariable_current [OF c n] st1_def log_def Let_def)
  have log: "vars (realtime_db (log st)) = vars (realtime_db st)" "db_var_cache (log st) = db_var_cache st"
    using c by (cases auth; simp add: log_def)+
  have v: "vars (realtime_db st1) \<in> {vars (realtime_db st), (vars (realtime_db st))(n \<mapsto> v)}"
    "sqlite_succeeds sq \<Longrightarrow> vars (realtime_db st1) = (vars (realtime_db st))(n \<mapsto> v)"
    "db_var_cache st1 = db_var_cache st"
    using insert_variable_vars [OF c, of n v "Some descr" "log st"] log by (simp_all add: st1_def)
  then have "cache_ok vars (uncache n st1)"
    using k by (intro uncache_ok [of vars st]) auto
  moreover have "realtime_db (uncache n st1) = realtime_db st1" by (simp add: uncache_def)
  ultimately show ?thesis using w v by simp
qed

text \<open>Deleting a variable whose value is the empty string does nothing: it reads as absent.\<close>

definition drop_var :: "string \<Rightarrow> (string \<Rightarrow> string option) \<Rightarrow> string \<Rightarrow> string option" where
  "drop_var n m = (if m n = Some [] then m else m(n := None))"

lemma DeleteVariableInternal_effect:
  assumes c: "sqlite_vars sq vars" and n: "plain_name n"
  shows "\<exists>ok st'. DeleteVariableInternal sq n st = Ok (ok, st') \<and> db_var_cache st' = db_var_cache st
    \<and> vars (realtime_db st') \<in> {vars (realtime_db st), drop_var n (vars (realtime_db st))}
    \<and> (sqlite_succeeds sq \<longrightarrow> vars (realtime_db st') = drop_var n (vars (realtime_db st)))"
proof (cases "present (vars (realtime_db st) n)")
  case None
  then show ?thesis
    by (auto simp: DeleteVariableInternal_def ReadVariable_current [OF c n] present_def drop_var_def
        fun_upd_idem split: option.splits if_splits)
next
  case (Some v)
  then have v: "vars (realtime_db st) n = Some v" "v \<noteq> []"
    by (auto simp: present_def split: option.splits if_splits)
  have del: "vars d' = (vars (realtime_db st))(n := None)" if "sq_run sq (realtime_db st) (var_delete n) [] = Some d'" for d'
    using c n that by (simp add: sqlite_vars_def)
  show ?thesis
  proof (cases "sq_run sq (realtime_db st) (var_delete n) []")
    case None
    then have "\<not> sqlite_succeeds sq" unfolding sqlite_succeeds_def by blast
    with None show ?thesis
      using v by (auto simp: DeleteVariableInternal_def ReadVariable_current [OF c n] var_delete_def)
  next
    case (Some d')
    then show ?thesis
      using v del [OF Some] by (auto simp: DeleteVariableInternal_def ReadVariable_current [OF c n]
          var_delete_def drop_var_def)
  qed
qed

lemma DeleteValue_effect:
  assumes c: "sqlite_vars sq vars" and n: "plain_name (cstr name)" and k: "cache_ok vars st"
  shows "\<exists>st'. DeleteValue auth sq name st = Ok st' \<and> cache_ok vars st'
    \<and> vars (realtime_db st') \<in> {vars (realtime_db st), drop_var (cstr name) (vars (realtime_db st))}
    \<and> (sqlite_succeeds sq \<longrightarrow> vars (realtime_db st') = drop_var (cstr name) (vars (realtime_db st)))"
proof -
  obtain ok st1 where d: "DeleteVariableInternal sq (cstr name) st = Ok (ok, st1)" "db_var_cache st1 = db_var_cache st"
    "vars (realtime_db st1) \<in> {vars (realtime_db st), drop_var (cstr name) (vars (realtime_db st))}"
    "sqlite_succeeds sq \<Longrightarrow> vars (realtime_db st1) = drop_var (cstr name) (vars (realtime_db st))"
    using DeleteVariableInternal_effect [OF c n, of st] by blast
  define st2 where "st2 = (if ok then (case auth of SYS \<Rightarrow> LogEventSystem sq VAR_DELETE (cstr name) st1
     | USER \<Rightarrow> LogEventUser sq VAR_DELETE (cstr name) st1) else st1)"
  have "vars (realtime_db st2) = vars (realtime_db st1)" "db_var_cache st2 = db_var_cache st1"
    using c by (cases auth; simp add: st2_def)+
  moreover have "DeleteValue auth sq name st = Ok (uncache (cstr name) st2)"
    by (cases auth) (simp_all add: DeleteValue_def DeleteVariableSys_def DeleteVariable_def d(1) st2_def)
  moreover have "cache_ok vars (uncache (cstr name) st2)"
    using k calculation d by (intro uncache_ok [of vars st]) (auto simp: drop_var_def)
  moreover have "realtime_db (uncache (cstr name) st2) = realtime_db st2" by (simp add: uncache_def)
  ultimately show ?thesis using d by simp
qed

section \<open>Sequences of operations\<close>

datatype db_op =
    DB_Read string
  | DB_Write Authority string string string
  | DB_Delete Authority string
  | DB_Invalidate

fun db_exec :: "'d sqlite \<Rightarrow> db_op \<Rightarrow> 'd rdb \<Rightarrow> 'd rdb outcome" where
  "db_exec sq (DB_Read n) st = obind (read_cached sq (cstr n) st) (\<lambda>(r, st'). Ok st')"
| "db_exec sq (DB_Write auth n v descr) st = WriteValueString auth sq n v descr st"
| "db_exec sq (DB_Delete auth n) st = DeleteValue auth sq n st"
| "db_exec sq DB_Invalidate st = Ok (InvalidateCache st)"

abbreviation db_run :: "'d sqlite \<Rightarrow> db_op list \<Rightarrow> 'd rdb \<Rightarrow> 'd rdb outcome" where
  "db_run sq \<equiv> run_cmds (db_exec sq)"

fun op_name :: "db_op \<Rightarrow> string" where
  "op_name (DB_Read n) = cstr n"
| "op_name (DB_Write auth n v descr) = cstr n"
| "op_name (DB_Delete auth n) = cstr n"
| "op_name DB_Invalidate = ''x''"

text \<open>The specification: a finite map without a cache.\<close>

fun spec_exec :: "db_op \<Rightarrow> (string \<Rightarrow> string option) \<Rightarrow> string \<Rightarrow> string option" where
  "spec_exec (DB_Read n) m = m"
| "spec_exec (DB_Write auth n v descr) m = m(cstr n \<mapsto> cstr v)"
| "spec_exec (DB_Delete auth n) m = drop_var (cstr n) m"
| "spec_exec DB_Invalidate m = m"

lemma db_exec_step:
  assumes c: "sqlite_vars sq vars" and n: "plain_name (op_name x)" and k: "cache_ok vars st"
  shows "\<exists>st'. db_exec sq x st = Ok st' \<and> cache_ok vars st'
    \<and> (sqlite_succeeds sq \<longrightarrow> vars (realtime_db st') = spec_exec x (vars (realtime_db st)))"
proof (cases x)
  case (DB_Read m)
  then show ?thesis using read_cached_current [OF c _ k, of "cstr m"] n by auto
next
  case (DB_Write auth m v descr)
  then show ?thesis
    using WriteValueText_effect [OF c _ k, of "cstr m" auth "cstr v" "cstr descr"] n
    by (auto simp: WriteValueString_def)
next
  case (DB_Delete auth m)
  then show ?thesis using DeleteValue_effect [OF c _ k, of m auth] n by auto
next
  case DB_Invalidate
  then show ?thesis by (simp add: InvalidateCache_def cache_ok_def)
qed

definition db_ready :: "'d sqlite \<Rightarrow> ('d \<Rightarrow> string \<Rightarrow> string option) \<Rightarrow> 'd rdb \<Rightarrow> bool" where
  "db_ready sq vars st \<longleftrightarrow> sqlite_vars sq vars \<and> cache_ok vars st"

interpretation db: total_commands "db_exec sq" "\<lambda>x. plain_name (op_name x)" "db_ready sq vars" for sq vars
  by unfold_locales (use db_exec_step in \<open>fastforce simp: db_ready_def\<close>)

text \<open>While no statement fails, the operations implement the map.\<close>

interpretation dbmap: refining_commands "db_exec sq" "\<lambda>x. plain_name (op_name x)" "\<lambda>st. db_ready sq vars st \<and> sqlite_succeeds sq"
    "\<lambda>st. vars (realtime_db st)" spec_exec for sq vars
  by unfold_locales (use db_exec_step in \<open>fastforce simp: db_ready_def\<close>)+

lemma ReadValuef64_current:
  assumes "sqlite_vars sq vars" "plain_name (cstr n)" "cache_ok vars st"
  shows "\<exists>st'. ReadValuef64 atof zero sq n st =
    Ok (case present (vars (realtime_db st) (cstr n)) of None \<Rightarrow> zero | Some v \<Rightarrow> atof v, st')"
  using read_cached_current [OF assms] by (auto simp: ReadValuef64_def)

text \<open>
  C8. The read cache is transparent. Starting with an empty cache, after any sequence of reads,
  writes, deletions and invalidations, none of which faults, a read returns the value the
  database holds at that moment (and the default when there is none), also when some of the
  writes or deletions failed.
\<close>

theorem cached_reads_are_current:
  assumes "sqlite_vars sq vars" and "list_all (\<lambda>x. plain_name (op_name x)) ops"
    and "db_var_cache st = (\<lambda>_. None)" and "plain_name (cstr n)"
  shows "\<exists>st' st''. db_run sq ops st = Ok st' \<and> ReadValuef64 atof zero sq n st' =
    Ok (case present (vars (realtime_db st') (cstr n)) of None \<Rightarrow> zero | Some v \<Rightarrow> atof v, st'')"
proof -
  have "cache_ok vars st" using assms(3) by (simp add: cache_ok_def)
  then obtain st' where run: "db_run sq ops st = Ok st'" and ok: "cache_ok vars st'"
    using db.run_ok [OF assms(2), of sq vars st] assms(1) by (auto simp: db_ready_def)
  from run ReadValuef64_current [OF assms(1,4) ok, of atof zero] show ?thesis by auto
qed


section \<open>Users\<close>

definition user_query :: "string \<Rightarrow> string \<Rightarrow> string" where
  "user_query col n = select_text ''USERS'' col (''USERNAME = '' @ quoted n)"

definition user_insert :: string where
  "user_insert = insert_text ''USERS'' ''USERNAME,PASS_HASH,ACCESS_LVL'' 3"

definition user_delete :: "string \<Rightarrow> string" where
  "user_delete n = ''DELETE FROM USERS WHERE USERNAME = '' @ quoted n"

text \<open>\<open>users d\<close> maps a user name to the stored blob; \<^verbatim>\<open>USERNAME\<close> is unique.\<close>

definition sqlite_users :: "'d sqlite \<Rightarrow> ('d \<Rightarrow> string \<Rightarrow> bytes option) \<Rightarrow> bool" where
  "sqlite_users sq users \<longleftrightarrow>
     (\<forall>d n. plain_name n \<longrightarrow> sq_select sq d (user_query ''USERNAME'' n) = Some (case users d n of None \<Rightarrow> [] | Some b \<Rightarrow> [[CText n]]))
   \<and> (\<forall>d n. plain_name n \<longrightarrow> sq_select sq d (user_query ''PASS_HASH'' n) = Some (case users d n of None \<Rightarrow> [] | Some b \<Rightarrow> [[CBlob b]]))
   \<and> (\<forall>d n b d'. sq_run sq d user_insert [CText n, CBlob b, CInt 0] = Some d' \<longrightarrow> users d' = (users d)(n \<mapsto> b))
   \<and> (\<forall>d n d'. plain_name n \<longrightarrow> sq_run sq d (user_delete n) [] = Some d' \<longrightarrow> users d' = (users d)(n := None))
   \<and> (\<forall>d ps d'. sq_run sq d event_insert ps = Some d' \<longrightarrow> users d' = users d)"

definition user_blob :: "bytes \<Rightarrow> bytes" where
  "user_blob h = put64 40 @ h"

lemma GetUser_absent:
  assumes "sqlite_users sq users" "plain_name n" "users (realtime_db st) n = None"
  shows "GetUser p0 sq n st = Ok \<lparr>user_u = INVALID_USER, user_p = p0\<rparr>"
  using assms by (simp add: GetUser_def QueryEntries_TEXT_def sqlite_users_def user_query_def)

lemma GetUser_stored:
  assumes "sqlite_users sq users" "plain_name n" "users (realtime_db st) n = Some (user_blob h)"
    and "length h = 32" "length n < 32"
  shows "GetUser p0 sq n st = Ok \<lparr>user_u = n, user_p = h\<rparr>"
proof -
  have "unat (get64 (put64 40)) = 40" using get64_put64 [of 40 "[]"] by simp
  moreover have "take 8 (user_blob h) = put64 40" by (simp add: user_blob_def)
  ultimately have "blob_rows 0 [[CBlob (user_blob h)]] = Ok [user_blob h]"
    using assms(4) by (simp add: memcpy_from_def read_at_def user_blob_def)
  moreover have "memcpy_from (user_blob h) 8 32 = Ok h"
    using assms(4) by (simp add: memcpy_from_def user_blob_def)
  ultimately show ?thesis
    using assms by (simp add: GetUser_def QueryEntries_TEXT_def QueryEntries_BLOB_def sqlite_users_def
        user_query_def read_at_def)
qed

lemma log_users:
  assumes "sqlite_users sq users"
  shows "users (realtime_db (LogEventSystem sq oper what st)) = users (realtime_db st)"
  using assms
  by (auto simp: LogEventSystem_def log_event_def InsertEntry_def sqlite_users_def
      event_insert_def numeral_3_eq_3 split: option.splits)


text \<open>
  Listing the users works for at most one user: with two or more rows the fetch loop asks the second
  row, which has one column, for column 1, which SQLite leaves undefined.
\<close>

theorem listing_two_users_faults:
  assumes "sq_select sq (realtime_db st) (select_text ''USERS'' ''USERNAME'' ''1==1'') = Some ([CText a] # [CText b] # rows)"
  shows "GetAllUsers sq st = Fault OutOfBounds"
  using assms by (simp add: GetAllUsers_def QueryEntries_TEXT_def read_at_def)

section \<open>The contract can hold\<close>

text \<open>A store in memory that answers exactly the statements of the source.\<close>

record mem_db =
  mem_vars :: "string \<Rightarrow> string option"
  mem_users :: "string \<Rightarrow> bytes option"

definition after_prefix :: "string \<Rightarrow> string \<Rightarrow> string option" where
  "after_prefix pre q = (if take (length pre) q = pre then Some (butlast (drop (length pre + 1) q)) else None)"

definition var_prefix :: string where
  "var_prefix = ''SELECT VALUE FROM VARIABLES WHERE NAME = ''"

definition user_prefix :: "string \<Rightarrow> string" where
  "user_prefix col = ''SELECT '' @ col @ '' FROM USERS WHERE USERNAME = ''"

definition mem_select :: "mem_db \<Rightarrow> string \<Rightarrow> cell list list option" where
  "mem_select d q =
     (case after_prefix var_prefix q of
        Some n \<Rightarrow> Some (case mem_vars d n of None \<Rightarrow> [] | Some v \<Rightarrow> [[CText v]])
      | None \<Rightarrow> (case after_prefix (user_prefix ''USERNAME'') q of
          Some n \<Rightarrow> Some (case mem_users d n of None \<Rightarrow> [] | Some b \<Rightarrow> [[CText n]])
        | None \<Rightarrow> (case after_prefix (user_prefix ''PASS_HASH'') q of
            Some n \<Rightarrow> Some (case mem_users d n of None \<Rightarrow> [] | Some b \<Rightarrow> [[CBlob b]])
          | None \<Rightarrow> None)))"

definition mem_run :: "mem_db \<Rightarrow> string \<Rightarrow> cell list \<Rightarrow> mem_db option" where
  "mem_run d q ps = Some
     (if q = var_insert then
        (case ps of [CText n, CText v, c] \<Rightarrow> d\<lparr>mem_vars := (mem_vars d)(n \<mapsto> v)\<rparr> | _ \<Rightarrow> d)
      else if q = user_insert then
        (case ps of [CText n, CBlob b, c] \<Rightarrow> d\<lparr>mem_users := (mem_users d)(n \<mapsto> b)\<rparr> | _ \<Rightarrow> d)
      else (case after_prefix ''DELETE FROM VARIABLES WHERE NAME = '' q of
              Some n \<Rightarrow> d\<lparr>mem_vars := (mem_vars d)(n := None)\<rparr>
            | None \<Rightarrow> (case after_prefix ''DELETE FROM USERS WHERE USERNAME = '' q of
                Some n \<Rightarrow> d\<lparr>mem_users := (mem_users d)(n := None)\<rparr>
              | None \<Rightarrow> d)))"

definition mem_sqlite :: "mem_db sqlite" where
  "mem_sqlite = \<lparr>sq_select = mem_select, sq_run = mem_run\<rparr>"

lemma after_prefix_eq: "after_prefix pre (pre @ quoted n) = Some n"
  by (simp add: after_prefix_def quoted_def)

lemma after_prefix_ne: "take (length pre) q \<noteq> pre \<Longrightarrow> after_prefix pre q = None"
  by (simp add: after_prefix_def)

lemma var_query_text: "var_query n = var_prefix @ quoted n"
  by (simp add: var_query_def select_text_def var_prefix_def)

lemma user_query_text: "user_query col n = user_prefix col @ quoted n"
  by (simp add: user_query_def select_text_def user_prefix_def)

lemma statements_differ:
  "var_insert \<noteq> user_insert" "event_insert \<noteq> var_insert" "event_insert \<noteq> user_insert"
  "var_delete n \<noteq> var_insert" "var_delete n \<noteq> user_insert"
  "user_delete n \<noteq> var_insert" "user_delete n \<noteq> user_insert"
  by (simp_all add: var_insert_def user_insert_def event_insert_def insert_text_def var_delete_def user_delete_def
      numeral_3_eq_3)

lemma mem_var_select: "mem_select d (var_query n) = Some (case mem_vars d n of None \<Rightarrow> [] | Some v \<Rightarrow> [[CText v]])"
  by (simp add: mem_select_def var_query_text after_prefix_eq)

lemma mem_name_select:
  "mem_select d (user_query ''USERNAME'' n) = Some (case mem_users d n of None \<Rightarrow> [] | Some b \<Rightarrow> [[CText n]])"
proof -
  have "after_prefix var_prefix (user_query ''USERNAME'' n) = None"
    by (rule after_prefix_ne) (simp add: var_prefix_def user_query_text user_prefix_def)
  then show ?thesis by (simp add: mem_select_def user_query_text after_prefix_eq)
qed

lemma mem_hash_select:
  "mem_select d (user_query ''PASS_HASH'' n) = Some (case mem_users d n of None \<Rightarrow> [] | Some b \<Rightarrow> [[CBlob b]])"
proof -
  have "after_prefix var_prefix (user_query ''PASS_HASH'' n) = None"
    "after_prefix (user_prefix ''USERNAME'') (user_query ''PASS_HASH'' n) = None"
    by (rule after_prefix_ne, simp add: var_prefix_def user_query_text user_prefix_def)+
  then show ?thesis by (simp add: mem_select_def user_query_text after_prefix_eq)
qed

lemma mem_deletes:
  "mem_run d (var_delete n) [] = Some (d\<lparr>mem_vars := (mem_vars d)(n := None)\<rparr>)"
  "mem_run d (user_delete n) [] = Some (d\<lparr>mem_users := (mem_users d)(n := None)\<rparr>)"
proof -
  have 1: "after_prefix ''DELETE FROM VARIABLES WHERE NAME = '' (var_delete n) = Some n"
    unfolding var_delete_def by (rule after_prefix_eq)
  then show "mem_run d (var_delete n) [] = Some (d\<lparr>mem_vars := (mem_vars d)(n := None)\<rparr>)"
    by (simp add: mem_run_def statements_differ)
  have 2: "after_prefix ''DELETE FROM USERS WHERE USERNAME = '' (user_delete n) = Some n"
    unfolding user_delete_def by (rule after_prefix_eq)
  have 3: "after_prefix ''DELETE FROM VARIABLES WHERE NAME = '' (user_delete n) = None"
    by (rule after_prefix_ne) (simp add: user_delete_def)
  show "mem_run d (user_delete n) [] = Some (d\<lparr>mem_users := (mem_users d)(n := None)\<rparr>)"
    using 2 3 by (simp add: mem_run_def statements_differ)
qed

lemma mem_event: "mem_run d event_insert ps = Some d"
proof -
  have "after_prefix ''DELETE FROM VARIABLES WHERE NAME = '' event_insert = None"
    "after_prefix ''DELETE FROM USERS WHERE USERNAME = '' event_insert = None"
    by (rule after_prefix_ne, simp add: event_insert_def insert_text_def)+
  then show ?thesis by (simp add: mem_run_def statements_differ)
qed

lemma mem_inserts:
  "mem_run d var_insert [CText n, CText v, c] = Some (d\<lparr>mem_vars := (mem_vars d)(n \<mapsto> v)\<rparr>)"
  "mem_run d user_insert [CText n, CBlob b, c] = Some (d\<lparr>mem_users := (mem_users d)(n \<mapsto> b)\<rparr>)"
  using statements_differ(1) by (simp_all add: mem_run_def)

lemma mem_sqlite_vars: "sqlite_vars mem_sqlite mem_vars"
  by (simp add: sqlite_vars_def mem_sqlite_def mem_var_select mem_inserts mem_deletes mem_event)

lemma mem_sqlite_users: "sqlite_users mem_sqlite mem_users"
  by (simp add: sqlite_users_def mem_sqlite_def mem_name_select mem_hash_select mem_inserts mem_deletes mem_event)

lemma mem_sqlite_succeeds: "sqlite_succeeds mem_sqlite"
  by (simp add: sqlite_succeeds_def mem_sqlite_def mem_run_def)

definition mem_empty :: "mem_db rdb" where
  "mem_empty = \<lparr>realtime_db = \<lparr>mem_vars = (\<lambda>_. None), mem_users = (\<lambda>_. None)\<rparr>, db_var_cache = (\<lambda>_. None), authenticated_username = []\<rparr>"

lemma plain_ex: "plain_name ''ang''" "plain_name ''ann''" "cstr ''ang'' = ''ang''"
  by code_simp+

theorem cached_reads_are_current_witness:
  "\<exists>st' st''. db_run mem_sqlite [DB_Read ''ang'', DB_Write USER ''ang'' ''12'' ''d''] mem_empty = Ok st'
     \<and> ReadValuef64 (\<lambda>s. s) ''zero'' mem_sqlite ''ang'' st' =
         Ok (case present (mem_vars (realtime_db st') ''ang'') of None \<Rightarrow> ''zero'' | Some v \<Rightarrow> v, st'')"
  using cached_reads_are_current [OF mem_sqlite_vars, of "[DB_Read ''ang'', DB_Write USER ''ang'' ''12'' ''d'']"
      mem_empty "''ang''" "\<lambda>s. s" "''zero''"] plain_ex
  by (simp add: mem_empty_def)



theorem listing_two_users_faults_witness:
  "GetAllUsers \<lparr>sq_select = (\<lambda>(d :: nat) q. Some [[CText ''ann''], [CText ''bob'']]), sq_run = (\<lambda>d q ps. Some d)\<rparr>
     \<lparr>realtime_db = 0, db_var_cache = (\<lambda>_. None), authenticated_username = []\<rparr> = Fault OutOfBounds"
  by (rule listing_two_users_faults [of _ _ "''ann''" "''bob''" "[]"]) simp

end
