(* ===== verification/Containers.thy ===== *)
theory Containers
  imports Prelude
begin

text \<open>
  The exported string and vector of \<^verbatim>\<open>DCS_ModuleUtils.h\<close> and \<^verbatim>\<open>String.cpp\<close>.
\<close>

section \<open>String\<close>

text \<open>
  \<open>str_buf\<close> is the allocated array, \<open>None\<close> the null pointer of a default string. The two
  constructors disagree on what \<open>buffer_size\<close> counts: the terminator is included for a C string and
  not for a pointer with a size.
\<close>

record DString =
  buffer_size :: nat
  str_buf :: "string option"

definition String_default :: DString where
  "String_default = \<lparr>buffer_size = 0, str_buf = None\<rparr>"

definition String_text :: "string \<Rightarrow> DString" where
  "String_text text = \<lparr>buffer_size = strlen text + 1, str_buf = Some (cstr text @ [NUL])\<rparr>"

definition String_ptr :: "string \<Rightarrow> nat \<Rightarrow> DString" where
  "String_ptr ptr n = \<lparr>buffer_size = n, str_buf = Some (take n ptr @ [NUL])\<rparr>"

text \<open>Copy constructor and assignment from another string; a default string has no array to measure.\<close>

definition String_copy :: "DString \<Rightarrow> DString outcome" where
  "String_copy s = (case str_buf s of None \<Rightarrow> Fault NullPointer | Some b \<Rightarrow> Ok (String_text b))"

definition String_size :: "DString \<Rightarrow> nat" where
  "String_size s = buffer_size s"

definition c_str :: "DString \<Rightarrow> string" where
  "c_str s = (case str_buf s of None \<Rightarrow> [] | Some b \<Rightarrow> cstr b)"

text \<open>\<^verbatim>\<open>tof64\<close>; a default string has no array for \<open>atof\<close> to read.\<close>

definition String_tof64 :: "(string \<Rightarrow> 'f) \<Rightarrow> DString \<Rightarrow> 'f outcome" where
  "String_tof64 atof s = (case str_buf s of None \<Rightarrow> Fault NullPointer | Some b \<Rightarrow> Ok (atof (cstr b)))"

text \<open>The arrays that the destructor gives back.\<close>

definition String_destroy :: "DString \<Rightarrow> string list" where
  "String_destroy s = (case str_buf s of None \<Rightarrow> [] | Some b \<Rightarrow> [b])"

definition String_From :: "int \<Rightarrow> DString" where
  "String_From n = String_text (to_string n)"

function split_loop :: "char \<Rightarrow> string \<Rightarrow> nat \<Rightarrow> nat \<Rightarrow> nat \<Rightarrow> DString list" where
  "split_loop sep buf n i off =
     (if i < n then
        if buf ! i = sep then String_ptr (drop off buf) (i - off) # split_loop sep buf n (i + 1) (i + 1)
        else split_loop sep buf n (i + 1) off
      else [String_ptr (drop off buf) (n - off)])"
  by pat_completeness auto

termination split_loop
  by (relation "measure (\<lambda>(_, _, n, i, _). n - i)") auto

declare split_loop.simps [simp del]

definition split :: "DString \<Rightarrow> char \<Rightarrow> DString list outcome" where
  "split s sep =
     (case str_buf s of
        None \<Rightarrow> if buffer_size s = 0 then Ok [String_ptr [] 0] else Fault NullPointer
      | Some b \<Rightarrow> Ok (split_loop sep b (buffer_size s) 0 0))"

text \<open>The reference: cut at every separator.\<close>

fun split_ref :: "char \<Rightarrow> string \<Rightarrow> string list" where
  "split_ref sep [] = [[]]"
| "split_ref sep (c # cs) =
     (if c = sep then [] # split_ref sep cs
      else (c # hd (split_ref sep cs)) # tl (split_ref sep cs))"

fun join :: "char \<Rightarrow> string list \<Rightarrow> string" where
  "join sep [] = []"
| "join sep [x] = x"
| "join sep (x # y # ys) = x @ sep # join sep (y # ys)"

lemma split_ref_nonempty [simp]: "split_ref sep t \<noteq> []"
  by (cases t) auto

lemma join_split_ref: "join sep (split_ref sep t) = t"
proof (induction t)
  case Nil
  then show ?case by simp
next
  case (Cons c t)
  then show ?case by (cases "split_ref sep t"; cases "tl (split_ref sep t)") auto
qed

lemma split_ref_no_sep: "p \<in> set (split_ref sep t) \<Longrightarrow> sep \<notin> set p"
proof (induction t arbitrary: p)
  case Nil
  then show ?case by simp
next
  case (Cons c t)
  then show ?case by (cases "split_ref sep t") (auto split: if_splits)
qed

lemma c_str_ptr: "NUL \<notin> set (take n p) \<Longrightarrow> c_str (String_ptr p n) = take n p"
  by (simp add: c_str_def String_ptr_def cstr_no_nul [of _ "[]"])

lemma take_Suc_diff: "off \<le> i \<Longrightarrow> i < length t \<Longrightarrow> take (Suc i - off) (drop off t) = take (i - off) (drop off t) @ [t ! i]"
  by (simp add: Suc_diff_le take_Suc_conv_app_nth)

lemma split_loop_ref:
  assumes "NUL \<notin> set t" "sep \<noteq> NUL" "off \<le> i" "i \<le> length t"
  shows "map c_str (split_loop sep (t @ [NUL]) (length t + 1) i off) =
    (take (i - off) (drop off t) @ hd (split_ref sep (drop i t))) # tl (split_ref sep (drop i t))"
  using assms(3,4)
proof (induction "length t - i" arbitrary: i off)
  case 0
  then have i: "i = length t" by simp
  have nul: "cstr (take (length t + 1 - off) (drop off (t @ [NUL])) @ [NUL]) = drop off t"
  proof -
    have "NUL \<notin> set (drop off t)" using assms(1) by (meson in_set_dropD)
    then show ?thesis using 0 i cstr_no_nul [of "drop off t" "[NUL]"] by simp
  qed
  show ?case
    using i 0 assms(2) nul
    by (subst split_loop.simps, subst split_loop.simps) (simp add: nth_append c_str_def String_ptr_def)
next
  case (Suc k)
  then have i: "i < length t" by simp
  then have d: "drop i t = t ! i # drop (Suc i) t" by (simp add: Cons_nth_drop_Suc)
  show ?case
  proof (cases "t ! i = sep")
    case True
    have "NUL \<notin> set (take (i - off) (drop off t))" using assms(1) by (meson in_set_dropD in_set_takeD)
    then have "c_str (String_ptr (drop off (t @ [NUL])) (i - off)) = take (i - off) (drop off t)"
      using i Suc.prems c_str_ptr [of "i - off" "drop off (t @ [NUL])"] by simp
    moreover have "map c_str (split_loop sep (t @ [NUL]) (length t + 1) (i + 1) (i + 1)) = split_ref sep (drop (Suc i) t)"
      using Suc.hyps(1) [of "i + 1" "i + 1"] Suc.hyps(2) i by simp
    ultimately show ?thesis
      using True i by (subst split_loop.simps) (simp add: nth_append d)
  next
    case False
    have "map c_str (split_loop sep (t @ [NUL]) (length t + 1) (i + 1) off) =
        (take (Suc i - off) (drop off t) @ hd (split_ref sep (drop (Suc i) t))) # tl (split_ref sep (drop (Suc i) t))"
      using Suc.hyps(1) [of "i + 1" off] Suc.hyps(2) Suc.prems i by simp
    then show ?thesis
      using False i Suc.prems take_Suc_diff [of off i t]
      by (subst split_loop.simps) (simp add: nth_append d)
  qed
qed

text \<open>
  Splitting a string gives the parts between the separators: joined again with the separator
  they are the text, no part contains it, and there is one part more than there are separators.
\<close>

theorem split_correct:
  assumes "sep \<noteq> NUL"
  shows "\<exists>parts. split (String_text t) sep = Ok parts \<and> join sep (map c_str parts) = cstr t
    \<and> (\<forall>p \<in> set parts. sep \<notin> set (c_str p))"
proof -
  let ?t = "cstr t"
  let ?parts = "split_loop sep (?t @ [NUL]) (length ?t + 1) 0 0"
  have r: "map c_str ?parts = split_ref sep ?t"
    using split_loop_ref [of ?t sep 0 0] assms by simp
  have "split (String_text t) sep = Ok ?parts" by (simp add: split_def String_text_def strlen_def)
  moreover have "join sep (map c_str ?parts) = ?t" unfolding r by (rule join_split_ref)
  moreover have "\<forall>p \<in> set ?parts. sep \<notin> set (c_str p)"
    using split_ref_no_sep r by (metis image_eqI set_map)
  ultimately show ?thesis by blast
qed

theorem split_correct_witness:
  "\<exists>parts. split (String_text ''GET 12 x'') (CHR '' '') = Ok parts \<and> join (CHR '' '') (map c_str parts) = ''GET 12 x''"
proof -
  have "cstr ''GET 12 x'' = ''GET 12 x''" by (rule cstr_id) simp
  then show ?thesis using split_correct [of "CHR '' ''" "''GET 12 x''"] by auto
qed

lemma String_size_text: "String_size (String_text t) = strlen t + 1"
  by (simp add: String_size_def String_text_def)

lemma c_str_text [simp]: "c_str (String_text t) = cstr t"
  by (simp add: c_str_def String_text_def)

lemma String_copy_text: "String_copy (String_text t) = Ok (String_text t)"
  by (simp add: String_copy_def String_text_def strlen_def cstr_id)

section \<open>Vector\<close>

text \<open>
  \<open>vdata\<close> is the allocated array, of which the first \<open>end_offset\<close> places are constructed;
  \<open>None\<close> marks raw memory.
\<close>

record 'a Vector =
  vdata :: "'a option list option"
  max_size :: nat
  end_offset :: nat

definition Vector_new :: "'a Vector" where
  "Vector_new = \<lparr>vdata = None, max_size = 0, end_offset = 0\<rparr>"

definition reallocate :: "nat \<Rightarrow> 'a Vector \<Rightarrow> 'a Vector" where
  "reallocate sz v =
     (let grow = (\<lambda>d n. v\<lparr>vdata := Some (take n d @ replicate (n - length d) None), max_size := n\<rparr>) in
      case vdata v of
        None \<Rightarrow> grow [] 1
      | Some d \<Rightarrow> if sz = 0 then grow d (max_size v * 2)
                  else if max_size v < sz then grow d sz
                  else v)"

definition reserve :: "nat \<Rightarrow> 'a Vector \<Rightarrow> 'a Vector" where
  "reserve n v = reallocate n v"

definition emplace_back :: "'a \<Rightarrow> 'a Vector \<Rightarrow> 'a Vector outcome" where
  "emplace_back x v =
     (let v = (if max_size v \<le> end_offset v then reallocate 0 v else v) in
      case vdata v of
        None \<Rightarrow> Fault NullPointer
      | Some d \<Rightarrow> obind (memcpy_to d (end_offset v) [Some x]) (\<lambda>d'.
          Ok (v\<lparr>vdata := Some d', end_offset := end_offset v + 1\<rparr>)))"

definition vec_at :: "'a Vector \<Rightarrow> nat \<Rightarrow> 'a outcome" where
  "vec_at v i =
     (case vdata v of None \<Rightarrow> Fault NullPointer
      | Some d \<Rightarrow> obind (read_at d i) (\<lambda>c. case c of None \<Rightarrow> Fault Uninitialised | Some x \<Rightarrow> Ok x))"

definition vec_size :: "'a Vector \<Rightarrow> nat" where
  "vec_size v = end_offset v"

text \<open>The move constructor: the new vector, default-initialised, and what is left of the source.\<close>

definition Vector_move :: "'a Vector \<Rightarrow> 'a Vector \<times> 'a Vector" where
  "Vector_move src =
     (let v = Vector_new in (v, src\<lparr>vdata := vdata v, max_size := max_size v, end_offset := end_offset v\<rparr>))"

text \<open>
  The copy constructor allocates the capacity of the source and copies the constructed elements byte by byte;
  the rest stays raw. \<^verbatim>\<open>destroy\<close>, which the destructor runs, gives the array back and keeps the counters.
\<close>

definition Vector_copy :: "'a Vector \<Rightarrow> 'a Vector outcome" where
  "Vector_copy src =
     (case vdata src of
        None \<Rightarrow> if end_offset src = 0 then Ok \<lparr>vdata = Some (replicate (max_size src) None), max_size = max_size src, end_offset = 0\<rparr>
                else Fault NullPointer
      | Some d \<Rightarrow> obind (memcpy_from d 0 (end_offset src)) (\<lambda>xs.
          obind (memcpy_to (replicate (max_size src) None) 0 xs) (\<lambda>d'.
            Ok \<lparr>vdata = Some d', max_size = max_size src, end_offset = end_offset src\<rparr>)))"

definition vec_destroy :: "'a Vector \<Rightarrow> 'a Vector" where
  "vec_destroy v = v\<lparr>vdata := None\<rparr>"

definition vec_capacity :: "'a Vector \<Rightarrow> nat" where
  "vec_capacity v = max_size v"

text \<open>\<^verbatim>\<open>begin\<close> and \<^verbatim>\<open>end\<close> as positions in the array, and the range-based loop over them.\<close>

definition vec_begin :: "'a Vector \<Rightarrow> nat" where
  "vec_begin v = 0"

definition vec_end :: "'a Vector \<Rightarrow> nat" where
  "vec_end v = end_offset v"

fun read_all :: "'a Vector \<Rightarrow> nat list \<Rightarrow> 'a list outcome" where
  "read_all v [] = Ok []"
| "read_all v (i # is) = obind (vec_at v i) (\<lambda>x. obind (read_all v is) (\<lambda>xs. Ok (x # xs)))"

definition vec_iterate :: "'a Vector \<Rightarrow> 'a list outcome" where
  "vec_iterate v = read_all v [vec_begin v..<vec_end v]"

definition vec_inv :: "'a Vector \<Rightarrow> bool" where
  "vec_inv v \<longleftrightarrow> (case vdata v of
       None \<Rightarrow> max_size v = 0 \<and> end_offset v = 0
     | Some d \<Rightarrow> length d = max_size v \<and> end_offset v \<le> max_size v \<and> 0 < max_size v
         \<and> (\<forall>i < end_offset v. d ! i \<noteq> None))"

definition vec_list :: "'a Vector \<Rightarrow> 'a list" where
  "vec_list v = (case vdata v of None \<Rightarrow> [] | Some d \<Rightarrow> map the (take (end_offset v) d))"

lemma vec_inv_new [simp]: "vec_inv Vector_new" "vec_list Vector_new = []"
  by (simp_all add: vec_inv_def vec_list_def Vector_new_def)

lemma reallocate_inv:
  assumes "vec_inv v"
  shows "vec_inv (reallocate sz v) \<and> vec_list (reallocate sz v) = vec_list v \<and> end_offset (reallocate sz v) = end_offset v
    \<and> (sz = 0 \<longrightarrow> end_offset v < max_size (reallocate sz v))"
proof (cases "vdata v")
  case None
  then show ?thesis using assms by (simp add: reallocate_def vec_inv_def vec_list_def Let_def)
next
  case (Some d)
  then have d: "length d = max_size v" "end_offset v \<le> max_size v" "0 < max_size v" "\<forall>i < end_offset v. d ! i \<noteq> None"
    using assms by (simp_all add: vec_inv_def)
  have nth: "\<forall>i < end_offset v. (d @ replicate k None) ! i \<noteq> None" for k using d by (simp add: nth_append)
  have tk: "take (max_size v * 2) d = d" "max_size v < sz \<Longrightarrow> take sz d = d" using d by simp_all
  show ?thesis
    using Some d nth tk by (simp add: reallocate_def vec_inv_def vec_list_def Let_def)
qed

lemma emplace_back_ok:
  assumes "vec_inv v"
  shows "\<exists>v'. emplace_back x v = Ok v' \<and> vec_inv v' \<and> vec_list v' = vec_list v @ [x]"
proof -
  define u where "u = (if max_size v \<le> end_offset v then reallocate 0 v else v)"
  have u: "vec_inv u" "vec_list u = vec_list v" "end_offset u < max_size u"
    using reallocate_inv [OF assms, of 0] assms by (auto simp: u_def)
  then obtain d where d: "vdata u = Some d" by (cases "vdata u") (auto simp: vec_inv_def)
  then have l: "length d = max_size u" "\<forall>i < end_offset u. d ! i \<noteq> None" using u(1) by (simp_all add: vec_inv_def)
  let ?d = "blit d (end_offset u) [Some x]"
  have len: "length ?d = max_size u" using l u(3) by simp
  have tk: "take (Suc (end_offset u)) ?d = take (end_offset u) d @ [Some x]"
    using take_blit_end [of "end_offset u" d "[Some x]"] l u(3) by simp
  have "?d ! i \<noteq> None" if "i < Suc (end_offset u)" for i
  proof -
    have "?d ! i = take (Suc (end_offset u)) ?d ! i" using that by simp
    then show ?thesis unfolding tk using that l u(3) by (auto simp: nth_append less_Suc_eq)
  qed
  note init = this
  have "emplace_back x v = (case vdata u of None \<Rightarrow> Fault NullPointer
      | Some d \<Rightarrow> obind (memcpy_to d (end_offset u) [Some x]) (\<lambda>d'. Ok (u\<lparr>vdata := Some d', end_offset := end_offset u + 1\<rparr>)))"
    unfolding emplace_back_def u_def Let_def by (rule refl)
  then have "emplace_back x v = Ok (u\<lparr>vdata := Some ?d, end_offset := end_offset u + 1\<rparr>)"
    using d l u(3) by (simp add: memcpy_to_def)
  moreover have "vec_inv (u\<lparr>vdata := Some ?d, end_offset := end_offset u + 1\<rparr>)"
    using init len u(3) by (simp add: vec_inv_def)
  moreover have "vec_list (u\<lparr>vdata := Some ?d, end_offset := end_offset u + 1\<rparr>) = vec_list v @ [x]"
    using tk d u(2) by (simp add: vec_list_def)
  ultimately show ?thesis by blast
qed

text \<open>Elements come back in the order they were put in.\<close>

fun emplace_all :: "'a list \<Rightarrow> 'a Vector \<Rightarrow> 'a Vector outcome" where
  "emplace_all [] v = Ok v"
| "emplace_all (x # xs) v = obind (emplace_back x v) (emplace_all xs)"

lemma emplace_all_ok:
  "vec_inv v \<Longrightarrow> \<exists>v'. emplace_all xs v = Ok v' \<and> vec_inv v' \<and> vec_list v' = vec_list v @ xs"
proof (induction xs arbitrary: v)
  case Nil
  then show ?case by simp
next
  case (Cons x xs)
  obtain v1 where v1: "emplace_back x v = Ok v1" "vec_inv v1" "vec_list v1 = vec_list v @ [x]"
    using emplace_back_ok [OF Cons.prems] by blast
  obtain v2 where "emplace_all xs v1 = Ok v2" "vec_inv v2" "vec_list v2 = vec_list v1 @ xs"
    using Cons.IH [OF v1(2)] by blast
  with v1 show ?case by simp
qed

lemma read_all_ok:
  assumes "vec_inv v" "\<forall>i\<in>set is. i < end_offset v"
  shows "read_all v is = Ok (map (\<lambda>i. vec_list v ! i) is)"
  using assms(2)
proof (induction "is")
  case (Cons i "is")
  then obtain d where d: "vdata v = Some d" "length d = max_size v" "end_offset v \<le> max_size v" "d ! i \<noteq> None"
    using assms(1) by (cases "vdata v") (auto simp: vec_inv_def)
  then have "vec_at v i = Ok (vec_list v ! i)" using Cons.prems by (auto simp: vec_at_def vec_list_def read_at_def)
  then show ?case using Cons by simp
qed simp

lemma vec_iterate_ok: "vec_inv v \<Longrightarrow> vec_iterate v = Ok (vec_list v)"
proof -
  assume inv: "vec_inv v"
  then have "length (vec_list v) = end_offset v"
    by (cases "vdata v") (auto simp: vec_inv_def vec_list_def)
  then show ?thesis using read_all_ok [OF inv, of "[0..<end_offset v]"] map_nth [of "vec_list v"]
    by (simp add: vec_iterate_def vec_begin_def vec_end_def)
qed

text \<open>Reserving on an empty vector allocates one place whatever was asked for; moving a vector loses its elements.\<close>

lemma Vector_copy_ok:
  assumes "vec_inv v"
  shows "\<exists>c. Vector_copy v = Ok c \<and> vec_list c = vec_list v \<and> vec_capacity c = vec_capacity v \<and> vec_size c = vec_size v"
proof (cases "vdata v")
  case None
  then show ?thesis
    using assms by (simp add: Vector_copy_def vec_inv_def vec_list_def vec_capacity_def vec_size_def)
next
  case (Some d)
  then show ?thesis
    using assms by (auto simp: Vector_copy_def vec_inv_def vec_list_def vec_capacity_def vec_size_def
        memcpy_from_def memcpy_to_def blit_def)
qed

lemma reserve_empty: "max_size (reserve n Vector_new) = 1"
  by (simp add: reserve_def reallocate_def Vector_new_def Let_def)

lemma move_loses: "vec_list (fst (Vector_move v)) = [] \<and> vec_list (snd (Vector_move v)) = []"
  by (simp add: Vector_move_def Vector_new_def vec_list_def Let_def)

end
