(* ===== verification/Handshake.thy ===== *)
theory Handshake
  imports Message Crypto Database Containers
begin

text \<open>
  The login of a client: \<^verbatim>\<open>Authenticate\<close> of \<^verbatim>\<open>server.cpp\<close> and of
  \<^verbatim>\<open>client.cpp\<close>, the loops that collect a fixed number of bytes from the socket, and the two raw
  messages the server may send before the message threads run.
\<close>

section \<open>Collecting bytes\<close>

text \<open>
  What the calls of \<^verbatim>\<open>ReceiveData\<close> return one after the other: some bytes, 0 for a connection the
  peer has closed, -1 for an error. The loops add every result to their byte count.
\<close>

datatype rx = Got bytes | Closed | Failed

fun recv_loop :: "nat \<Rightarrow> bytes \<Rightarrow> int \<Rightarrow> rx list \<Rightarrow> (bytes \<times> rx list) outcome" where
  "recv_loop n buf sz [] = (if int n \<le> sz then Ok (buf, []) else Blocked)"
| "recv_loop n buf sz (r # rs) =
     (if int n \<le> sz then Ok (buf, r # rs)
      else case r of
        Got d \<Rightarrow> if sz < 0 then Fault OutOfBounds
                 else obind (memcpy_to buf (nat sz) d) (\<lambda>b. recv_loop n b (sz + int (length d)) rs)
      | Closed \<Rightarrow> recv_loop n buf sz rs
      | Failed \<Rightarrow> recv_loop n buf (sz - 1) rs)"

lemma recv_loop_chunks:
  assumes "length buf = n" "k + length (concat ds) = n" "[] \<notin> set ds"
  shows "recv_loop n buf (int k) (map Got ds @ rs) = Ok (take k buf @ concat ds, rs)"
  using assms
proof (induction ds arbitrary: buf k)
  case Nil
  then show ?case by (cases rs) auto
next
  case (Cons d ds)
  show ?case
  proof (cases "k = n")
    case True
    then show ?thesis using Cons.prems by simp
  next
    case False
    then have lt: "k < n" using Cons.prems by simp
    let ?b = "blit buf k d"
    have len: "length ?b = n" using Cons.prems by simp
    have "recv_loop n ?b (int (k + length d)) (map Got ds @ rs) = Ok (take (k + length d) ?b @ concat ds, rs)"
      using Cons.prems len by (intro Cons.IH) simp_all
    moreover have "take (k + length d) ?b = take k buf @ d" using Cons.prems by (intro take_blit_end) simp
    ultimately show ?thesis using lt Cons.prems by (simp add: memcpy_to_def add.commute)
  qed
qed

text \<open>
  A peer that closes its connection before the handshake is complete leaves the thread that
  serves it in the loop: however many more times it asks for data and gets 0 bytes, the count does
  not move and the loop does not end.
\<close>

theorem handshake_spins_after_disconnect:
  assumes "length (concat ds) < n" and "length buf = n"
  shows "recv_loop n buf 0 (map Got ds @ replicate k Closed) = Blocked"
proof -
  have "recv_loop n b (int j) (map Got ds @ replicate k Closed) = Blocked"
    if "j + length (concat ds) < n" "length b = n" for b j
    using that
  proof (induction ds arbitrary: b j)
    case Nil
    then show ?case by (induction k) simp_all
  next
    case (Cons d ds)
    have "recv_loop n (blit b j d) (int (j + length d)) (map Got ds @ replicate k Closed) = Blocked"
      using Cons.prems by (intro Cons.IH) simp_all
    then show ?case using Cons.prems by (simp add: memcpy_to_def add.commute)
  qed
  from this [of 0 buf] assms show ?thesis by simp
qed

theorem handshake_spins_after_disconnect_witness:
  "recv_loop 32 (replicate 32 0) 0 (map Got [[1, 2]] @ replicate 1000 Closed) = Blocked"
  by (rule handshake_spins_after_disconnect) simp_all

section \<open>Raw messages of the server\<close>

text \<open>What the four \<^verbatim>\<open>SendData\<close> calls write.\<close>

definition SendErrorToClient :: "string \<Rightarrow> bytes" where
  "SendErrorToClient error_msg =
     (let str_size = strlen error_msg + 1 in
      put32 (word_of_nat str_size + of_nat MESSAGE_XTRA_SPACE) @ [iop_code OP_ERROR] @ put64 0
        @ map char_byte (cstr error_msg) @ [0])"

definition IssueValidity :: "u8 \<Rightarrow> bytes" where
  "IssueValidity validity =
     put32 (1 + of_nat MESSAGE_XTRA_SPACE) @ [iop_code CON_VALID] @ put64 0 @ [validity]"

lemma IssueValidity_frame: "IssueValidity v = frame (body (request (iop_code CON_VALID) 0 [v]))"
  by (simp add: IssueValidity_def frame_def body_def header_def payload_def request_def)

lemma SendErrorToClient_frame:
  "SendErrorToClient e = frame (body (request (iop_code OP_ERROR) 0 (map char_byte (cstr e) @ [0])))"
  by (simp add: SendErrorToClient_def frame_def body_def header_def payload_def request_def strlen_def Let_def
      add.commute)

section \<open>The server's side\<close>

text \<open>
  The result of \<^verbatim>\<open>Authenticate\<close>: whether it accepted, the bytes it sent, the socket results it
  left and the database state. \<open>r\<close> and \<open>iv\<close> are the random bytes.
\<close>

definition Server_Authenticate ::
  "'c evp \<Rightarrow> 'd sqlite \<Rightarrow> bytes \<Rightarrow> bytes \<Rightarrow> bytes \<Rightarrow> rx list \<Rightarrow> 'd rdb \<Rightarrow> (bool \<times> bytes \<times> rx list \<times> 'd rdb) outcome" where
  "Server_Authenticate ev sq p0 r iv rs st =
     (let challenge = r @ iv;
          refuse = SendErrorToClient ''Incorrect username or password.'' @ IssueValidity 2
      in obind (recv_loop 32 (replicate 32 0) 0 rs) (\<lambda>(ubuf, rs).
         if 0 \<notin> set ubuf then Fault OutOfBounds
         else obind (GetUser p0 sq (cstr (map byte_char ubuf)) st) (\<lambda>user.
           if user_u user = INVALID_USER then Ok (False, challenge @ refuse, rs, st)
           else obind (recv_loop 48 (replicate 48 0) 0 rs) (\<lambda>(abuf, rs).
             obind (EncryptAES256 ev r None (user_p user) iv
                      \<lparr>io_out = replicate 32 0, io_tag = replicate 16 0, live_ctx = 0\<rparr>) (\<lambda>io.
               if take 32 (io_out io) \<noteq> take 32 abuf then Ok (False, challenge @ refuse, rs, st)
               else Ok (True, challenge, rs,
                 LogEventSystem sq NETWORK (''User '' @ user_u user @ '' : Connected.'')
                   (SetAuthenticatedUser (Some user) st)))))))"

section \<open>The client's side\<close>

text \<open>
  What \<^verbatim>\<open>Client::Authenticate\<close> sends after it received the challenge; the junk arguments are its
  uninitialised buffers. The size of a string made from a C string counts the terminator.
\<close>

definition Client_Authenticate ::
  "'c evp \<Rightarrow> (string \<Rightarrow> bytes) \<Rightarrow> bytes \<Rightarrow> bytes \<Rightarrow> bytes \<Rightarrow> DString \<Rightarrow> DString \<Rightarrow> rx list \<Rightarrow> (bytes \<times> rx list) outcome" where
  "Client_Authenticate ev sha256 garbage ujunk rjunk username password rs =
     obind (recv_loop 32 (replicate 32 0) 0 rs) (\<lambda>(r, rs).
     obind (recv_loop 16 (replicate 16 0) 0 rs) (\<lambda>(iv, rs).
       if 32 \<le> String_size username then Ok (garbage, rs)
       else obind (memcpy_to ujunk 0 (map char_byte (c_str username @ [NUL]))) (\<lambda>user.
         let hash = (case SHA256Str sha256 (Some (c_str password)) (Some (replicate 32 0)) of Some h \<Rightarrow> h | None \<Rightarrow> []) in
         obind (EncryptAES256 ev r None hash iv
                  \<lparr>io_out = take 32 rjunk, io_tag = take 16 (drop 48 rjunk), live_ctx = 0\<rparr>) (\<lambda>io.
           Ok (user @ io_out io @ io_tag io, rs)))))"

text \<open>
  What the code relies on of AES-256-GCM: every call succeeds, the cipher text is as long as the plain
  text and the tag has 16 bytes.
\<close>

definition gcm_ok :: "'c evp \<Rightarrow> bool" where
  "gcm_ok ev \<longleftrightarrow> evp_succeeds ev
     \<and> (\<forall>plain key iv. length (fst (aes_gcm ev plain key iv)) = length plain
          \<and> length (snd (aes_gcm ev plain key iv)) = 16)"

lemma gcm_encrypt:
  assumes "gcm_ok ev" "length (io_out s) = length plain" "length (io_tag s) = 16"
  shows "EncryptAES256 ev plain None key iv s =
    Ok (s\<lparr>io_out := fst (aes_gcm ev plain key iv), io_tag := snd (aes_gcm ev plain key iv)\<rparr>)"
  using assms by (intro EncryptAES256_ok) (simp_all add: gcm_ok_def)

text \<open>
  C30. The server's verdict. For a user stored with the hash \<open>h\<close>, whatever way the 80 bytes of the
  client's answer arrive, the server accepts exactly when the first 32 bytes after the name are the
  challenge encrypted under \<open>h\<close>; on acceptance the user is authenticated, otherwise the client is
  sent an error and the mark of an invalid connection and no user becomes authenticated.
\<close>

theorem server_verdict:
  assumes "sqlite_users sq users" and "gcm_ok ev" and "plain_name name" and "length name < 32" and "name \<noteq> INVALID_USER"
    and "users (realtime_db st) name = Some (user_blob h)" and "length h = 32" and "length r = 32"
    and "concat us = map char_byte (name @ [NUL]) @ pad" and "length (concat us) = 32"
    and "concat as = answer" and "length answer = 48" and "[] \<notin> set us" and "[] \<notin> set as"
  shows "Server_Authenticate ev sq p0 r iv (map Got us @ map Got as @ rs) st =
    (if take 32 answer = fst (aes_gcm ev r h iv)
     then Ok (True, r @ iv, rs, LogEventSystem sq NETWORK (''User '' @ name @ '' : Connected.'')
            (SetAuthenticatedUser (Some \<lparr>user_u = name, user_p = h\<rparr>) st))
     else Ok (False, (r @ iv) @ SendErrorToClient ''Incorrect username or password.'' @ IssueValidity 2, rs, st))"
proof -
  have nul: "NUL \<notin> set name" using assms(3) by (simp add: plain_name_def)
  have u: "recv_loop 32 (replicate 32 0) 0 (map Got us @ map Got as @ rs) = Ok (concat us, map Got as @ rs)"
    using recv_loop_chunks [of "replicate 32 0" 32 0 us] assms(10,13) by simp
  have a: "recv_loop 48 (replicate 48 0) 0 (map Got as @ rs) = Ok (answer, rs)"
    using recv_loop_chunks [of "replicate 48 0" 48 0 as] assms(11,12,14) by simp
  have z: "0 \<in> set (concat us)" using assms(9) by simp
  have n: "cstr (map byte_char (concat us)) = name"
    unfolding assms(9) using nul by (simp del: map_map)
  have g: "GetUser p0 sq name st = Ok \<lparr>user_u = name, user_p = h\<rparr>"
    using GetUser_stored [OF assms(1,3,6,7,4)] .
  have e: "EncryptAES256 ev r None h iv \<lparr>io_out = replicate 32 0, io_tag = replicate 16 0, live_ctx = 0\<rparr> =
      Ok \<lparr>io_out = fst (aes_gcm ev r h iv), io_tag = snd (aes_gcm ev r h iv), live_ctx = 0\<rparr>"
    using gcm_encrypt [OF assms(2)] assms(8) by simp
  have l: "take 32 (fst (aes_gcm ev r h iv)) = fst (aes_gcm ev r h iv)"
    using assms(2,8) by (simp add: gcm_ok_def)
  show ?thesis
    using z assms(5) by (simp add: Server_Authenticate_def u a n g e l Let_def eq_commute)
qed

definition client_answer :: "'c evp \<Rightarrow> (string \<Rightarrow> bytes) \<Rightarrow> bytes \<Rightarrow> string \<Rightarrow> string \<Rightarrow> bytes \<Rightarrow> bytes \<Rightarrow> bytes" where
  "client_answer ev sha256 ujunk name password r iv =
     (map char_byte (name @ [NUL]) @ drop (length name + 1) ujunk)
       @ fst (aes_gcm ev r (sha256 password) iv) @ snd (aes_gcm ev r (sha256 password) iv)"

lemma client_sends:
  assumes "gcm_ok ev" "length name < 31" "length (sha256 password) = 32" "password \<noteq> []" "NUL \<notin> set password"
    and "length r = 32" "length iv = 16" "length ujunk = 32" "length rjunk = 64"
    and "concat cs = r" "concat ds = iv" "[] \<notin> set cs" "[] \<notin> set ds" "NUL \<notin> set name"
  shows "Client_Authenticate ev sha256 garbage ujunk rjunk (String_text name) (String_text password) (map Got cs @ map Got ds) =
    Ok (client_answer ev sha256 ujunk name password r iv, [])"
proof -
  let ?h = "sha256 password"
  have c: "recv_loop 32 (replicate 32 0) 0 (map Got cs @ map Got ds) = Ok (r, map Got ds)"
    using recv_loop_chunks [of "replicate 32 0" 32 0 cs] assms(6,10,12) by simp
  have d: "recv_loop 16 (replicate 16 0) 0 (map Got ds) = Ok (iv, [])"
    using recv_loop_chunks [of "replicate 16 0" 16 0 ds "[]"] assms(7,11,13) by simp
  have p: "cstr password = password" "strlen password \<noteq> 0" "cstr name = name" "String_size (String_text name) < 32"
    using assms(2,4,5,14) by (simp_all add: cstr_id strlen_def String_size_text)
  then have hash: "SHA256Str sha256 (Some password) (Some (replicate 32 0)) = Some ?h"
    using assms(3) by (simp add: SHA256Str_def blit_def)
  have u: "memcpy_to ujunk 0 (map char_byte (name @ [NUL]))
      = Ok (map char_byte (name @ [NUL]) @ drop (length name + 1) ujunk)"
    using assms(2,8) by (simp add: memcpy_to_def blit_def)
  have e: "EncryptAES256 ev r None ?h iv \<lparr>io_out = take 32 rjunk, io_tag = take 16 (drop 48 rjunk), live_ctx = 0\<rparr> =
      Ok \<lparr>io_out = fst (aes_gcm ev r ?h iv), io_tag = snd (aes_gcm ev r ?h iv), live_ctx = 0\<rparr>"
    using gcm_encrypt [OF assms(1)] assms(6,9) by simp
  show ?thesis
    using p by (simp add: Client_Authenticate_def client_answer_def c d u hash e Let_def del: map_append)
qed


text \<open>
  A name of 31 characters can be added to the database but never logs in: the client's guard counts the
  terminator and answers with garbage.
\<close>

lemma longest_name_locked_out:
  assumes "strlen name = 31"
    and "recv_loop 32 (replicate 32 0) 0 rs = Ok (r, rs1)" "recv_loop 16 (replicate 16 0) 0 rs1 = Ok (iv, rs2)"
  shows "Client_Authenticate ev sha256 garbage ujunk rjunk (String_text name) password rs = Ok (garbage, rs2)"
  using assms by (simp add: Client_Authenticate_def String_size_text)

section \<open>A login that can happen\<close>

text \<open>A toy cipher whose context is the key, and a database with one user.\<close>

definition evp_ex :: "bytes evp" where
  "evp_ex = \<lparr>CTX_new = Some [], EncryptInit = Some, DecryptInit = Some, set_ivlen = (\<lambda>_. Some),
     set_key_iv = (\<lambda>k iv c. Some k), put_aad = (\<lambda>_. Some), EncryptUpdate = (\<lambda>d c. Some (map (\<lambda>x. x + hd c) d, c)),
     EncryptFinal = (\<lambda>c. Some ([], c)), get_tag = (\<lambda>_. Some (replicate 16 0)),
     DecryptUpdate = (\<lambda>d c. Some (map (\<lambda>x. x - hd c) d, c)), set_tag = (\<lambda>_. Some), DecryptFinal = (\<lambda>c. Some ([], c))\<rparr>"

definition rdb_ex :: "mem_db rdb" where
  "rdb_ex = mem_empty\<lparr>realtime_db := \<lparr>mem_vars = (\<lambda>_. None), mem_users = [''ann'' \<mapsto> user_blob (replicate 32 7)]\<rparr>\<rparr>"

lemma gcm_ok_ex: "gcm_ok evp_ex"
  by (simp add: gcm_ok_def evp_succeeds_def aes_gcm_def evp_ex_def)

lemma aes_ex: "aes_gcm evp_ex (replicate 32 5) (replicate 32 7) iv = (replicate 32 12, replicate 16 0)"
proof -
  have "hd (replicate 32 7) = (7 :: u8)" by (simp add: hd_replicate)
  then show ?thesis by (simp add: aes_gcm_def evp_ex_def)
qed

lemma user_ex: "mem_users (realtime_db rdb_ex) ''ann'' = Some (user_blob (replicate 32 7))" "''ann'' \<noteq> INVALID_USER"
  by (simp_all add: rdb_ex_def INVALID_USER_def)

theorem server_verdict_witness:
  "\<exists>st'. Server_Authenticate evp_ex mem_sqlite [] (replicate 32 5) (replicate 16 6)
     (map Got [map char_byte ''ann'', 0 # replicate 28 9] @ map Got [replicate 48 12] @ []) rdb_ex
     = Ok (True, replicate 32 5 @ replicate 16 6, [], st')"
  using server_verdict [OF mem_sqlite_users gcm_ok_ex plain_ex(2) _ user_ex(2) user_ex(1),
      of "replicate 32 5" "[map char_byte ''ann'', 0 # replicate 28 9]" "replicate 28 9"
        "[replicate 48 12]" "replicate 48 12" "[]" "replicate 16 6" "[]"]
  by (simp add: aes_ex)


end
