(* ===== verification/Registry.thy ===== *)
theory Registry
  imports Prelude
begin

text \<open>
  The call and event registry, whose C++ text is the template in \<^verbatim>\<open>scripts/DCSGen.py\<close>.
  The build fills the template with one case per registered function and argument type; those
  cases are parameters here: \<open>arg_size\<close> gives the size of the type an argument code stands
  for, and \<^verbatim>\<open>Execute\<close> is a parameter of the server.
\<close>

section \<open>Call parameters\<close>

text \<open>An argument as it travels: its type code and the bytes of its value.\<close>

type_synonym arg = "u8 \<times> bytes"

record SVParams =
  fcode :: u16
  args :: "arg list"

definition put16 :: "u16 \<Rightarrow> bytes" where
  "put16 w = le_bytes 2 (unat w)"

definition get16 :: "bytes \<Rightarrow> u16" where
  "get16 bs = word_of_nat (le_nat (take 2 bs))"

text \<open>
  \<^verbatim>\<open>convert_from_byte<T>\<close>: a start past the end gives the value-initialised \<^verbatim>\<open>T()\<close>; a
  start inside the data reads \<open>sizeof(T)\<close> bytes, of which the check does not take account.
\<close>

definition convert_from_byte :: "nat \<Rightarrow> bytes \<Rightarrow> nat \<Rightarrow> nat \<Rightarrow> bytes outcome" where
  "convert_from_byte n data off sz =
     (if sz \<le> off then Ok (replicate n 0) else memcpy_from data off n)"

definition cpyArgToBuffer :: "bytes \<Rightarrow> arg \<Rightarrow> nat \<Rightarrow> (bytes \<times> nat) outcome" where
  "cpyArgToBuffer buf a it =
     obind (memcpy_to buf it [fst a]) (\<lambda>b1.
     obind (memcpy_to b1 (it + 1) (snd a)) (\<lambda>b2. Ok (b2, it + 1 + length (snd a))))"

fun copy_args :: "bytes \<Rightarrow> arg list \<Rightarrow> nat \<Rightarrow> (bytes \<times> nat) outcome" where
  "copy_args buf [] it = Ok (buf, it)"
| "copy_args buf (a # as) it = obind (cpyArgToBuffer buf a it) (\<lambda>(b, it'). copy_args b as it')"

text \<open>The buffer and the size written to it.\<close>

definition GetDataFromParams :: "bytes \<Rightarrow> u16 \<Rightarrow> arg list \<Rightarrow> (bytes \<times> nat) outcome" where
  "GetDataFromParams buf fc as = obind (memcpy_to buf 0 (put16 fc)) (\<lambda>b. copy_args b as 2)"

text \<open>The argument loop: an unknown type code is skipped alone, a known one with its value.\<close>

function get_args :: "(u8 \<Rightarrow> nat option) \<Rightarrow> bytes \<Rightarrow> nat \<Rightarrow> nat \<Rightarrow> arg list outcome" where
  "get_args arg_size data sz it =
     (if it < sz then
        obind (convert_from_byte 1 data it sz) (\<lambda>tb.
          case arg_size (hd tb) of
            None \<Rightarrow> get_args arg_size data sz (it + 1)
          | Some n \<Rightarrow> obind (convert_from_byte n data (it + 1) sz) (\<lambda>v.
              obind (get_args arg_size data sz (it + 1 + n)) (\<lambda>as. Ok ((hd tb, v) # as))))
      else Ok [])"
  by pat_completeness auto

termination get_args
  by (relation "measure (\<lambda>(_, _, sz, it). sz - it)") auto

declare get_args.simps [simp del]

definition GetParamsFromData :: "(u8 \<Rightarrow> nat option) \<Rightarrow> bytes \<Rightarrow> nat \<Rightarrow> SVParams outcome" where
  "GetParamsFromData arg_size data sz =
     obind (convert_from_byte 2 data 0 sz) (\<lambda>fc.
     obind (get_args arg_size data sz 2) (\<lambda>as. Ok \<lparr>fcode = get16 fc, args = as\<rparr>))"

text \<open>The encoded form of a call.\<close>

definition enc_arg :: "arg \<Rightarrow> bytes" where
  "enc_arg a = fst a # snd a"

definition enc_call :: "u16 \<Rightarrow> arg list \<Rightarrow> bytes" where
  "enc_call fc as = put16 fc @ concat (map enc_arg as)"

definition args_typed :: "(u8 \<Rightarrow> nat option) \<Rightarrow> arg list \<Rightarrow> bool" where
  "args_typed arg_size as \<longleftrightarrow> list_all (\<lambda>a. arg_size (fst a) = Some (length (snd a))) as"

lemma length_put16 [simp]: "length (put16 w) = 2"
  by (simp add: put16_def)

lemma get16_put16 [simp]: "get16 (put16 w) = w"
  using unsigned_less [of w, where ?'a = nat] by (simp add: get16_def put16_def)

lemma blit_at_end:
  assumes "take it buf = pre" "it + length src \<le> length buf"
  shows "take (it + length src) (blit buf it src) = pre @ src"
  using assms take_blit_end [of it buf src] by simp

lemma copy_args_ok:
  assumes "it \<le> length buf" "it + length (concat (map enc_arg as)) \<le> length buf"
  shows "\<exists>b. copy_args buf as it = Ok (b, it + length (concat (map enc_arg as)))
    \<and> length b = length buf
    \<and> take (it + length (concat (map enc_arg as))) b = take it buf @ concat (map enc_arg as)"
  using assms
proof (induction as arbitrary: buf it)
  case Nil
  then show ?case by simp
next
  case (Cons a as)
  let ?n = "length (snd a)"
  let ?b1 = "blit buf it [fst a]" and ?b2 = "blit (blit buf it [fst a]) (it + 1) (snd a)"
  have room: "it + 1 + ?n \<le> length buf" using Cons.prems by (simp add: enc_arg_def)
  then have l1: "length ?b1 = length buf" and l2: "length ?b2 = length buf" by simp_all
  have c: "cpyArgToBuffer buf a it = Ok (?b2, it + 1 + ?n)"
    using room l1 by (simp add: cpyArgToBuffer_def memcpy_to_def)
  have "take (it + 1 + ?n) ?b2 = take it buf @ [fst a] @ snd a"
    using blit_at_end [of "it + 1" ?b1 "take it buf @ [fst a]" "snd a"]
      blit_at_end [of it buf "take it buf" "[fst a]"] room l1 by simp
  moreover have "\<exists>b. copy_args ?b2 as (it + 1 + ?n) = Ok (b, it + 1 + ?n + length (concat (map enc_arg as)))
      \<and> length b = length ?b2
      \<and> take (it + 1 + ?n + length (concat (map enc_arg as))) b = take (it + 1 + ?n) ?b2 @ concat (map enc_arg as)"
    using Cons.prems l2 by (intro Cons.IH) (simp_all add: enc_arg_def)
  ultimately show ?case using c l2 by (auto simp: enc_arg_def [of a] add.assoc)
qed

lemma GetDataFromParams_ok:
  assumes "length (enc_call fc as) \<le> length buf"
  shows "\<exists>b. GetDataFromParams buf fc as = Ok (b, length (enc_call fc as))
    \<and> take (length (enc_call fc as)) b = enc_call fc as"
proof -
  have l: "length (blit buf 0 (put16 fc)) = length buf" using assms by (simp add: enc_call_def)
  have "take 2 (blit buf 0 (put16 fc)) = put16 fc"
    using take_blit_front [of "put16 fc" buf] by simp
  then show ?thesis
    using copy_args_ok [of 2 "blit buf 0 (put16 fc)" as] assms l
    by (auto simp: GetDataFromParams_def memcpy_to_def enc_call_def)
qed

lemma get_args_enc:
  assumes "args_typed arg_size as"
  shows "get_args arg_size (pre @ concat (map enc_arg as)) (length (pre @ concat (map enc_arg as))) (length pre) = Ok as"
  using assms
proof (induction as arbitrary: pre)
  case Nil
  then show ?case by (subst get_args.simps) simp
next
  case (Cons a as)
  let ?d = "pre @ concat (map enc_arg (a # as))"
  have sz: "arg_size (fst a) = Some (length (snd a))" and tl: "args_typed arg_size as"
    using Cons.prems by (simp_all add: args_typed_def)
  have t: "convert_from_byte 1 ?d (length pre) (length ?d) = Ok [fst a]"
    by (simp add: convert_from_byte_def memcpy_from_def enc_arg_def)
  have v: "convert_from_byte (length (snd a)) ?d (length pre + 1) (length ?d) = Ok (snd a)"
  proof (cases "length ?d \<le> length pre + 1")
    case True
    then have "snd a = []" by (simp add: enc_arg_def)
    then show ?thesis by (simp add: convert_from_byte_def memcpy_from_def enc_arg_def)
  next
    case False
    then show ?thesis by (simp add: convert_from_byte_def memcpy_from_def enc_arg_def)
  qed
  have ih: "get_args arg_size ?d (length ?d) (length pre + 1 + length (snd a)) = Ok as"
    using Cons.IH [OF tl, of "pre @ enc_arg a"] by (simp add: enc_arg_def [of a] add.assoc)
  have lt: "length pre < length ?d" by (simp add: enc_arg_def)
  show ?case
    by (subst get_args.simps) (simp only: lt if_True t v ih sz obind.simps option.case list.sel prod.collapse)
qed

lemma GetParams_enc_call:
  assumes "args_typed arg_size as"
  shows "GetParamsFromData arg_size (enc_call fc as) (length (enc_call fc as)) = Ok \<lparr>fcode = fc, args = as\<rparr>"
proof -
  have "convert_from_byte 2 (enc_call fc as) 0 (length (enc_call fc as)) = Ok (put16 fc)"
    by (simp add: convert_from_byte_def memcpy_from_def enc_call_def)
  moreover have "get_args arg_size (enc_call fc as) (length (enc_call fc as)) 2 = Ok as"
    using get_args_enc [OF assms, of "put16 fc"] by (simp add: enc_call_def)
  ultimately show ?thesis by (simp add: GetParamsFromData_def)
qed

text \<open>
  Call parameters survive the trip: whatever function code and typed arguments the
  caller puts into a large enough buffer, the server reads the same code and the same arguments
  from the bytes that were written.
\<close>

theorem call_params_round_trip:
  assumes "args_typed arg_size as" and "length (enc_call fc as) \<le> length buf"
  shows "\<exists>b n. GetDataFromParams buf fc as = Ok (b, n)
    \<and> GetParamsFromData arg_size (take n b) n = Ok \<lparr>fcode = fc, args = as\<rparr>"
proof -
  obtain b where b: "GetDataFromParams buf fc as = Ok (b, length (enc_call fc as))"
    "take (length (enc_call fc as)) b = enc_call fc as"
    using GetDataFromParams_ok [OF assms(2)] by blast
  with GetParams_enc_call [OF assms(1)] show ?thesis by auto
qed

theorem call_params_round_trip_witness:
  "\<exists>b n. GetDataFromParams (replicate 16 0) 5 [(1, [7, 8]), (2, [9])] = Ok (b, n)
    \<and> GetParamsFromData [1 \<mapsto> 2, 2 \<mapsto> 1] (take n b) n = Ok \<lparr>fcode = 5, args = [(1, [7, 8]), (2, [9])]\<rparr>"
  by (rule call_params_round_trip) (simp_all add: args_typed_def enc_call_def enc_arg_def)

lemma copy_args_overflow:
  assumes "length buf < it + length (concat (map enc_arg as))" "it \<le> length buf"
  shows "copy_args buf as it = Fault OutOfBounds"
  using assms
proof (induction as arbitrary: buf it)
  case Nil
  then show ?case by simp
next
  case (Cons a as)
  show ?case
  proof (cases "it + 1 + length (snd a) \<le> length buf")
    case True
    let ?b = "blit (blit buf it [fst a]) (it + 1) (snd a)"
    have "cpyArgToBuffer buf a it = Ok (?b, it + 1 + length (snd a))"
      using True by (simp add: cpyArgToBuffer_def memcpy_to_def)
    moreover have "copy_args ?b as (it + 1 + length (snd a)) = Fault OutOfBounds"
      using Cons.prems True by (intro Cons.IH) (simp_all add: enc_arg_def)
    ultimately show ?thesis by simp
  next
    case False
    then have "cpyArgToBuffer buf a it = Fault OutOfBounds"
      by (simp add: cpyArgToBuffer_def memcpy_to_def)
    then show ?thesis by simp
  qed
qed

text \<open>
  Arguments that do not fit the caller's buffer overrun it. The generated call wrappers use a
  buffer of 1024 bytes, and the arguments of \<^verbatim>\<open>Database::WriteValueString\<close> (an enumeration and
  three strings of 512 bytes) need 1546.
\<close>

theorem call_params_overrun:
  assumes "length buf < length (enc_call fc as)" and "2 \<le> length buf"
  shows "GetDataFromParams buf fc as = Fault OutOfBounds"
proof -
  have "copy_args (blit buf 0 (put16 fc)) as 2 = Fault OutOfBounds"
    using assms by (intro copy_args_overflow) (simp_all add: enc_call_def)
  then show ?thesis using assms(2) by (simp add: GetDataFromParams_def memcpy_to_def)
qed

theorem call_params_overrun_witness:
  "GetDataFromParams (replicate 1024 0) 9
     [(1, replicate 4 0), (2, replicate 512 0), (2, replicate 512 0), (2, replicate 512 0)] = Fault OutOfBounds"
  by (rule call_params_overrun) (simp_all add: enc_call_def enc_arg_def)

section \<open>Events\<close>

text \<open>
  \<^verbatim>\<open>MAX_SUB\<close> is the number of registered events; \<open>'c\<close> is the type of a callback with its
  user data.
\<close>

record 'c registry =
  MAX_SUB :: u8
  subscriptions :: "u8 \<Rightarrow> bool option"
  evt_callbacks :: "u8 \<Rightarrow> 'c option"
  evt_userData :: "u8 \<Rightarrow> 'c option"

definition registry_init :: "u8 \<Rightarrow> 'c registry" where
  "registry_init n =
     \<lparr>MAX_SUB = n, subscriptions = (\<lambda>i. if 1 \<le> i \<and> i \<le> n then Some False else None),
      evt_callbacks = (\<lambda>_. None), evt_userData = (\<lambda>_. None)\<rparr>"

text \<open>\<^verbatim>\<open>emplace\<close> keeps an entry that is already there.\<close>

definition emplace :: "('k \<Rightarrow> 'v option) \<Rightarrow> 'k \<Rightarrow> 'v \<Rightarrow> 'k \<Rightarrow> 'v option" where
  "emplace m k v = (if m k = None then m(k \<mapsto> v) else m)"

definition SetupEvent :: "'c registry \<Rightarrow> u8 \<Rightarrow> 'c \<Rightarrow> 'c \<Rightarrow> bytes \<times> 'c registry" where
  "SetupEvent r i f d =
     ([i], r\<lparr>evt_callbacks := emplace (evt_callbacks r) i f, evt_userData := emplace (evt_userData r) i d\<rparr>)"

definition RemoveEvent :: "'c registry \<Rightarrow> u8 \<Rightarrow> bytes \<times> 'c registry" where
  "RemoveEvent r i =
     ([i], if i \<le> MAX_SUB r
           then r\<lparr>evt_callbacks := (evt_callbacks r)(i := None), evt_userData := (evt_userData r)(i := None)\<rparr>
           else r)"

text \<open>\<open>Ok None\<close> is the null callback for an id out of range; \<^verbatim>\<open>at\<close> throws when there is no entry.\<close>

definition GetEventCallback :: "'c registry \<Rightarrow> u8 \<Rightarrow> 'c option outcome" where
  "GetEventCallback r i =
     (if i \<le> MAX_SUB r then (case evt_callbacks r i of None \<Rightarrow> Fault OutOfRange | Some f \<Rightarrow> Ok (Some f))
      else Ok None)"

definition GetEventUserData :: "'c registry \<Rightarrow> u8 \<Rightarrow> 'c option outcome" where
  "GetEventUserData r i =
     (if i \<le> MAX_SUB r then (case evt_userData r i of None \<Rightarrow> Fault OutOfRange | Some d \<Rightarrow> Ok (Some d))
      else Ok None)"

definition CheckEvent :: "'c registry \<Rightarrow> u8 \<Rightarrow> bool outcome" where
  "CheckEvent r i =
     (if i \<le> MAX_SUB r then (case subscriptions r i of None \<Rightarrow> Fault OutOfRange | Some b \<Rightarrow> Ok b)
      else Ok False)"

definition SetEvent :: "'c registry \<Rightarrow> u8 \<Rightarrow> 'c registry" where
  "SetEvent r i = (if i \<le> MAX_SUB r then r\<lparr>subscriptions := (subscriptions r)(i \<mapsto> True)\<rparr> else r)"

definition UnsetEvent :: "'c registry \<Rightarrow> u8 \<Rightarrow> 'c registry" where
  "UnsetEvent r i = (if i \<le> MAX_SUB r then r\<lparr>subscriptions := (subscriptions r)(i \<mapsto> False)\<rparr> else r)"

text \<open>Every registered event has a subscription flag, so a check of a registered event never throws.\<close>

definition registry_ok :: "'c registry \<Rightarrow> bool" where
  "registry_ok r \<longleftrightarrow> (\<forall>i. 1 \<le> i \<and> i \<le> MAX_SUB r \<longrightarrow> subscriptions r i \<noteq> None)"

lemma registry_ok_init [simp]: "registry_ok (registry_init n)"
  by (simp add: registry_ok_def registry_init_def)

lemma registry_ok_pres [simp]:
  "registry_ok r \<Longrightarrow> registry_ok (SetEvent r i)"
  "registry_ok r \<Longrightarrow> registry_ok (UnsetEvent r i)"
  "registry_ok r \<Longrightarrow> registry_ok (snd (SetupEvent r i f d))"
  "registry_ok r \<Longrightarrow> registry_ok (snd (RemoveEvent r i))"
  by (auto simp: registry_ok_def SetEvent_def UnsetEvent_def SetupEvent_def RemoveEvent_def)

lemma u8_nonzero: "1 \<le> i \<longleftrightarrow> i \<noteq> (0 :: u8)"
  by (auto simp: word_le_nat_alt Suc_le_eq unat_gt_0)

lemma CheckEvent_total: "registry_ok r \<Longrightarrow> i \<noteq> 0 \<Longrightarrow> is_Ok (CheckEvent r i)"
  using u8_nonzero [of i] by (auto simp: CheckEvent_def registry_ok_def split: option.splits)

lemma CheckEvent_SetEvent [simp]: "CheckEvent (SetEvent r i) k = (if k = i \<and> i \<le> MAX_SUB r then Ok True else CheckEvent r k)"
  by (auto simp: CheckEvent_def SetEvent_def)

lemma CheckEvent_UnsetEvent [simp]: "CheckEvent (UnsetEvent r i) k = (if k = i \<and> i \<le> MAX_SUB r then Ok False else CheckEvent r k)"
  by (auto simp: CheckEvent_def UnsetEvent_def)

text \<open>A second registration of an event keeps the first callback.\<close>

lemma SetupEvent_twice:
  "evt_callbacks (snd (SetupEvent (snd (SetupEvent r i f d)) i g e)) i = Some (case evt_callbacks r i of None \<Rightarrow> f | Some h \<Rightarrow> h)"
  by (auto simp: SetupEvent_def emplace_def)

end
