(* ===== verification/Sockets.thy ===== *)
theory Sockets
  imports Prelude
begin

text \<open>
  The socket wrapper \<^verbatim>\<open>DCS_Network/src/socket.cpp\<close>. Winsock is not part of the program: an
  \<open>winsock\<close> record holds what its calls return, and the state counts what the wrapper has
  acquired and released.
\<close>

section \<open>State\<close>

type_synonym sock = u64

abbreviation INVALID_SOCKET :: sock where
  "INVALID_SOCKET \<equiv> - 1"

text \<open>What Winsock answers: a failed call is \<open>False\<close>, \<open>INVALID_SOCKET\<close> or a negative length.\<close>

record winsock =
  ws_startup :: bool
  ws_getaddrinfo :: "string \<Rightarrow> string \<Rightarrow> bool"
  ws_result :: bool
  ws_socket :: sock
  ws_bind :: "sock \<Rightarrow> bool"
  ws_listen :: "sock \<Rightarrow> bool"
  ws_accept :: "sock \<Rightarrow> sock"
  ws_interrupted :: bool
  ws_connect :: "sock \<Rightarrow> bool"
  ws_shutdown :: "sock \<Rightarrow> bool"
  ws_recv :: "sock \<Rightarrow> nat \<Rightarrow> int \<times> bytes"
  ws_send :: "sock \<Rightarrow> bytes \<Rightarrow> int"

text \<open>
  \<open>wsa\<close> is the number of successful \<^verbatim>\<open>WSAStartup\<close> calls minus the number of
  \<^verbatim>\<open>WSACleanup\<close> calls, \<open>addrinfos\<close> the results of \<^verbatim>\<open>getaddrinfo\<close> not yet freed,
  \<open>open_socks\<close> the sockets handed out and not closed.
\<close>

record net =
  is_inited :: bool
  wsa :: int
  addrinfos :: int
  open_socks :: "sock list"

definition net_init :: net where
  "net_init = \<lparr>is_inited = False, wsa = 0, addrinfos = 0, open_socks = []\<rparr>"

definition WSACleanup :: "net \<Rightarrow> net" where
  "WSACleanup s = s\<lparr>wsa := wsa s - 1\<rparr>"

definition freeaddrinfo :: "net \<Rightarrow> net" where
  "freeaddrinfo s = s\<lparr>addrinfos := addrinfos s - 1\<rparr>"

definition closesocket :: "sock \<Rightarrow> net \<Rightarrow> net" where
  "closesocket k s = s\<lparr>open_socks := removeAll k (open_socks s)\<rparr>"

definition open_sock :: "sock \<Rightarrow> net \<Rightarrow> net" where
  "open_sock k s = s\<lparr>open_socks := k # open_socks s\<rparr>"

section \<open>Operations\<close>

definition InitWinSock :: "winsock \<Rightarrow> net \<Rightarrow> net" where
  "InitWinSock w s = (if ws_startup w then s\<lparr>wsa := wsa s + 1\<rparr> else s)"

definition CleanupWinSock :: "net \<Rightarrow> net" where
  "CleanupWinSock s = WSACleanup s"

definition Init :: "winsock \<Rightarrow> net \<Rightarrow> net" where
  "Init w s = (if \<not> is_inited s then InitWinSock w (s\<lparr>is_inited := True\<rparr>) else s)"

definition GetStatus :: "net \<Rightarrow> bool" where
  "GetStatus s = is_inited s"

definition Destroy :: "net \<Rightarrow> net" where
  "Destroy s = (if is_inited s then CleanupWinSock (s\<lparr>is_inited := False\<rparr>) else s)"

definition CreateServerSocket :: "winsock \<Rightarrow> int \<Rightarrow> net \<Rightarrow> sock \<times> net" where
  "CreateServerSocket w port s =
     (if \<not> ws_getaddrinfo w [] (to_string port) then (INVALID_SOCKET, WSACleanup s)
      else let s = s\<lparr>addrinfos := addrinfos s + 1\<rparr>; k = ws_socket w in
        if k = INVALID_SOCKET then (INVALID_SOCKET, WSACleanup (freeaddrinfo s))
        else let s = open_sock k s in
          if \<not> ws_bind w k then (INVALID_SOCKET, WSACleanup (closesocket k (freeaddrinfo s)))
          else (k, freeaddrinfo s))"

text \<open>\<open>ws_result\<close> is whether \<^verbatim>\<open>getaddrinfo\<close> stored a non-null result.\<close>

definition CreateClientSocket :: "winsock \<Rightarrow> string \<Rightarrow> int \<Rightarrow> net \<Rightarrow> sock \<times> net" where
  "CreateClientSocket w host port s =
     (if \<not> ws_getaddrinfo w host (to_string port) then (INVALID_SOCKET, s)
      else if ws_result w then
        let s = s\<lparr>addrinfos := addrinfos s + 1\<rparr>; k = ws_socket w in
        if k = INVALID_SOCKET then (INVALID_SOCKET, freeaddrinfo s)
        else let s = open_sock k s;
                 (k, s) = (if \<not> ws_connect w k then (INVALID_SOCKET, closesocket k s) else (k, s));
                 s = freeaddrinfo s
             in if k = INVALID_SOCKET then (INVALID_SOCKET, s) else (k, s)
      else (INVALID_SOCKET, s))"

definition ServerListen :: "winsock \<Rightarrow> sock \<Rightarrow> net \<Rightarrow> net" where
  "ServerListen w k s = (if \<not> ws_listen w k then WSACleanup (closesocket k s) else s)"

definition ServerAcceptConnection :: "winsock \<Rightarrow> sock \<Rightarrow> net \<Rightarrow> sock \<times> net" where
  "ServerAcceptConnection w server s =
     (let client = ws_accept w server in
      if client = INVALID_SOCKET then
        (INVALID_SOCKET, if \<not> ws_interrupted w then WSACleanup (closesocket server s) else s)
      else (client, open_sock client s))"

definition CloseSocketConnection :: "sock \<Rightarrow> net \<Rightarrow> net" where
  "CloseSocketConnection k s = closesocket k s"

definition ValidateSocket :: "sock \<Rightarrow> bool" where
  "ValidateSocket k \<longleftrightarrow> k \<noteq> INVALID_SOCKET"

text \<open>The returned length, the bytes stored in the buffer and the state.\<close>

definition ReceiveData :: "winsock \<Rightarrow> sock \<Rightarrow> nat \<Rightarrow> net \<Rightarrow> int \<times> bytes \<times> net" where
  "ReceiveData w k len s =
     (let (r, d) = ws_recv w k len in
      if 0 < r then (r, d, s)
      else if r = 0 then (0, [], if \<not> ws_shutdown w k then closesocket k s else s)
      else (-1, [], closesocket k s))"

definition SendGenericData :: "winsock \<Rightarrow> sock \<Rightarrow> bytes \<Rightarrow> net \<Rightarrow> int \<times> net" where
  "SendGenericData w k d s =
     (let r = ws_send w k d in if 0 < r then (r, s) else (-1, closesocket k s))"

definition Server_Create :: "winsock \<Rightarrow> int \<Rightarrow> net \<Rightarrow> sock \<times> net" where
  "Server_Create w port s =
     (if \<not> GetStatus s then (INVALID_SOCKET, s)
      else let (k, s) = CreateServerSocket w port s in (k, ServerListen w k s))"

definition Client_Connect :: "winsock \<Rightarrow> string \<Rightarrow> int \<Rightarrow> net \<Rightarrow> sock \<times> net" where
  "Client_Connect w host port s =
     (if \<not> GetStatus s then (INVALID_SOCKET, s) else CreateClientSocket w host port s)"

section \<open>The address of a peer\<close>

text \<open>
  \<^verbatim>\<open>getpeername\<close> is \<open>peer\<close>, and leaves the zeroed structure as it is when it fails; \<open>dotted\<close> is \<^verbatim>\<open>inet_ntoa\<close>. A null buffer is only
  logged.
\<close>

definition dotted :: "u8 \<times> u8 \<times> u8 \<times> u8 \<Rightarrow> string" where
  "dotted a = (case a of (p, q, r, t) \<Rightarrow>
     dec_nat (unat p) @ ''.'' @ dec_nat (unat q) @ ''.'' @ dec_nat (unat r) @ ''.'' @ dec_nat (unat t))"

definition GetSocketIpAddress :: "(sock \<Rightarrow> (u8 \<times> u8 \<times> u8 \<times> u8) option) \<Rightarrow> sock \<Rightarrow> string option \<Rightarrow> string option outcome" where
  "GetSocketIpAddress peer s buffer =
     (let ip = dotted (case peer s of None \<Rightarrow> (0, 0, 0, 0) | Some a \<Rightarrow> a) in
      case buffer of None \<Rightarrow> Ok None
      | Some b \<Rightarrow> obind (memcpy_to b 0 (ip @ [NUL])) (\<lambda>b'. Ok (Some b')))"

lemma unat_u8: "unat (b :: u8) < 256"
  using unsigned_less [of b, where ?'a = nat] by simp

lemma dotted_length: "length (dotted a) \<le> 15"
proof -
  have "length (dec_nat (unat (b :: u8))) \<le> 3" for b using length_dec_nat_le [of "unat b" 2] unat_u8 [of b] by simp
  note l = this
  obtain p q r t where "a = (p, q, r, t)" by (cases a)
  then show ?thesis using l [of p] l [of q] l [of r] l [of t] by (simp add: dotted_def)
qed

lemma dotted_no_nul: "NUL \<notin> set (dotted a)"
proof -
  have "NUL \<notin> set (dec_nat n)" for n
  proof
    assume "NUL \<in> set (dec_nat n)"
    then obtain d where "d < 10" "NUL = digit_char d" using dec_nat_digits by blast
    then have "(of_char NUL :: nat) = 48 + d" by (simp add: digit_char_def)
    then show False by simp
  qed
  then show ?thesis by (auto simp: dotted_def split: prod.splits)
qed

text \<open>A buffer of sixteen characters is enough for every address; an unknown peer is reported as 0.0.0.0.\<close>

lemma peer_address:
  assumes "16 \<le> length b"
  shows "\<exists>b'. GetSocketIpAddress peer s (Some b) = Ok (Some b') \<and> length b' = length b
    \<and> cstr b' = dotted (case peer s of None \<Rightarrow> (0, 0, 0, 0) | Some a \<Rightarrow> a)"
proof -
  let ?ip = "dotted (case peer s of None \<Rightarrow> (0, 0, 0, 0) | Some a \<Rightarrow> a)"
  have "length (?ip @ [NUL]) \<le> length b" using dotted_length [of "case peer s of None \<Rightarrow> (0, 0, 0, 0) | Some a \<Rightarrow> a"] assms by simp
  moreover have "cstr (blit b 0 (?ip @ [NUL])) = ?ip"
    using cstr_no_nul [OF dotted_no_nul, of "case peer s of None \<Rightarrow> (0, 0, 0, 0) | Some a \<Rightarrow> a"] by (simp add: blit_def)
  ultimately show ?thesis by (simp add: GetSocketIpAddress_def Let_def memcpy_to_def)
qed

section \<open>Resources\<close>

lemmas socket_defs = WSACleanup_def freeaddrinfo_def closesocket_def open_sock_def Let_def

text \<open>
  Creating a socket leaks nothing on any path, whatever Winsock answers: every address
  list is freed, and the only socket that stays open is the one returned; on failure the set of
  open sockets is what it was (for a socket number not in use before).
\<close>

theorem create_socket_no_leak:
  assumes "ws_socket w \<notin> set (open_socks s)"
  shows "(let (k, s') = CreateServerSocket w port s in
      addrinfos s' = addrinfos s \<and> open_socks s' = (if k = INVALID_SOCKET then [] else [k]) @ open_socks s)
    \<and> (let (k, s') = CreateClientSocket w host port s in
      addrinfos s' = addrinfos s \<and> wsa s' = wsa s
      \<and> open_socks s' = (if k = INVALID_SOCKET then [] else [k]) @ open_socks s)"
proof
  show "let (k, s') = CreateServerSocket w port s in
      addrinfos s' = addrinfos s \<and> open_socks s' = (if k = INVALID_SOCKET then [] else [k]) @ open_socks s"
    using assms by (auto simp: CreateServerSocket_def socket_defs)
  show "let (k, s') = CreateClientSocket w host port s in
      addrinfos s' = addrinfos s \<and> wsa s' = wsa s
      \<and> open_socks s' = (if k = INVALID_SOCKET then [] else [k]) @ open_socks s"
    using assms by (auto simp: CreateClientSocket_def socket_defs)
qed

definition ws_ex :: "bool \<Rightarrow> winsock" where
  "ws_ex b = \<lparr>ws_startup = True, ws_getaddrinfo = (\<lambda>_ _. True), ws_result = True, ws_socket = 5,
     ws_bind = (\<lambda>_. b), ws_listen = (\<lambda>k. b \<and> k \<noteq> INVALID_SOCKET), ws_accept = (\<lambda>_. 6), ws_interrupted = False,
     ws_connect = (\<lambda>_. b), ws_shutdown = (\<lambda>_. True), ws_recv = (\<lambda>_ _. (0, [])), ws_send = (\<lambda>_ d. int (length d))\<rparr>"

theorem create_socket_no_leak_witness:
  "(let (k, s') = CreateServerSocket (ws_ex True) 80 net_init in addrinfos s' = 0 \<and> k = 5 \<and> open_socks s' = [5])
   \<and> (let (k, s') = CreateClientSocket (ws_ex False) ''h'' 80 net_init in addrinfos s' = 0 \<and> k = INVALID_SOCKET \<and> open_socks s' = [])"
proof -
  have "fst (CreateServerSocket (ws_ex True) 80 net_init) = 5"
    and "fst (CreateClientSocket (ws_ex False) ''h'' 80 net_init) = INVALID_SOCKET"
    by (simp_all add: CreateServerSocket_def CreateClientSocket_def ws_ex_def socket_defs)
  moreover have "ws_socket (ws_ex b) \<notin> set (open_socks net_init)" for b by (simp add: net_init_def)
  ultimately show ?thesis
    using create_socket_no_leak [of "ws_ex True" net_init 80 "''h''"]
      create_socket_no_leak [of "ws_ex False" net_init 80 "''h''"]
    by (auto simp: net_init_def Let_def split: prod.splits)
qed

text \<open>
  The start-up count of Winsock is balanced by the initialisation and shutdown of the module, but
  not by a failed \<^verbatim>\<open>Server::Create\<close>: when the server socket cannot be made, the failing
  \<^verbatim>\<open>listen\<close> on the invalid socket cleans up a second time, so that one start-up is followed by
  two clean-ups while \<^verbatim>\<open>GetStatus\<close> still reports an initialised module.
\<close>

theorem failed_create_cleans_up_twice:
  assumes "\<not> ws_listen w INVALID_SOCKET" and "ws_startup w" and "\<not> is_inited s"
    and "fst (Server_Create w port (Init w s)) = INVALID_SOCKET"
  shows "let s' = snd (Server_Create w port (Init w s)) in
    GetStatus s' \<and> wsa s' = wsa s - 1 \<and> wsa (Destroy s') = wsa s - 2 \<and> wsa (Destroy (Init w s)) = wsa s"
  using assms
  by (auto simp: Server_Create_def CreateServerSocket_def ServerListen_def Init_def InitWinSock_def
      Destroy_def CleanupWinSock_def GetStatus_def socket_defs split: if_splits)

theorem failed_create_cleans_up_twice_witness:
  "wsa (Destroy (snd (Server_Create (ws_ex False) 80 (Init (ws_ex False) net_init)))) = -2"
proof -
  have "\<not> ws_listen (ws_ex False) INVALID_SOCKET" "ws_startup (ws_ex False)" "\<not> is_inited net_init"
    "fst (Server_Create (ws_ex False) 80 (Init (ws_ex False) net_init)) = INVALID_SOCKET"
    by (simp_all add: ws_ex_def net_init_def Server_Create_def CreateServerSocket_def Init_def
        InitWinSock_def GetStatus_def socket_defs)
  then show ?thesis
    using failed_create_cleans_up_twice [of "ws_ex False" net_init 80] by (simp add: Let_def net_init_def)
qed

end
