(* ===== verification/Server.thy ===== *)
theory Server
  imports Handshake Registry Sockets
begin

text \<open>
  The server of \<^verbatim>\<open>DCS_Network/src/server.cpp\<close>: the dispatch of decoded messages, events, and the
  life cycle of its threads. \<^verbatim>\<open>Registry::Execute\<close>, which the build generates, is the parameter
  \<open>Execute\<close>: it turns the parameters of a call and the state \<open>'w\<close> of the modules into the bytes
  of an \<^verbatim>\<open>SVReturn\<close> and a new state.
\<close>

section \<open>State\<close>

record 'c server =
  server_receive_thread :: bool
  server_send_thread :: bool
  outbound_data_queue :: "DefaultMessage smq"
  server_nid :: u64
  server_running :: bool
  server_listening :: bool
  stop_forced :: bool
  server_client_sock :: sock
  sreg :: "'c registry"

definition server_init :: "u8 \<Rightarrow> 'c server" where
  "server_init n = \<lparr>server_receive_thread = False, server_send_thread = False, outbound_data_queue = [],
     server_nid = 0, server_running = False, server_listening = True, stop_forced = False,
     server_client_sock = 0, sreg = registry_init n\<rparr>"

definition push_outbound :: "'c server \<Rightarrow> DefaultMessage \<Rightarrow> 'c server" where
  "push_outbound s m = s\<lparr>outbound_data_queue := smq_push (outbound_data_queue s) m\<rparr>"

section \<open>Dispatch\<close>

type_synonym 'w execute = "SVParams \<Rightarrow> 'w \<Rightarrow> bytes \<times> 'w"

text \<open>The two request cases: execute, allocate, copy the result under the id of the request, queue it.\<close>

definition answer :: "InternalOperation \<Rightarrow> junk \<Rightarrow> (u8 \<Rightarrow> nat option) \<Rightarrow> 'w execute \<Rightarrow> DefaultMessage \<Rightarrow> bytes \<Rightarrow> 'c server \<Rightarrow> 'w \<Rightarrow> ('c server \<times> 'w) outcome" where
  "answer resp j arg_size Execute msg p s w =
     obind (GetParamsFromData arg_size p (unat (msg_size msg))) (\<lambda>ps.
       let (r, w') = Execute ps w in
       obind (Alloc j (of_nat (SVReturn_size + MESSAGE_XTRA_SPACE))) (\<lambda>dm.
       obind (SetCopyId dm (iop_code resp) (msg_id msg) r) (\<lambda>dm.
         Ok (push_outbound s dm, w'))))"

definition server_dispatch :: "junk \<Rightarrow> (u8 \<Rightarrow> nat option) \<Rightarrow> 'w execute \<Rightarrow> DefaultMessage \<Rightarrow> 'c server \<Rightarrow> 'w \<Rightarrow> ('c server \<times> 'w) outcome" where
  "server_dispatch j arg_size Execute msg s w =
     (case msg_ptr msg of None \<Rightarrow> Fault NullPointer
      | Some p \<Rightarrow>
        if msg_op msg = iop_code NO_OP then Ok (s, w)
        else if msg_op msg = iop_code ASYNC_REQUEST then answer ASYNC_RESPONSE j arg_size Execute msg p s w
        else if msg_op msg = iop_code SYNC_REQUEST then answer SYNC_RESPONSE j arg_size Execute msg p s w
        else if msg_op msg = iop_code EVT_SUB then
          obind (read_at p 0) (\<lambda>e. Ok (s\<lparr>sreg := SetEvent (sreg s) e\<rparr>, w))
        else if msg_op msg = iop_code EVT_UNSUB then
          obind (read_at p 0) (\<lambda>e. Ok (s\<lparr>sreg := UnsetEvent (sreg s) e\<rparr>, w))
        else Ok (s, w))"

text \<open>One round of the decoding loop on a fetched buffer; length 0 is the notification to stop.\<close>

definition server_round :: "junk \<Rightarrow> (u8 \<Rightarrow> nat option) \<Rightarrow> 'w execute \<Rightarrow> u64 \<Rightarrow> bytes \<Rightarrow> 'c server \<Rightarrow> 'w \<Rightarrow> ('c server \<times> 'w) outcome" where
  "server_round j arg_size Execute sz buf s w =
     (if sz = 0 then Ok (s, w)
      else obind (decode j sz buf) (\<lambda>msg. server_dispatch j arg_size Execute msg s w))"

section \<open>Events\<close>

definition EmitEvent :: "junk \<Rightarrow> u8 \<Rightarrow> bytes \<Rightarrow> 'c server \<Rightarrow> 'c server outcome" where
  "EmitEvent j evt data s =
     obind (CheckEvent (sreg s) evt) (\<lambda>sub.
       if \<not> sub then Ok s
       else obind (Alloc j (word_of_nat (length data + 1 + MESSAGE_XTRA_SPACE))) (\<lambda>m0.
            case msg_ptr m0 of None \<Rightarrow> Fault NullPointer
            | Some p \<Rightarrow>
              obind (memcpy_to p 0 [evt]) (\<lambda>p.
              obind (memcpy_to p 1 data) (\<lambda>p.
              obind (SetNew (server_nid s) (m0\<lparr>msg_ptr := Some p\<rparr>) (iop_code EVT_RESPONSE) None) (\<lambda>(m, n).
                Ok (push_outbound (s\<lparr>server_nid := n\<rparr>) m))))))"

text \<open>The two static variables of the sample event; what is emitted is the old \<^verbatim>\<open>a\<close>.\<close>

definition FibSeqEvt :: "junk \<Rightarrow> u8 \<Rightarrow> u64 \<times> u64 \<Rightarrow> 'c server \<Rightarrow> ((u64 \<times> u64) \<times> 'c server) outcome" where
  "FibSeqEvt j evt ab s =
     (let (a, b) = ab in obind (EmitEvent j evt (put64 a) s) (\<lambda>s'. Ok ((b, a + b), s')))"

section \<open>Threads\<close>

text \<open>
  \<^verbatim>\<open>StartThread\<close> up to the call of \<^verbatim>\<open>Authenticate\<close>: an invalid socket, a server that already
  serves a client (with the bytes sent to the refused one), or a client to authenticate. The
  text of the second error carries the peer's address \<open>ip\<close>.
\<close>

datatype start_phase = InvalidSocket | Busy bytes | MustAuthenticate

definition StartThread_begin :: "string \<Rightarrow> sock \<Rightarrow> 'c server \<Rightarrow> start_phase" where
  "StartThread_begin ip client s =
     (if \<not> ValidateSocket client then InvalidSocket
      else if \<not> server_receive_thread s then MustAuthenticate
      else Busy (SendErrorToClient ''Connection is not unique. Closing connection.''
        @ SendErrorToClient (''Wait for user at '' @ ip @ '' to disconnect and try again.'') @ IssueValidity 2))"

text \<open>The rest, after \<^verbatim>\<open>Authenticate\<close> returned: the result, the bytes sent and the state.\<close>

definition StartThread_finish :: "bool \<Rightarrow> sock \<Rightarrow> 'c server \<Rightarrow> bool \<times> bytes \<times> 'c server" where
  "StartThread_finish accepted client s =
     (if \<not> accepted then (False, [], s)
      else let s = s\<lparr>server_client_sock := client, server_running := True, server_receive_thread := True\<rparr>
           in if \<not> server_send_thread s
              then (True, IssueValidity 1, s\<lparr>server_send_thread := True\<rparr>)
              else (False, IssueValidity 1, s))"

text \<open>The end of the receiving thread, when \<^verbatim>\<open>recv\<close> returned 0 or less.\<close>

definition receive_exit :: "'c server \<Rightarrow> 'c server" where
  "receive_exit s = s\<lparr>server_running := False, server_client_sock := INVALID_SOCKET\<rparr>"

datatype StopMode = IMMEDIATE | WAIT

text \<open>
  \<^verbatim>\<open>StopThread\<close>; waiting for a running server is \<open>Blocked\<close>, and joining the receiving thread, whose
  socket was closed, lets it run to its end. The log entry is left to the database.
\<close>

definition StopThread :: "StopMode \<Rightarrow> 'c server \<Rightarrow> 'c server outcome" where
  "StopThread mode s =
     (let stop_send = (\<lambda>s. if server_send_thread s then s\<lparr>server_send_thread := False\<rparr> else s) in
      if server_receive_thread s then
        (if mode = WAIT \<and> server_running s then Blocked
         else if mode = WAIT \<and> stop_forced s then Ok s
         else let s = (if mode = WAIT then s else s\<lparr>stop_forced := True\<rparr>);
                  s = (receive_exit s)\<lparr>server_receive_thread := False\<rparr>
              in Ok (stop_send s))
      else Ok (stop_send s))"

definition GetConnectedClient :: "'c server \<Rightarrow> sock" where
  "GetConnectedClient s = server_client_sock s"

definition IsRunning :: "'c server \<Rightarrow> bool" where
  "IsRunning s = server_running s"

section \<open>Requests are answered\<close>

lemma SetCopyId_fresh:
  assumes "0 < length d" "length d < 2 ^ 31"
  shows "SetCopyId \<lparr>msg_op = a, msg_id = b, msg_size = word_of_nat (length d),
      msg_ptr = Some (new_array j (length d))\<rparr> opc i d = Ok (request opc i d)"
proof -
  have "0 < sint (word_of_nat (length d) :: i64)" "unat (word_of_nat (length d) :: i64) = length d"
    using assms by simp_all
  then show ?thesis by (simp add: SetCopyId_def memcpy_from_def request_def)
qed

lemma answer_ok:
  assumes "GetParamsFromData arg_size p (unat (msg_size msg)) = Ok ps" "Execute ps w = (r, w')"
    and "length r = SVReturn_size"
  shows "answer resp j arg_size Execute msg p s w =
    Ok (push_outbound s (request (iop_code resp) (msg_id msg) r), w')"
proof -
  have "Alloc j 1034 = Ok \<lparr>msg_op = junk_op j, msg_id = junk_id j, msg_size = word_of_nat (length r),
      msg_ptr = Some (new_array j (length r))\<rparr>"
    using Alloc_room [of 1025 j] assms(3) by simp
  then show ?thesis
    using assms SetCopyId_fresh [of r] by (simp add: answer_def)
qed

lemma request_ok:
  assumes "args_typed arg_size as" and "length (enc_call fc as) + 13 < 2 ^ 31"
    and "Execute \<lparr>fcode = fc, args = as\<rparr> w = (r, w')" and "length r = SVReturn_size"
    and "oper \<in> {SYNC_REQUEST, ASYNC_REQUEST}"
  shows "server_round j arg_size Execute (word_of_nat (length (enc_call fc as) + 9))
      (body (request (iop_code oper) i (enc_call fc as)) @ stale) s w =
    Ok (s\<lparr>outbound_data_queue := outbound_data_queue s @
          [request (iop_code (if oper = SYNC_REQUEST then SYNC_RESPONSE else ASYNC_RESPONSE)) i r]\<rparr>, w')"
proof -
  let ?m = "request (iop_code oper) i (enc_call fc as)"
  have ne: "enc_call fc as \<noteq> []" using length_put16 [of fc] by (auto simp: enc_call_def simp del: length_put16)
  have wf: "wf_msg ?m" using ne assms(2) by (intro wf_request) simp_all
  have sz: "(word_of_nat (length (enc_call fc as) + 9) :: u64) \<noteq> 0"
  proof -
    have "unat (word_of_nat (length (enc_call fc as) + 9) :: u64) = length (enc_call fc as) + 9"
      using assms(2) by (intro unat_of_small_nat) simp
    then show ?thesis by (metis add_is_0 unsigned_0 zero_neq_numeral)
  qed
  have d: "decode j (word_of_nat (length (enc_call fc as) + 9)) (body ?m @ stale) = Ok ?m"
    using decode_body [OF wf, of j stale] by simp
  have n: "unat (msg_size ?m) = length (enc_call fc as)" using assms(2) by (simp add: request_def)
  have ps: "GetParamsFromData arg_size (enc_call fc as) (length (enc_call fc as)) = Ok \<lparr>fcode = fc, args = as\<rparr>"
    using GetParams_enc_call [OF assms(1)] .
  have a: "answer resp j arg_size Execute ?m (enc_call fc as) s w = Ok (push_outbound s (request (iop_code resp) i r), w')" for resp
    using answer_ok [of arg_size "enc_call fc as" ?m "\<lparr>fcode = fc, args = as\<rparr>" Execute w r w' resp j s]
      ps n assms(3,4) by simp
  have "server_dispatch j arg_size Execute ?m s w =
      answer (if oper = SYNC_REQUEST then SYNC_RESPONSE else ASYNC_RESPONSE) j arg_size Execute ?m (enc_call fc as) s w"
    using assms(5) by (auto simp: server_dispatch_def)
  then show ?thesis
    using sz by (simp add: server_round_def d a push_outbound_def smq_push_def del: of_nat_add)
qed

text \<open>
  A decoded call request is executed exactly once, with the parameters the client encoded, and
  answered by exactly one message at the end of the send queue: the response to the kind of
  request, under the id of the request, carrying the result. Nothing else of the server changes.
\<close>

theorem request_answered:
  assumes "args_typed arg_size as" and "length (enc_call fc as) + 13 < 2 ^ 31"
    and "Execute \<lparr>fcode = fc, args = as\<rparr> w = (r, w')" and "length r = SVReturn_size"
    and "oper \<in> {SYNC_REQUEST, ASYNC_REQUEST}"
  shows "server_round j arg_size Execute (word_of_nat (length (enc_call fc as) + 9))
      (body (request (iop_code oper) i (enc_call fc as)) @ stale) s w =
    Ok (s\<lparr>outbound_data_queue := outbound_data_queue s @
          [request (iop_code (if oper = SYNC_REQUEST then SYNC_RESPONSE else ASYNC_RESPONSE)) i r]\<rparr>, w')"
  using assms by (rule request_ok)

definition exec_ex :: "nat execute" where
  "exec_ex ps n = (replicate 1025 (ucast (fcode ps)), n + 1)"

theorem request_answered_witness:
  "server_round j0 (\<lambda>_. None) exec_ex (word_of_nat 11) (body (request 2 7 (enc_call 5 [])) @ [1, 2]) (server_init 1 :: unit server) 0
     = Ok ((server_init 1)\<lparr>outbound_data_queue := [request 5 7 (replicate 1025 5)]\<rparr>, 1)"
  using request_answered [of "\<lambda>_. None" "[]" 5 exec_ex 0 "replicate 1025 5" 1 SYNC_REQUEST j0 7 "[1, 2]" "server_init 1"]
  by (simp add: args_typed_def enc_call_def exec_ex_def server_init_def)

section \<open>Events reach subscribers only\<close>

lemma blit_evt: "length p = length data + 1 \<Longrightarrow> blit (blit p 0 [e]) (Suc 0) data = e # data"
  by (cases p) (simp_all add: blit_def)

lemma EmitEvent_subscribed:
  assumes "CheckEvent (sreg s) e = Ok True" "length data + 14 < 2 ^ 31"
  shows "EmitEvent j e data s = Ok (s\<lparr>server_nid := server_nid s + 1,
    outbound_data_queue := outbound_data_queue s @ [request (iop_code EVT_RESPONSE) (server_nid s) (e # data)]\<rparr>)"
proof -
  let ?n = "length data + 1"
  have al: "Alloc j (word_of_nat (length data + 1 + MESSAGE_XTRA_SPACE)) =
      Ok \<lparr>msg_op = junk_op j, msg_id = junk_id j, msg_size = word_of_nat ?n, msg_ptr = Some (new_array j ?n)\<rparr>"
    using assms(2) Alloc_room [of ?n j] by simp
  have "0 < sint (word_of_nat ?n :: i64)" using assms(2) sint64_of_small_nat [of ?n] by simp
  then have sn: "SetNew k \<lparr>msg_op = junk_op j, msg_id = junk_id j, msg_size = word_of_nat ?n, msg_ptr = Some (e # data)\<rparr> opc None
      = Ok (request opc k (e # data), k + 1)" for k opc
    by (simp add: SetNew_def request_def Let_def)
  have c1: "memcpy_to (new_array j ?n) 0 [e] = Ok (blit (new_array j ?n) 0 [e])"
    by (simp add: memcpy_to_def)
  have c2: "memcpy_to (blit (new_array j ?n) 0 [e]) 1 data = Ok (e # data)"
    using blit_evt [of "new_array j ?n" data e] by (simp add: memcpy_to_def)
  show ?thesis
    by (simp only: EmitEvent_def assms(1) obind.simps al c1 c2 sn push_outbound_def smq_push_def
        DefaultMessage.simps option.case prod.case if_False not_True_eq_False) simp
qed

text \<open>
  An event is sent exactly while the client is subscribed to it: after the server has processed a
  subscription to a registered event, emitting it queues one event message with the event's number and data;
  after an unsubscription emitting it changes nothing; and other events keep their state.
\<close>

theorem events_follow_subscription:
  assumes "e \<le> MAX_SUB (sreg s)" and "length data + 14 < 2 ^ 31"
    and "server_dispatch j arg_size Execute (request (iop_code EVT_SUB) i [e]) s w = Ok (s1, w1)"
    and "server_dispatch j arg_size Execute (request (iop_code EVT_UNSUB) k [e]) s1 w1 = Ok (s2, w2)"
  shows "EmitEvent j e data s1 = Ok (s1\<lparr>server_nid := server_nid s1 + 1,
      outbound_data_queue := outbound_data_queue s1 @ [request (iop_code EVT_RESPONSE) (server_nid s1) (e # data)]\<rparr>)
    \<and> EmitEvent j e data s2 = Ok s2
    \<and> (\<forall>e'. e' \<noteq> e \<longrightarrow> CheckEvent (sreg s2) e' = CheckEvent (sreg s) e')"
proof -
  have 1: "s1 = s\<lparr>sreg := SetEvent (sreg s) e\<rparr>"
    using assms(3) by (simp add: server_dispatch_def request_def read_at_def)
  have 2: "s2 = s1\<lparr>sreg := UnsetEvent (sreg s1) e\<rparr>"
    using assms(4) by (simp add: server_dispatch_def request_def read_at_def)
  have m: "MAX_SUB (SetEvent (sreg s) e) = MAX_SUB (sreg s)" by (simp add: SetEvent_def)
  have "CheckEvent (sreg s1) e = Ok True" "CheckEvent (sreg s2) e = Ok False"
    using assms(1) m by (simp_all add: 1 2)
  note sub = this
  have "EmitEvent j e data s2 = Ok s2" using sub(2) by (simp add: EmitEvent_def)
  moreover have "\<forall>e'. e' \<noteq> e \<longrightarrow> CheckEvent (sreg s2) e' = CheckEvent (sreg s) e'" by (simp add: 1 2)
  ultimately show ?thesis using EmitEvent_subscribed [OF sub(1) assms(2)] by blast
qed

theorem events_follow_subscription_witness:
  "\<exists>s1 w1. server_dispatch j0 (\<lambda>_. None) exec_ex (request 7 3 [1]) (server_init 1 :: unit server) 0 = Ok (s1, w1)
     \<and> EmitEvent j0 1 [8] s1 = Ok (s1\<lparr>server_nid := server_nid s1 + 1,
         outbound_data_queue := outbound_data_queue s1 @ [request 8 (server_nid s1) [1, 8]]\<rparr>)"
proof -
  let ?s = "server_init 1 :: unit server"
  let ?s1 = "?s\<lparr>sreg := SetEvent (sreg ?s) 1\<rparr>" and ?s2 = "?s\<lparr>sreg := UnsetEvent (SetEvent (sreg ?s) 1) 1\<rparr>"
  have 1: "server_dispatch j0 (\<lambda>_. None) exec_ex (request (iop_code EVT_SUB) 3 [1]) ?s 0 = Ok (?s1, 0)"
    and 2: "server_dispatch j0 (\<lambda>_. None) exec_ex (request (iop_code EVT_UNSUB) 4 [1]) ?s1 0 = Ok (?s2, 0)"
    by (simp_all add: server_dispatch_def request_def read_at_def)
  have "1 \<le> MAX_SUB (sreg ?s)" by (simp add: server_init_def registry_init_def)
  then show ?thesis using events_follow_subscription [OF _ _ 1 2, of "[8]"] 1 by simp
qed

section \<open>The sample event\<close>

fun fib :: "nat \<Rightarrow> nat" where
  "fib 0 = 0"
| "fib (Suc 0) = 1"
| "fib (Suc (Suc n)) = fib n + fib (Suc n)"

fun fib_calls :: "junk \<Rightarrow> u8 \<Rightarrow> nat \<Rightarrow> u64 \<times> u64 \<Rightarrow> 'c server \<Rightarrow> ((u64 \<times> u64) \<times> 'c server) outcome" where
  "fib_calls j e 0 ab s = Ok (ab, s)"
| "fib_calls j e (Suc n) ab s = obind (FibSeqEvt j e ab s) (\<lambda>(ab', s'). fib_calls j e n ab' s')"

lemma fib_calls_from:
  assumes "CheckEvent (sreg s) e = Ok True"
  shows "\<exists>s' ms. fib_calls j e n (word_of_nat (fib k), word_of_nat (fib (Suc k))) s
      = Ok ((word_of_nat (fib (k + n)), word_of_nat (fib (Suc (k + n)))), s')
    \<and> outbound_data_queue s' = outbound_data_queue s @ ms
    \<and> map payload ms = map (\<lambda>i. e # put64 (word_of_nat (fib (k + i)))) [0..<n]"
  using assms
proof (induction n arbitrary: k s)
  case 0
  then show ?case by simp
next
  case (Suc n)
  let ?m = "request (iop_code EVT_RESPONSE) (server_nid s) (e # put64 (word_of_nat (fib k)))"
  let ?s = "s\<lparr>server_nid := server_nid s + 1, outbound_data_queue := outbound_data_queue s @ [?m]\<rparr>"
  have e: "EmitEvent j e (put64 (word_of_nat (fib k))) s = Ok ?s"
    using EmitEvent_subscribed [OF Suc.prems, of "put64 (word_of_nat (fib k))" j] by simp
  have f: "FibSeqEvt j e (word_of_nat (fib k), word_of_nat (fib (Suc k))) s
      = Ok ((word_of_nat (fib (Suc k)), word_of_nat (fib (Suc (Suc k)))), ?s)"
    by (simp add: FibSeqEvt_def e)
  have "CheckEvent (sreg ?s) e = Ok True" using Suc.prems by simp
  from Suc.IH [OF this, of "Suc k"] obtain s' ms where ih:
    "fib_calls j e n (word_of_nat (fib (Suc k)), word_of_nat (fib (Suc (Suc k)))) ?s
      = Ok ((word_of_nat (fib (Suc k + n)), word_of_nat (fib (Suc (Suc k + n)))), s')"
    "outbound_data_queue s' = outbound_data_queue ?s @ ms"
    "map payload ms = map (\<lambda>i. e # put64 (word_of_nat (fib (Suc k + i)))) [0..<n]" by blast
  have "[0..<Suc n] = 0 # map Suc [0..<n]" by (simp add: upt_conv_Cons map_Suc_upt del: upt_Suc)
  then have "map payload (?m # ms) = map (\<lambda>i. e # put64 (word_of_nat (fib (k + i)))) [0..<Suc n]"
    using ih(3) by (simp add: comp_def del: upt_Suc)
  moreover have "outbound_data_queue s' = outbound_data_queue s @ ?m # ms" using ih(2) by simp
  ultimately show ?case using ih(1) f by (auto simp del: fib.simps upt_Suc)
qed

text \<open>
  The sample event emits the Fibonacci sequence: the payload of the \<open>i\<close>-th emission is the event's
  number and the \<open>i\<close>-th Fibonacci number modulo \<open>2\<^sup>6\<^sup>4\<close>.
\<close>

theorem fib_event_sequence:
  assumes "CheckEvent (sreg s) e = Ok True"
  shows "\<exists>ab s' ms. fib_calls j e n (0, 1) s = Ok (ab, s') \<and> outbound_data_queue s' = outbound_data_queue s @ ms
    \<and> map payload ms = map (\<lambda>i. e # put64 (word_of_nat (fib i))) [0..<n]"
  using fib_calls_from [OF assms, of j n 0] by auto

theorem fib_event_sequence_witness:
  "\<exists>ab s' ms. fib_calls j0 1 5 (0, 1) ((server_init 1 :: unit server)\<lparr>sreg := SetEvent (registry_init 1) 1\<rparr>) = Ok (ab, s')
    \<and> outbound_data_queue s' = [] @ ms \<and> map payload ms = map (\<lambda>i. 1 # put64 (word_of_nat (fib i))) [0..<5]"
proof -
  let ?s = "(server_init 1 :: unit server)\<lparr>sreg := SetEvent (registry_init 1) 1\<rparr>"
  have "CheckEvent (sreg ?s) 1 = Ok True" by (simp add: registry_init_def)
  from fib_event_sequence [OF this, of j0 5] show ?thesis by (simp add: server_init_def)
qed

section \<open>One client at a time\<close>



text \<open>
  The exclusion does not hold for clients that log in at the same time: the check precedes the
  authentication and nothing is reserved in between. Both are then told that their connection is
  valid; the second replaces the first as the connected client, although the call that
  started it reports a failure, so that nothing will ever stop it.
\<close>

theorem concurrent_logins_both_valid:
  assumes "ValidateSocket c1" and "ValidateSocket c2" and "\<not> server_receive_thread s" and "\<not> server_send_thread s"
  shows "StartThread_begin ip c1 s = MustAuthenticate \<and> StartThread_begin ip c2 s = MustAuthenticate
    \<and> (\<exists>s1 s2. StartThread_finish True c1 s = (True, IssueValidity 1, s1)
        \<and> StartThread_finish True c2 s1 = (False, IssueValidity 1, s2) \<and> GetConnectedClient s2 = c2)"
  using assms by (simp add: StartThread_begin_def StartThread_finish_def GetConnectedClient_def Let_def)

theorem concurrent_logins_both_valid_witness:
  "\<exists>s1 s2. StartThread_finish True 5 (server_init 1 :: unit server) = (True, IssueValidity 1, s1)
     \<and> StartThread_finish True 6 s1 = (False, IssueValidity 1, s2) \<and> GetConnectedClient s2 = 6"
  using concurrent_logins_both_valid [of 5 6 "server_init 1 :: unit server"]
  by (simp add: ValidateSocket_def server_init_def)

text \<open>
  A forced stop leaves its mark: the wait of a later connection's end returns at once and
  keeps the receiving thread registered.
\<close>

lemma wait_after_forced_stop:
  "\<lbrakk>stop_forced s; server_receive_thread s; \<not> server_running s\<rbrakk> \<Longrightarrow> StopThread WAIT s = Ok s"
  by (simp add: StopThread_def)

end
