(* ===== verification/Client.thy ===== *)
theory Client
  imports Message Registry Sockets
begin

text \<open>
  The client of \<^verbatim>\<open>DCS_Network/src/client.cpp\<close>: the dispatch of decoded messages, the decoding
  loop at shutdown and the life cycle of its threads.
\<close>

section \<open>State\<close>

abbreviation C_WAIT :: u8 where "C_WAIT \<equiv> 0"
abbreviation C_VALID :: u8 where "C_VALID \<equiv> 1"
abbreviation C_INVALID :: u8 where "C_INVALID \<equiv> 2"

text \<open>\<open>called\<close> records the user callbacks that ran: callback, event data, user data.\<close>

record 'c client =
  client_receive_thread :: bool
  client_send_thread :: bool
  client_running :: bool
  conn_valid :: u8
  msgs :: messaging
  creg :: "'c registry"
  called :: "('c \<times> bytes \<times> 'c option) list"

definition client_init :: "u8 \<Rightarrow> 'c client" where
  "client_init n = \<lparr>client_receive_thread = False, client_send_thread = False, client_running = False,
     conn_valid = C_WAIT, msgs = messaging_init, creg = registry_init n, called = []\<rparr>"

section \<open>Dispatch\<close>

text \<open>The event case: look the callback up, then its user data, then call it on the data behind the event number.\<close>

definition on_event :: "bytes \<Rightarrow> 'c client \<Rightarrow> 'c client outcome" where
  "on_event p s =
     obind (read_at p 0) (\<lambda>evt_id.
     obind (GetEventCallback (creg s) evt_id) (\<lambda>cb.
     obind (GetEventUserData (creg s) evt_id) (\<lambda>ud.
       case cb of None \<Rightarrow> Fault NullPointer
       | Some f \<Rightarrow> Ok (s\<lparr>called := called s @ [(f, tl p, ud)]\<rparr>))))"

text \<open>The error case only prints, reading up to a terminator that has to be there.\<close>

definition client_dispatch :: "DefaultMessage \<Rightarrow> 'c client \<Rightarrow> 'c client outcome" where
  "client_dispatch msg s =
     (case msg_ptr msg of None \<Rightarrow> Fault NullPointer
      | Some p \<Rightarrow>
        if msg_op msg = iop_code NO_OP then Ok s
        else if msg_op msg = iop_code ASYNC_RESPONSE then obind (NotifyPromise (msgs s) msg) (\<lambda>m. Ok (s\<lparr>msgs := m\<rparr>))
        else if msg_op msg = iop_code SYNC_RESPONSE then obind (SetMsgIdCondition (msgs s) msg) (\<lambda>m. Ok (s\<lparr>msgs := m\<rparr>))
        else if msg_op msg = iop_code EVT_RESPONSE then on_event p s
        else if msg_op msg = iop_code EVT_UNSUB then Ok s
        else if msg_op msg = iop_code OP_ERROR then (if 0 \<in> set p then Ok s else Fault OutOfBounds)
        else if msg_op msg = iop_code CON_VALID then
          obind (read_at p 0) (\<lambda>v. Ok (s\<lparr>conn_valid := (if v = C_VALID then C_VALID else C_INVALID)\<rparr>))
        else Ok s)"

definition client_round :: "junk \<Rightarrow> u64 \<Rightarrow> bytes \<Rightarrow> 'c client \<Rightarrow> 'c client outcome" where
  "client_round j sz buf s =
     (if sz = 0 then Ok s else obind (decode j sz buf) (\<lambda>msg. client_dispatch msg s))"

text \<open>
  The decoding loop without the receiving thread: \<open>None\<close> when it has not ended after \<open>fuel\<close> rounds.
\<close>

fun client_decode_loop :: "nat \<Rightarrow> junk \<Rightarrow> bytes \<Rightarrow> byte_queue \<Rightarrow> 'c client \<Rightarrow> (byte_queue \<times> 'c client) outcome option" where
  "client_decode_loop 0 j stale q s = None"
| "client_decode_loop (Suc n) j stale q s =
     (if client_running s \<or> 0 < count q then
        (case fetchNextMsg q of
           Ok (d, sz, q') \<Rightarrow>
             (case client_round j sz (d @ stale) s of
                Ok s' \<Rightarrow> client_decode_loop n j stale q' s'
              | Fault e \<Rightarrow> Some (Fault e)
              | Blocked \<Rightarrow> Some Blocked)
         | Fault e \<Rightarrow> Some (Fault e)
         | Blocked \<Rightarrow> Some Blocked)
      else Some (Ok (q, s)))"

text \<open>
  The client's decoding loop goes on while bytes are buffered, but after the receiving thread has
  ended every fetch returns at once and takes nothing off the queue. So a connection that ends with
  as little as one byte undecoded makes the loop run for ever: no number of rounds ends it.
\<close>

theorem client_decode_never_ends:
  assumes "0 < count q"
  shows "client_decode_loop n j stale (notify_unblock q) s = None"
  using assms by (induction n) (simp_all add: client_round_def)

theorem client_decode_never_ends_witness:
  "client_decode_loop 1000 j0 [] (notify_unblock \<lparr>buffer = [1], internal_buff_size = 1, internal_buff_max_size = 1, ntf_unblock = False\<rparr>)
     (client_init 1 :: unit client) = None"
  by (rule client_decode_never_ends) (simp add: count_def)

section \<open>Threads\<close>

definition Client_StartThread_begin :: "sock \<Rightarrow> 'c client \<Rightarrow> 'c client option" where
  "Client_StartThread_begin k s =
     (if ValidateSocket k
      then Some (if \<not> client_receive_thread s then s\<lparr>client_running := True, client_receive_thread := True\<rparr> else s)
      else None)"

text \<open>The second half, which spins while the server has not said whether the connection is valid.\<close>

definition Client_StartThread_finish :: "'c client \<Rightarrow> (bool \<times> 'c client) outcome" where
  "Client_StartThread_finish s =
     (if \<not> client_send_thread s then
        if conn_valid s = C_WAIT then Blocked
        else if conn_valid s = C_INVALID
          then Ok (False, s\<lparr>client_running := False, client_receive_thread := False, conn_valid := C_WAIT\<rparr>)
          else Ok (True, s\<lparr>client_send_thread := True\<rparr>)
      else Ok (True, s))"

text \<open>The end of the receiving thread, when \<^verbatim>\<open>recv\<close> returned 0 or less.\<close>

definition client_receive_exit :: "'c client \<Rightarrow> 'c client" where
  "client_receive_exit s = s\<lparr>client_running := False, conn_valid := C_WAIT\<rparr>"

definition Client_StopThread :: "sock \<Rightarrow> net \<Rightarrow> 'c client \<Rightarrow> net \<times> 'c client" where
  "Client_StopThread k n s =
     (let (n, s) = (if client_receive_thread s
                    then (if client_running s \<and> ValidateSocket k then closesocket k n else n,
                          (client_receive_exit s)\<lparr>client_receive_thread := False\<rparr>)
                    else (n, s))
      in (n, if client_send_thread s then s\<lparr>client_send_thread := False\<rparr> else s))"

definition GetMillisLatency :: "'c client \<Rightarrow> i16" where
  "GetMillisLatency s = 0"

lemma valid_connection:
  assumes "client_dispatch (request (iop_code CON_VALID) i [C_VALID]) s = Ok s'" "\<not> client_send_thread s"
  shows "Client_StartThread_finish s' = Ok (True, s'\<lparr>client_send_thread := True\<rparr>)"
  using assms by (auto simp: client_dispatch_def read_at_def Client_StartThread_finish_def)

text \<open>
  How a start ends: it succeeds when the server marks the connection valid, it fails and leaves no thread
  behind when the server marks it invalid, and when the connection ends before either mark it spins,
  because the end of the receiving thread resets the state that the start waits to see change.
\<close>

theorem client_start:
  assumes "Client_StartThread_begin k s = Some s1" and "\<not> client_send_thread s" and "conn_valid s = C_WAIT"
    and "client_dispatch (request (iop_code CON_VALID) i [v]) s1 = Ok s2"
  shows "Client_StartThread_finish s2 =
      (if v = C_VALID then Ok (True, s2\<lparr>client_send_thread := True\<rparr>)
       else Ok (False, s2\<lparr>client_running := False, client_receive_thread := False, conn_valid := C_WAIT\<rparr>))
    \<and> Client_StartThread_finish (client_receive_exit s1) = Blocked"
  using assms
  by (auto simp: Client_StartThread_begin_def client_dispatch_def read_at_def Client_StartThread_finish_def
      client_receive_exit_def split: if_splits)

theorem client_start_witness:
  "\<exists>s2. client_dispatch (request 11 0 [1]) ((client_init 1 :: unit client)\<lparr>client_running := True, client_receive_thread := True\<rparr>) = Ok s2
     \<and> Client_StartThread_finish s2 = Ok (True, s2\<lparr>client_send_thread := True\<rparr>)"
proof -
  let ?s = "client_init 1 :: unit client"
  let ?s1 = "?s\<lparr>client_running := True, client_receive_thread := True\<rparr>"
  have 1: "Client_StartThread_begin 5 ?s = Some ?s1"
    by (simp add: Client_StartThread_begin_def ValidateSocket_def client_init_def)
  obtain s2 where 2: "client_dispatch (request (iop_code CON_VALID) 0 [1]) ?s1 = Ok s2"
    by (simp add: client_dispatch_def read_at_def)
  show ?thesis using client_start [OF 1 _ _ 2] 2 by (auto simp: client_init_def)
qed

section \<open>Futures and removed callbacks\<close>

text \<open>\<^verbatim>\<open>AsyncItem\<close>: the future of the call with id \<open>i\<close>; its value can be read any number of times.\<close>

definition AsyncItem_wait :: "u64 \<Rightarrow> messaging \<Rightarrow> unit outcome" where
  "AsyncItem_wait i st = (case futures st i of None \<Rightarrow> Blocked | Some v \<Rightarrow> Ok ())"

definition AsyncItem_get :: "u64 \<Rightarrow> messaging \<Rightarrow> bytes outcome" where
  "AsyncItem_get i st = (case futures st i of None \<Rightarrow> Blocked | Some v \<Rightarrow> Ok v)"

lemma AsyncItem_get_after_wait: "AsyncItem_wait i st = Ok () \<Longrightarrow> \<exists>v. AsyncItem_get i st = Ok v"
  by (auto simp: AsyncItem_wait_def AsyncItem_get_def split: option.splits)

text \<open>
  \<^verbatim>\<open>RemoveEvent\<close> takes the callback out at once, before the server has seen the unsubscription: an event that is already on its way then
  makes \<^verbatim>\<open>at\<close> throw in the decoding thread.
\<close>

lemma event_after_removal_faults:
  assumes "e \<le> MAX_SUB (creg c)"
  shows "client_dispatch (request (iop_code EVT_RESPONSE) i (e # data)) (c\<lparr>creg := snd (RemoveEvent (creg c) e)\<rparr>) = Fault OutOfRange"
  using assms by (simp add: client_dispatch_def on_event_def read_at_def RemoveEvent_def GetEventCallback_def)

end
