(* ===== verification/Outbox.thy ===== *)
theory Outbox
  imports Server Client Systems
begin

text \<open>
  The typing of messages. The \<^verbatim>\<open>size\<close> of a \<^verbatim>\<open>DefaultMessage\<close> is meant to be the length of the array behind \<^verbatim>\<open>ptr\<close>, and
  every \<^verbatim>\<open>memcpy\<close> and every \<^verbatim>\<open>SendData\<close> of the message layer relies on it. Here: every operation that makes or changes a
  message keeps this, so every message that the server or the client ever queues can be sent without reading
  outside its array.
\<close>

definition sized_msg :: "DefaultMessage \<Rightarrow> bool" where
  "sized_msg m \<longleftrightarrow> (\<exists>p. msg_ptr m = Some p \<and> msg_size m = word_of_nat (length p) \<and> length p < 2 ^ 31)"

lemma sized_msgE:
  assumes "sized_msg m"
  obtains p where "msg_ptr m = Some p" "msg_size m = word_of_nat (length p)" "unat (msg_size m) = length p" "length p < 2 ^ 31"
    "sint (msg_size m) = int (length p)"
  using assms by (auto simp: sized_msg_def)

lemma sized_fields [simp]:
  "sized_msg (m\<lparr>msg_op := a\<rparr>) = sized_msg m" "sized_msg (m\<lparr>msg_id := i\<rparr>) = sized_msg m"
  "sized_msg (m\<lparr>msg_op := a, msg_id := i\<rparr>) = sized_msg m"
  by (simp_all add: sized_msg_def)

section \<open>One lemma per operation\<close>

lemma Alloc_sized:
  assumes "Alloc j n = Ok m"
  shows "sized_msg m"
proof -
  define sz where "sz = (scast n :: i64) - 1 - 8"
  have m: "\<not> sint sz < 0" "msg_size m = sz" "msg_ptr m = Some (new_array j (unat sz))"
    using assms by (auto simp: Alloc_def Let_def sz_def split: if_splits)
  have b: "- (2 ^ 31) \<le> sint n" "sint n < 2 ^ 31" using sint_greater_eq [of n] sint_less [of n] by simp_all
  have "sz = word_of_int (sint n - 9)" by (simp add: sz_def)
  moreover have "signed_take_bit 63 (sint n - 9) = sint n - 9" using b by (intro signed_take_bit_int_eq_self) auto
  ultimately have s: "sint sz = sint n - 9" by (simp only: sint_of_int64)
  then have "sz = word_of_nat (nat (sint n - 9))" using m(1) \<open>sz = word_of_int (sint n - 9)\<close> by simp
  moreover have "nat (sint n - 9) < 2 ^ 31" using b by auto
  ultimately have "unat sz < 2 ^ 31" by (simp add: unat_of_nat)
  then show ?thesis using m by (simp add: sized_msg_def)
qed

lemma fill_ptr_sized: "fill_ptr m d = Ok m' \<Longrightarrow> sized_msg m \<Longrightarrow> sized_msg m'"
  by (auto simp: fill_ptr_def memcpy_to_def sized_msg_def split: option.splits if_splits)

lemma SetCopyIdAndCode_sized: "SetCopyIdAndCode m d = Ok m' \<Longrightarrow> sized_msg m \<Longrightarrow> sized_msg m'"
  by (auto simp: SetCopyIdAndCode_def outcome_simps split: if_splits dest!: fill_ptr_sized)

lemma SetCopyId_sized: "SetCopyId m a i d = Ok m' \<Longrightarrow> sized_msg m \<Longrightarrow> sized_msg m'"
  by (auto simp: SetCopyId_def outcome_simps split: if_splits dest!: fill_ptr_sized)

lemma SetNew_sized: "SetNew k m a d = Ok (m', k') \<Longrightarrow> sized_msg m \<Longrightarrow> sized_msg m'"
  by (auto simp: SetNew_def Let_def outcome_simps split: if_splits option.splits dest!: fill_ptr_sized)

lemma decode_sized: "decode j sz buf = Ok m \<Longrightarrow> sized_msg m"
  by (auto simp: decode_def outcome_simps dest!: Alloc_sized SetCopyIdAndCode_sized)

lemma Copy_sized:
  assumes "Copy m = Ok c" "sized_msg m"
  shows "msg_ptr c = None \<or> sized_msg c"
  using assms(2)
proof (rule sized_msgE)
  fix p assume "msg_ptr m = Some p" "msg_size m = word_of_nat (length p)" "unat (msg_size m) = length p" "length p < 2 ^ 31"
  then show ?thesis using assms(1) by (auto simp: Copy_def memcpy_from_def sized_msg_def split: if_splits)
qed

lemma transmit_sized:
  assumes "sized_msg m"
  shows "\<exists>d. transmit m = Ok d \<and> length d = 13 + length (payload m)"
  using assms
proof (rule sized_msgE)
  fix p assume "msg_ptr m = Some p" "unat (msg_size m) = length p"
  then show ?thesis by (simp add: transmit_def memcpy_from_def payload_def)
qed

section \<open>The server's queue\<close>

text \<open>What changes the queue: the dispatch of a decoded message, an event of any thread, and the sending thread's \<^verbatim>\<open>pop\<close>.\<close>

datatype srv_traffic = Arrived u64 bytes | Emitted u8 bytes | Popped

fun traffic_exec :: "junk \<Rightarrow> (u8 \<Rightarrow> nat option) \<Rightarrow> 'w execute \<Rightarrow> srv_traffic \<Rightarrow> 'c server \<times> 'w \<Rightarrow> ('c server \<times> 'w) outcome" where
  "traffic_exec j arg_size Execute (Arrived sz buf) (s, w) = server_round j arg_size Execute sz buf s w"
| "traffic_exec j arg_size Execute (Emitted e d) (s, w) = obind (EmitEvent j e d s) (\<lambda>s'. Ok (s', w))"
| "traffic_exec j arg_size Execute Popped (s, w) =
     obind (smq_pop msg_zero (outbound_data_queue s) None) (\<lambda>(m, q). Ok (s\<lparr>outbound_data_queue := q\<rparr>, w))"

definition queue_sized :: "'c server \<Rightarrow> bool" where
  "queue_sized s \<longleftrightarrow> list_all sized_msg (outbound_data_queue s)"

lemma push_outbound_sized [simp]: "queue_sized (push_outbound s m) \<longleftrightarrow> queue_sized s \<and> sized_msg m"
  by (auto simp: queue_sized_def push_outbound_def smq_push_def)

lemma queue_sized_frame [simp]: "queue_sized (s\<lparr>sreg := r\<rparr>) = queue_sized s" "queue_sized (s\<lparr>server_nid := k\<rparr>) = queue_sized s"
  by (simp_all add: queue_sized_def)

lemma answer_sized: "answer resp j arg_size Execute msg p s w = Ok (s', w') \<Longrightarrow> queue_sized s \<Longrightarrow> queue_sized s'"
  by (auto simp: answer_def outcome_simps Let_def case_prod_unfold dest!: Alloc_sized SetCopyId_sized)

lemma server_dispatch_sized:
  assumes "server_dispatch j arg_size Execute msg s w = Ok (s', w')" "queue_sized s"
  shows "queue_sized s'"
proof -
  obtain p where p: "msg_ptr msg = Some p" using assms(1) by (cases "msg_ptr msg") (simp_all add: server_dispatch_def)
  have sub: "queue_sized s'" if "obind (read_at p 0) (\<lambda>e. Ok (s\<lparr>sreg := f e\<rparr>, w)) = Ok (s', w')" for f
    using that assms(2) by (auto elim!: obind_OkE)
  show ?thesis
    using assms(1) unfolding server_dispatch_def p option.case
    by (simp only: split: if_splits) (use assms(2) in \<open>auto simp: answer_sized [OF _ assms(2)] sub\<close>)
qed

lemma server_round_sized:
  assumes "server_round j arg_size Execute sz buf s w = Ok (s', w')" "queue_sized s"
  shows "queue_sized s'"
proof (cases "sz = 0")
  case False
  then obtain m where "server_dispatch j arg_size Execute m s w = Ok (s', w')"
    using assms(1) by (auto simp: server_round_def elim!: obind_OkE)
  then show ?thesis using assms(2) by (rule server_dispatch_sized)
qed (use assms in \<open>simp add: server_round_def\<close>)

lemma EmitEvent_sized:
  assumes "EmitEvent j e d s = Ok s'" "queue_sized s"
  shows "queue_sized s'"
proof -
  have sz: "sized_msg (m\<lparr>msg_ptr := Some p2\<rparr>)"
    if "Alloc j n = Ok m" "msg_ptr m = Some p" "memcpy_to p 0 [e] = Ok p1" "memcpy_to p1 1 d = Ok p2" for n m p p1 p2
    using Alloc_sized [OF that(1)] that(2-4) by (auto simp: sized_msg_def memcpy_to_def split: if_splits)
  show ?thesis using assms
    by (auto simp: EmitEvent_def outcome_simps simp del: of_nat_add split: if_splits option.splits dest!: SetNew_sized sz)
qed

interpretation outbox: invariant_commands "traffic_exec j arg_size Execute" "\<lambda>(s, w). queue_sized s"
  for j arg_size and Execute :: "'w execute"
proof
  fix c and t t' :: "'c server \<times> 'w"
  assume e: "traffic_exec j arg_size Execute c t = Ok t'" and i: "case t of (s, w) \<Rightarrow> queue_sized s"
  obtain s w s' w' where t: "t = (s, w)" "t' = (s', w')" by (cases t, cases t')
  show "case t' of (s, w) \<Rightarrow> queue_sized s"
  proof (cases c)
    case (Arrived sz buf)
    then show ?thesis using e i t server_round_sized by fastforce
  next
    case (Emitted ev d)
    then show ?thesis using e i t EmitEvent_sized by (fastforce simp: outcome_simps)
  next
    case Popped
    then show ?thesis using e i t
      by (cases "outbound_data_queue s") (auto simp: queue_sized_def)
  qed
qed

text \<open>
  C13. Whatever packets arrive, however they are formed, whatever the registered functions return and whatever events are
  emitted: as long as the threads run without a fault, every message in the server's queue has the size of its array, and
  sending it reads exactly its array.
\<close>

theorem server_queue_typed:
  assumes "run_cmds (traffic_exec j arg_size Execute) cs (server_init n, w) = Ok (s, w')" and "m \<in> set (outbound_data_queue s)"
  shows "sized_msg m \<and> (\<exists>d. transmit m = Ok d \<and> length d = 13 + length (payload m))"
proof -
  have "queue_sized (server_init n)" by (simp add: queue_sized_def server_init_def)
  then have "queue_sized s" using outbox.run_inv [OF assms(1)] by simp
  then have "sized_msg m" using assms(2) by (auto simp: queue_sized_def list_all_iff)
  then show ?thesis using transmit_sized by blast
qed

theorem server_queue_typed_witness:
  "\<exists>s m. run_cmds (traffic_exec j0 (\<lambda>_. None) exec_ex) [Arrived 10 (body (request 7 0 [1])), Emitted 1 [8]] (server_init 1 :: unit server, 0) = Ok (s, 0)
     \<and> outbound_data_queue s = [m] \<and> payload m = [1, 8] \<and> sized_msg m"
proof -
  let ?s = "server_init 1 :: unit server"
  let ?s1 = "?s\<lparr>sreg := SetEvent (sreg ?s) 1\<rparr>" and ?m = "request (iop_code EVT_RESPONSE) 0 [1, 8]"
  have "decode j0 (word_of_nat (length (body (request 7 0 [1])))) (body (request 7 0 [1]) @ []) = Ok (request 7 0 [1])"
    by (rule decode_body) (simp add: wf_request)
  then have 1: "server_round j0 (\<lambda>_. None) exec_ex 10 (body (request 7 0 [1])) ?s 0 = Ok (?s1, 0)"
    by (simp add: server_round_def server_dispatch_def read_at_def)
  have "CheckEvent (sreg ?s1) 1 = Ok True" by (simp add: server_init_def registry_init_def)
  from EmitEvent_subscribed [OF this, of "[8]" j0]
  have 2: "EmitEvent j0 1 [8] ?s1 = Ok (?s1\<lparr>server_nid := 1, outbound_data_queue := [?m]\<rparr>)"
    by (simp add: server_init_def)
  have r: "run_cmds (traffic_exec j0 (\<lambda>_. None) exec_ex) [Arrived 10 (body (request 7 0 [1])), Emitted 1 [8]] (?s, 0)
      = Ok (?s1\<lparr>server_nid := 1, outbound_data_queue := [?m]\<rparr>, 0)" by (simp add: 1 2)
  have "sized_msg ?m" using server_queue_typed [OF r, of ?m] by simp
  then show ?thesis using r by auto
qed

section \<open>The client's queue and slot\<close>

datatype cl_traffic = Requested Operation bytes i32 | Called Operation bytes i32 | Response u64 bytes | Taken

fun client_exec :: "junk \<Rightarrow> cl_traffic \<Rightarrow> 'c client \<Rightarrow> 'c client outcome" where
  "client_exec j (Requested oper d n) c = obind (SendSync_schedule j oper d n (msgs c)) (\<lambda>(i, m). Ok (c\<lparr>msgs := m\<rparr>))"
| "client_exec j (Called oper d n) c = obind (SendAsync j oper d n (msgs c)) (\<lambda>(i, m). Ok (c\<lparr>msgs := m\<rparr>))"
| "client_exec j (Response sz buf) c = client_round j sz buf c"
| "client_exec j Taken c =
     obind (smq_pop msg_zero (outbound (msgs c)) None) (\<lambda>(m, q). Ok (c\<lparr>msgs := (msgs c)\<lparr>outbound := q\<rparr>\<rparr>))"

definition messaging_sized :: "messaging \<Rightarrow> bool" where
  "messaging_sized st \<longleftrightarrow> list_all sized_msg (outbound st) \<and> (msg_ptr (lmessage st) = None \<or> sized_msg (lmessage st))"

lemma send_request_sized:
  assumes "send_request x j oper d n st = Ok (i, st')" "messaging_sized st"
  shows "messaging_sized st'"
  using assms
  by (auto simp: send_request_def Let_def outcome_simps ScheduleTransmission_def smq_push_def messaging_sized_def
      dest!: Alloc_sized SetNew_sized)

lemma client_round_sized:
  assumes "client_round j sz buf c = Ok c'" "messaging_sized (msgs c)"
  shows "messaging_sized (msgs c')"
proof (cases "sz = 0")
  case False
  then obtain m where m: "decode j sz buf = Ok m" "client_dispatch m c = Ok c'"
    using assms(1) by (auto simp: client_round_def outcome_simps)
  note sm = decode_sized [OF m(1)]
  have slot: "messaging_sized st'" if "SetMsgIdCondition (msgs c) m = Ok st'" for st'
    using that assms(2) Copy_sized [OF _ sm] by (auto simp: SetMsgIdCondition_def Let_def outcome_simps messaging_sized_def)
  have prom: "messaging_sized st'" if "NotifyPromise (msgs c) m = Ok st'" for st'
    using that assms(2) by (auto simp: NotifyPromise_def outcome_simps messaging_sized_def split: if_splits option.splits)
  have evt: "messaging_sized (msgs c')" if "on_event p c = Ok c'" for p
    using that assms(2) by (auto simp: on_event_def outcome_simps split: option.splits)
  show ?thesis using m(2) assms(2)
    by (auto simp: client_dispatch_def outcome_simps split: if_splits option.splits dest: slot prom evt)
qed (use assms in \<open>simp add: client_round_def\<close>)

interpretation slots: invariant_commands "client_exec j" "\<lambda>c. messaging_sized (msgs c)" for j
proof
  fix t and c c' :: "'c client"
  assume e: "client_exec j t c = Ok c'" and i: "messaging_sized (msgs c)"
  show "messaging_sized (msgs c')"
  proof (cases t)
    case (Response sz buf)
    then show ?thesis using e i client_round_sized by simp
  next
    case Taken
    then show ?thesis using e i by (cases "outbound (msgs c)") (auto simp: messaging_sized_def)
  qed (use e i in \<open>auto simp: outcome_simps SendSync_schedule_def SendAsync_def SendAsync_schedule_def
      SendAsync_register_def messaging_sized_def dest!: send_request_sized\<close>)
qed

text \<open>
  C14. The same on the client's side, for requests of any length and packets of any form: every message that waits to be sent
  and the response that waits for its caller have the size of their array.
\<close>

theorem client_messages_typed:
  assumes "run_cmds (client_exec j) cs (client_init n) = Ok c"
  shows "list_all sized_msg (outbound (msgs c)) \<and> (msg_ptr (lmessage (msgs c)) = None \<or> sized_msg (lmessage (msgs c)))"
proof -
  have "messaging_sized (msgs (client_init n))"
    by (simp add: messaging_sized_def client_init_def messaging_init_def msg_zero_def)
  then show ?thesis using slots.run_inv [OF assms] by (simp add: messaging_sized_def)
qed

theorem client_messages_typed_witness:
  "\<exists>c. run_cmds (client_exec j0) [Requested Op_REQUEST [1, 2] 2] (client_init 1 :: unit client) = Ok c
     \<and> outbound (msgs c) = [request 2 0 [1, 2]] \<and> list_all sized_msg (outbound (msgs c))"
proof -
  let ?c = "client_init 1 :: unit client"
  have "send_request 1 j0 Op_REQUEST [1, 2] (word_of_nat (length [1 :: u8, 2])) (msgs ?c)
      = Ok (0, messaging_init\<lparr>nid := 1, outbound := [request 2 0 [1, 2]]\<rparr>)"
    by (subst send_request_ok) (simp_all add: client_init_def messaging_init_def)
  then have r: "run_cmds (client_exec j0) [Requested Op_REQUEST [1, 2] 2] ?c
      = Ok (?c\<lparr>msgs := messaging_init\<lparr>nid := 1, outbound := [request 2 0 [1, 2]]\<rparr>\<rparr>)"
    by (simp add: SendSync_schedule_def)
  show ?thesis using client_messages_typed [OF r] r by simp
qed

end
