(* ===== verification/Peaks.thy ===== *)
theory Peaks
  imports Prelude
begin

text \<open>
  Peak counting, \<^verbatim>\<open>DCS_Core/src/math.cpp\<close>, over any linearly ordered type of samples with a zero; only
  comparisons are used, so no rounding is involved. The loops are those of the source, on indices.
\<close>

section \<open>The counter\<close>

record 'a CountResult =
  num_detected :: nat
  maximizers :: "nat list"
  maxima :: "'a list"

text \<open>The inner \<^verbatim>\<open>while\<close>: index, \<^verbatim>\<open>discard\<close>, \<^verbatim>\<open>localMaximum\<close> and \<^verbatim>\<open>localMaximizer\<close> at its end.\<close>

function peak_while :: "('a::linorder) list \<Rightarrow> 'a \<Rightarrow> 'a \<Rightarrow> nat \<Rightarrow> bool \<Rightarrow> 'a \<Rightarrow> nat \<Rightarrow> nat \<times> bool \<times> 'a \<times> nat" where
  "peak_while arr vlo vhi i discard lm lmx =
     (if i < length arr \<and> vlo < arr ! i then
        let discard' = (discard \<or> vhi < arr ! i) in
        if lm < arr ! i then peak_while arr vlo vhi (i + 1) discard' (arr ! i) (i + 1)
        else peak_while arr vlo vhi (i + 1) discard' lm lmx
      else (i, discard, lm, lmx))"
  by pat_completeness auto

termination peak_while
  by (relation "measure (\<lambda>(arr, _, _, i, _). length arr - i)") auto

declare peak_while.simps [simp del]

lemma peak_while_fst: "i \<le> fst (peak_while arr vlo vhi i d lm lmx)"
proof (induction arr vlo vhi i d lm lmx rule: peak_while.induct)
  case (1 arr vlo vhi i d lm lmx)
  show ?case
  proof (cases "i < length arr \<and> vlo < arr ! i")
    case True
    with 1 show ?thesis by (subst peak_while.simps) (auto simp: Let_def dest: Suc_leD)
  next
    case False
    then show ?thesis by (subst peak_while.simps) auto
  qed
qed

lemma peak_while_ge: "peak_while arr vlo vhi i d lm lmx = (i', d', lm', lmx') \<Longrightarrow> i \<le> i'"
  using peak_while_fst [of i arr vlo vhi d lm lmx] by simp

text \<open>The \<^verbatim>\<open>for\<close> loop; its own increment follows every round.\<close>

function peak_for :: "('a::{linorder,zero}) list \<Rightarrow> 'a \<Rightarrow> 'a \<Rightarrow> nat \<Rightarrow> bool \<Rightarrow> nat \<Rightarrow> 'a CountResult \<Rightarrow> 'a CountResult" where
  "peak_for arr vlo vhi i waitDescent lmx res =
     (if i < length arr then
        if waitDescent \<and> vlo < arr ! i then peak_for arr vlo vhi (i + 1) True lmx res
        else if vhi < arr ! i then peak_for arr vlo vhi (i + 1) True lmx res
        else if arr ! i \<le> vlo then peak_for arr vlo vhi (i + 1) False lmx res
        else let (i', discard, lm, lmx') = peak_while arr vlo vhi i False 0 lmx in
             peak_for arr vlo vhi (i' + 1) False lmx'
               (if discard then res
                else res\<lparr>maxima := maxima res @ [lm], maximizers := maximizers res @ [lmx']\<rparr>)
      else res)"
  by pat_completeness auto

termination peak_for
  by (relation "measure (\<lambda>(arr, _, _, i, _). length arr - i)")
    (auto dest: peak_while_ge [OF sym])

declare peak_for.simps [simp del]

definition countPacketCore :: "('a::{linorder,zero}) list \<Rightarrow> 'a \<Rightarrow> 'a \<Rightarrow> 'a \<Rightarrow> 'a CountResult" where
  "countPacketCore arr vlo vhi vth =
     (let r = peak_for arr vlo vhi 0 False 0 \<lparr>num_detected = 0, maximizers = [], maxima = []\<rparr>
      in r\<lparr>num_detected := length (maxima r)\<rparr>)"

definition countArrayPeak :: "('a::{linorder,zero}) list \<Rightarrow> 'a \<Rightarrow> 'a \<Rightarrow> 'a \<Rightarrow> 'a CountResult" where
  "countArrayPeak arr vlo vhi vth = countPacketCore arr vlo vhi vth"

section \<open>The specification\<close>

text \<open>
  A pulse is a maximal run of samples above \<open>vlo\<close>. It counts when none of its samples is above
  \<open>vhi\<close>; it is reported with its maximum and the one-based index of the first sample that attains it.
\<close>

definition first_max :: "('a::linorder) list \<Rightarrow> nat" where
  "first_max r = length (takeWhile (\<lambda>y. y < Max (set r)) r)"

function pulses :: "('a::linorder) \<Rightarrow> 'a \<Rightarrow> 'a list \<Rightarrow> nat \<Rightarrow> ('a \<times> nat) list" where
  "pulses vlo vhi [] k = []"
| "pulses vlo vhi (x # xs) k =
     (if x \<le> vlo then pulses vlo vhi xs (k + 1)
      else let r = takeWhile (\<lambda>y. vlo < y) (x # xs) in
        (if \<forall>y \<in> set r. y \<le> vhi then [(Max (set r), k + first_max r + 1)] else [])
          @ pulses vlo vhi (dropWhile (\<lambda>y. vlo < y) (x # xs)) (k + length r))"
  by pat_completeness auto

termination pulses
  by (relation "measure (\<lambda>(_, _, xs, _). length xs)") (auto simp: le_imp_less_Suc length_dropWhile_le)

section \<open>The counter meets the specification\<close>

fun scan :: "('a::linorder) list \<Rightarrow> nat \<Rightarrow> 'a \<Rightarrow> nat \<Rightarrow> 'a \<times> nat" where
  "scan [] i lm lmx = (lm, lmx)"
| "scan (x # xs) i lm lmx = (if lm < x then scan xs (i + 1) x (i + 1) else scan xs (i + 1) lm lmx)"

lemma first_max_Cons:
  "xs \<noteq> [] \<Longrightarrow> first_max (x # xs) = (if x < Max (set xs) then Suc (first_max xs) else 0)"
  using less_imp_le [of x "Max (set xs)"] by (auto simp add: first_max_def max_def)

lemma scan_max:
  "scan r i lm lmx = (if r = [] \<or> Max (set r) \<le> lm then (lm, lmx) else (Max (set r), i + first_max r + 1))"
proof (induction r arbitrary: i lm lmx)
  case Nil
  then show ?case by simp
next
  case (Cons x xs)
  show ?case
  proof (cases "xs = []")
    case True
    then show ?thesis by (auto simp: first_max_def)
  next
    case False
    define M where "M = Max (set xs)"
    have m: "Max (set (x # xs)) = max x M" using False by (simp add: M_def)
    have f: "first_max (x # xs) = (if x < M then Suc (first_max xs) else 0)"
      using first_max_Cons [OF False] by (simp add: M_def)
    have ih: "scan xs (i + 1) a b = (if M \<le> a then (a, b) else (M, i + 1 + first_max xs + 1))" for a b
      using Cons False by (simp only: M_def simp_thms)
    show ?thesis
      unfolding m f scan.simps ih by (auto simp: max_def)
  qed
qed

lemma peak_while_scan:
  "peak_while arr vlo vhi i d lm lmx =
     (let r = takeWhile (\<lambda>y. vlo < y) (drop i arr) in
      (i + length r, d \<or> (\<exists>y \<in> set r. vhi < y), scan r i lm lmx))"
proof (induction arr vlo vhi i d lm lmx rule: peak_while.induct)
  case (1 arr vlo vhi i d lm lmx)
  show ?case
  proof (cases "i < length arr \<and> vlo < arr ! i")
    case True
    then have "drop i arr = arr ! i # drop (Suc i) arr" by (simp add: Cons_nth_drop_Suc)
    with True 1 show ?thesis by (subst peak_while.simps) (auto simp: Let_def)
  next
    case False
    then have "takeWhile (\<lambda>y. vlo < y) (drop i arr) = []"
      by (cases "i < length arr") (auto simp: Cons_nth_drop_Suc [symmetric])
    with False show ?thesis by (subst peak_while.simps) (auto simp: Let_def)
  qed
qed

text \<open>Waiting for the descent skips the rest of the run.\<close>

lemma peak_for_wait:
  "vlo \<le> vhi \<Longrightarrow> peak_for arr vlo vhi i True lmx res =
     peak_for arr vlo vhi (i + length (takeWhile (\<lambda>y. vlo < y) (drop i arr))) False lmx res"
proof (induction "length arr - i" arbitrary: i)
  case 0
  then show ?case by simp (simp add: peak_for.simps)
next
  case (Suc n)
  then have i: "i < length arr" by simp
  then have d: "drop i arr = arr ! i # drop (Suc i) arr" by (simp add: Cons_nth_drop_Suc)
  show ?case
  proof (cases "vlo < arr ! i")
    case True
    have "peak_for arr vlo vhi i True lmx res = peak_for arr vlo vhi (i + 1) True lmx res"
      using i True by (subst peak_for.simps) simp
    also have "\<dots> = peak_for arr vlo vhi (i + 1 + length (takeWhile (\<lambda>y. vlo < y) (drop (i + 1) arr))) False lmx res"
      using Suc by (intro Suc.hyps) simp_all
    finally show ?thesis using d True by simp
  next
    case False
    then have "\<not> vhi < arr ! i" using Suc.prems by (meson leD le_less_trans linorder_not_le)
    then show ?thesis using i False d by (subst (1 2) peak_for.simps) simp
  qed
qed

definition add_peaks :: "'a CountResult \<Rightarrow> ('a \<times> nat) list \<Rightarrow> 'a CountResult" where
  "add_peaks res ps = res\<lparr>maxima := maxima res @ map fst ps, maximizers := maximizers res @ map snd ps\<rparr>"

lemma add_peaks_simps [simp]:
  "add_peaks res [] = res"
  "add_peaks res (p # ps) = add_peaks (res\<lparr>maxima := maxima res @ [fst p], maximizers := maximizers res @ [snd p]\<rparr>) ps"
  by (simp_all add: add_peaks_def)

lemma pulses_drop:
  "pulses vlo vhi (dropWhile (\<lambda>y. vlo < y) xs) k = pulses vlo vhi (tl (dropWhile (\<lambda>y. vlo < y) xs)) (k + 1)"
proof (cases "dropWhile (\<lambda>y. vlo < y) xs")
  case Nil
  show ?thesis unfolding Nil by simp
next
  case (Cons y ys)
  then have "y \<le> vlo" by (metis dropWhile_eq_Cons_conv linorder_not_less)
  then show ?thesis unfolding Cons by simp
qed

lemma pulses_run:
  assumes "ys \<noteq> []" "vlo < hd ys"
  shows "pulses vlo vhi ys k =
    (let r = takeWhile (\<lambda>y. vlo < y) ys in
      (if \<forall>y \<in> set r. y \<le> vhi then [(Max (set r), k + first_max r + 1)] else [])
        @ pulses vlo vhi (dropWhile (\<lambda>y. vlo < y) ys) (k + length r))"
proof (cases ys)
  case Nil
  then show ?thesis using assms by simp
next
  case (Cons x xs)
  then have "\<not> x \<le> vlo" using assms by simp
  then show ?thesis unfolding Cons by (simp only: pulses.simps if_False)
qed

lemma peak_for_pulses:
  assumes "0 \<le> vlo" "vlo \<le> vhi"
  shows "peak_for arr vlo vhi i False lmx res = add_peaks res (pulses vlo vhi (drop i arr) i)"
proof (induction "length arr - i" arbitrary: i lmx res rule: less_induct)
  case less
  show ?case
  proof (cases "i < length arr")
    case False
    then show ?thesis by (subst peak_for.simps) simp
  next
    case i: True
    let ?r = "takeWhile (\<lambda>y. vlo < y) (drop i arr)"
    have d: "drop i arr = arr ! i # drop (Suc i) arr" using i by (simp add: Cons_nth_drop_Suc)
    have rest: "dropWhile (\<lambda>y. vlo < y) (drop i arr) = drop (i + length ?r) arr"
      by (simp add: dropWhile_eq_drop add.commute)
    consider (low) "arr ! i \<le> vlo" | (high) "vhi < arr ! i" | (mid) "vlo < arr ! i" "arr ! i \<le> vhi" by force
    then show ?thesis
    proof cases
      case low
      have "peak_for arr vlo vhi (i + 1) False lmx res = add_peaks res (pulses vlo vhi (drop (i + 1) arr) (i + 1))"
        using i by (intro less.hyps) simp
      with low assms i d show ?thesis by (subst peak_for.simps) auto
    next
      case high
      then have lo: "vlo < arr ! i" using assms by simp
      then have r: "?r = arr ! i # takeWhile (\<lambda>y. vlo < y) (drop (Suc i) arr)" using d by simp
      have bad: "\<not> (\<forall>y \<in> set ?r. y \<le> vhi)" using high r by auto
      have "peak_for arr vlo vhi i False lmx res = peak_for arr vlo vhi (i + 1) True lmx res"
        using i high by (subst peak_for.simps) simp
      also have "\<dots> = peak_for arr vlo vhi (i + length ?r) False lmx res"
        using peak_for_wait [OF assms(2), of arr "i + 1"] r by simp
      also have "\<dots> = add_peaks res (pulses vlo vhi (drop (i + length ?r) arr) (i + length ?r))"
        using i r by (intro less.hyps) simp
      also have "pulses vlo vhi (drop (i + length ?r) arr) (i + length ?r) = pulses vlo vhi (drop i arr) i"
        using pulses_run [of "drop i arr" vlo vhi i] lo i bad rest by (simp add: hd_drop_conv_nth Let_def)
      finally show ?thesis .
    next
      case mid
      then have r: "?r = arr ! i # takeWhile (\<lambda>y. vlo < y) (drop (Suc i) arr)" using d by simp
      then have ne: "?r \<noteq> []" by simp
      have "arr ! i \<in> set ?r" using r by (metis list.set_intros(1))
      then have "arr ! i \<le> Max (set ?r)" by simp
      then have pos: "\<not> Max (set ?r) \<le> 0" using mid assms by (meson leD le_less_trans linorder_not_le order_less_le_trans)
      have w: "peak_while arr vlo vhi i False 0 lmx =
          (i + length ?r, \<exists>y \<in> set ?r. vhi < y, Max (set ?r), i + first_max ?r + 1)"
        by (simp only: peak_while_scan scan_max Let_def ne pos simp_thms if_False)
      let ?res = "if \<exists>y \<in> set ?r. vhi < y then res
        else res\<lparr>maxima := maxima res @ [Max (set ?r)], maximizers := maximizers res @ [i + first_max ?r + 1]\<rparr>"
      have "peak_for arr vlo vhi i False lmx res = peak_for arr vlo vhi (i + length ?r + 1) False (i + first_max ?r + 1) ?res"
        using i mid w by (subst peak_for.simps) (simp add: not_less [symmetric])
      also have "\<dots> = add_peaks ?res (pulses vlo vhi (drop (i + length ?r + 1) arr) (i + length ?r + 1))"
        using i r by (intro less.hyps) simp
      also have "pulses vlo vhi (drop (i + length ?r + 1) arr) (i + length ?r + 1)
          = pulses vlo vhi (dropWhile (\<lambda>y. vlo < y) (drop i arr)) (i + length ?r)"
        by (subst pulses_drop) (simp add: rest tl_drop drop_Suc add.commute)
      also have "add_peaks ?res \<dots> = add_peaks res (pulses vlo vhi (drop i arr) i)"
        using pulses_run [of "drop i arr" vlo vhi i] mid(1) i
        by (auto simp: hd_drop_conv_nth Let_def not_less)
      finally show ?thesis .
    qed
  qed
qed

lemma count_pulses:
  assumes "0 \<le> vlo" "vlo \<le> vhi"
  shows "countArrayPeak arr vlo vhi vth =
    \<lparr>num_detected = length (pulses vlo vhi arr 0),
     maximizers = map snd (pulses vlo vhi arr 0), maxima = map fst (pulses vlo vhi arr 0)\<rparr>"
  using peak_for_pulses [OF assms, of arr 0 0]
  by (simp add: countArrayPeak_def countPacketCore_def add_peaks_def Let_def)

lemma pulses_range: "p \<in> set (pulses vlo vhi xs k) \<Longrightarrow> vlo < fst p \<and> fst p \<le> vhi"
proof (induction vlo vhi xs k rule: pulses.induct)
  case (1 vlo vhi k)
  then show ?case by simp
next
  case (2 vlo vhi x xs k)
  let ?r = "takeWhile (\<lambda>y. vlo < y) (x # xs)"
  show ?case
  proof (cases "x \<le> vlo")
    case True
    then show ?thesis using 2 by simp
  next
    case False
    then have "set ?r \<noteq> {}" by auto
    then have "Max (set ?r) \<in> set ?r" by (intro Max_in) simp_all
    then have "vlo < Max (set ?r)" by (meson set_takeWhileD)
    moreover have "p \<in> set (if \<forall>y \<in> set ?r. y \<le> vhi then [(Max (set ?r), k + first_max ?r + 1)] else [])
        \<or> p \<in> set (pulses vlo vhi (dropWhile (\<lambda>y. vlo < y) (x # xs)) (k + length ?r))"
      using 2(3) False by (simp only: pulses.simps if_False Let_def set_append Un_iff)
    ultimately show ?thesis
      using 2(2) [OF False refl] \<open>Max (set ?r) \<in> set ?r\<close> by (auto simp del: takeWhile.simps dropWhile.simps split: if_splits)
  qed
qed

lemma pulses_length: "length (pulses vlo vhi xs k) \<le> length xs"
proof (induction vlo vhi xs k rule: pulses.induct)
  case (1 vlo vhi k)
  then show ?case by simp
next
  case (2 vlo vhi x xs k)
  let ?r = "takeWhile (\<lambda>y. vlo < y) (x # xs)"
  show ?case
  proof (cases "x \<le> vlo")
    case True
    then show ?thesis using 2 by simp
  next
    case False
    then have gt: "vlo < x" by simp
    have "length (dropWhile (\<lambda>y. vlo < y) (x # xs)) \<le> length xs" using gt by (simp add: length_dropWhile_le)
    then show ?thesis using 2(2) [OF False refl] gt False by (simp add: Let_def)
  qed
qed

text \<open>
  C27. For limits with \<open>0 \<le> vlo \<le> vhi\<close> the counter detects exactly the pulses of the specification, in order,
  each with its maximum and the position of the first sample that attains it.
\<close>

theorem count_meets_specification:
  assumes "0 \<le> vlo" and "vlo \<le> vhi"
  shows "countArrayPeak arr vlo vhi vth =
    \<lparr>num_detected = length (pulses vlo vhi arr 0),
     maximizers = map snd (pulses vlo vhi arr 0), maxima = map fst (pulses vlo vhi arr 0)\<rparr>"
  using assms by (rule count_pulses)

theorem count_meets_specification_witness:
  "countArrayPeak [0, 3, 5, 5, 1, 9, 4, 1, 3 :: int] 2 6 0 =
    \<lparr>num_detected = length (pulses 2 6 [0, 3, 5, 5, 1, 9, 4, 1, 3 :: int] 0),
     maximizers = map snd (pulses 2 6 [0, 3, 5, 5, 1, 9, 4, 1, 3 :: int] 0), maxima = map fst (pulses 2 6 [0, 3, 5, 5, 1, 9, 4, 1, 3] 0)\<rparr>
   \<and> pulses 2 6 [0, 3, 5, 5, 1, 9, 4, 1, 3 :: int] 0 = [(5, 3), (3, 9)]"
proof
  show "pulses 2 6 [0, 3, 5, 5, 1, 9, 4, 1, 3 :: int] 0 = [(5, 3), (3, 9)]"
    by (simp add: first_max_def Let_def)
qed (rule count_meets_specification; simp)

text \<open>With a negative lower limit a pulse below zero is reported with the maximum 0 and the position of an earlier one.\<close>

lemma negative_limit_misreports:
  "countArrayPeak [-1 :: int] (-2) 5 0 = \<lparr>num_detected = 1, maximizers = [0], maxima = [0]\<rparr>"
  by (simp add: countArrayPeak_def countPacketCore_def peak_for.simps peak_while.simps Let_def)

end
