(* ===== verification/Legacy.thy ===== *)
theory Legacy
  imports Prelude
begin

text \<open>
  The legacy peak counter of \<^verbatim>\<open>DCS_Core/src/math.cpp\<close>, which is compiled in place of the one of theory \<open>Peaks\<close> under
  \<^verbatim>\<open>DCS_MATH_USE_LEGACY_COUNTER\<close>. The two static variables are explicit state.
\<close>

section \<open>The counter\<close>

datatype Edge = RISING | FALLING

record Cmpdata =
  cd_index :: nat
  cd_edge :: Edge

text \<open>The comparison comes first and the bound second, so the last read is \<^verbatim>\<open>data[size]\<close>.\<close>

function waitForLimit :: "('a \<Rightarrow> 'a \<Rightarrow> bool) \<Rightarrow> 'a list \<Rightarrow> nat \<Rightarrow> nat \<Rightarrow> 'a \<Rightarrow> nat outcome" where
  "waitForLimit cmp data idx sz barrier =
     obind (read_at data idx) (\<lambda>x.
       if cmp x barrier then Ok idx
       else if idx < sz then waitForLimit cmp data (idx + 1) sz barrier
       else Ok (sz + 1))"
  by pat_completeness auto

termination waitForLimit
  by (relation "measure (\<lambda>(_, _, idx, sz, _). sz - idx)") auto

declare waitForLimit.simps [simp del]

definition waitForAny :: "'a :: linordered_idom list \<Rightarrow> nat \<Rightarrow> nat \<Rightarrow> 'a \<Rightarrow> 'a \<Rightarrow> Cmpdata outcome" where
  "waitForAny data start sz barrier noise =
     obind (read_at data start) (\<lambda>x.
       if barrier - noise < x then
         obind (waitForLimit (<) data start sz (barrier - noise)) (\<lambda>i. Ok \<lparr>cd_index = i, cd_edge = FALLING\<rparr>)
       else if x < barrier + noise then
         obind (waitForLimit (>) data start sz (barrier + noise)) (\<lambda>i. Ok \<lparr>cd_index = i, cd_edge = RISING\<rparr>)
       else Ok \<lparr>cd_index = 0, cd_edge = RISING\<rparr>)"

record 'a legacy =
  lastDataPoint :: 'a
  lastEdge :: Edge

text \<open>The \<^verbatim>\<open>while (true)\<close>: \<open>None\<close> when it has not ended after \<open>fuel\<close> rounds.\<close>

fun legacy_loop :: "nat \<Rightarrow> 'a :: linordered_idom list \<Rightarrow> nat \<Rightarrow> nat \<Rightarrow> 'a \<Rightarrow> 'a \<Rightarrow> nat list \<Rightarrow> 'a legacy \<Rightarrow> (nat list \<times> 'a legacy) outcome option" where
  "legacy_loop 0 data index sz barrier noise found st = None"
| "legacy_loop (Suc fuel) data index sz barrier noise found st =
     (case waitForAny data index sz barrier noise of
        Fault e \<Rightarrow> Some (Fault e)
      | Blocked \<Rightarrow> Some Blocked
      | Ok c \<Rightarrow>
          let st = st\<lparr>lastEdge := cd_edge c\<rparr> in
          if sz < cd_index c then
            Some (obind (read_at data (sz - 1)) (\<lambda>x. Ok (found, st\<lparr>lastDataPoint := x\<rparr>)))
          else legacy_loop fuel data (cd_index c) sz barrier noise
                 (if cd_edge c = RISING then found @ [cd_index c] else found) st)"

definition countPacketLegacy :: "nat \<Rightarrow> 'a :: linordered_idom list \<Rightarrow> nat \<Rightarrow> 'a \<Rightarrow> 'a \<Rightarrow> 'a legacy \<Rightarrow> (nat list \<times> 'a legacy) outcome option" where
  "countPacketLegacy fuel data sz barrier threshold st =
     (let second =
        (if lastDataPoint st < barrier + threshold \<and> barrier - threshold < lastDataPoint st \<and> lastEdge st = RISING then
           (case waitForLimit (>) data 0 sz (barrier + threshold) of
              Fault e \<Rightarrow> Some (Fault e)
            | Blocked \<Rightarrow> Some Blocked
            | Ok i \<Rightarrow>
                if sz < i then Some (obind (read_at data (sz - 1)) (\<lambda>x. Ok ([], st\<lparr>lastDataPoint := x\<rparr>)))
                else legacy_loop fuel data i sz barrier threshold [i] st)
         else legacy_loop fuel data 0 sz barrier threshold [] st)
      in if lastDataPoint st < barrier - threshold then
           (case read_at data 0 of
              Fault e \<Rightarrow> Some (Fault e)
            | Blocked \<Rightarrow> Some Blocked
            | Ok x \<Rightarrow> if barrier + threshold < x then legacy_loop fuel data 1 sz barrier threshold [0] st else second)
         else second)"

definition legacy_start :: "'a :: linordered_idom \<Rightarrow> 'a \<Rightarrow> 'a legacy" where
  "legacy_start barrier threshold = \<lparr>lastDataPoint = barrier + threshold, lastEdge = RISING\<rparr>"

section \<open>Every call on an array of the given sz reads behind it\<close>

lemma waitForLimit_exact:
  assumes "length data = sz" "idx \<le> sz"
  shows "waitForLimit cmp data idx sz b = Fault OutOfBounds
    \<or> (\<exists>i. waitForLimit cmp data idx sz b = Ok i \<and> idx \<le> i \<and> i < sz \<and> cmp (data ! i) b)"
  using assms
proof (induction cmp data idx sz b rule: waitForLimit.induct)
  case (1 cmp data idx sz b)
  show ?case
  proof (cases "idx < sz \<and> \<not> cmp (data ! idx) b")
    case True
    then have s: "waitForLimit cmp data idx sz b = waitForLimit cmp data (idx + 1) sz b"
      using 1 by (subst waitForLimit.simps) (simp add: read_at_def)
    have "waitForLimit cmp data (idx + 1) sz b = Fault OutOfBounds
        \<or> (\<exists>i. waitForLimit cmp data (idx + 1) sz b = Ok i \<and> idx + 1 \<le> i \<and> i < sz \<and> cmp (data ! i) b)"
      using 1 True by auto
    then show ?thesis unfolding s by auto
  next
    case False
    then show ?thesis using "1.prems" by (subst waitForLimit.simps, subst (2) waitForLimit.simps) (auto simp: read_at_def)
  qed
qed

lemma waitForAny_exact:
  assumes "length data = sz" "s \<le> sz" "0 < t"
  shows "waitForAny data s sz b t = Fault OutOfBounds
    \<or> (\<exists>c. waitForAny data s sz b t = Ok c \<and> s < cd_index c \<and> cd_index c < sz)"
proof (cases "s < sz")
  case True
  show ?thesis
  proof (cases "b - t < data ! s")
    case hi: True
    from waitForLimit_exact [OF assms(1,2), of "(<)" "b - t"] show ?thesis
    proof (elim disjE exE conjE)
      fix i assume i: "waitForLimit (<) data s sz (b - t) = Ok i" "s \<le> i" "i < sz" "data ! i < b - t"
      then have "s < i" using hi by (cases "i = s") auto
      then show ?thesis using i hi True assms(1) by (simp add: waitForAny_def read_at_def)
    qed (use hi True assms(1) in \<open>simp add: waitForAny_def read_at_def\<close>)
  next
    case lo: False
    then have lt: "data ! s < b + t" using assms(3) by simp
    from waitForLimit_exact [OF assms(1,2), of "(>)" "b + t"] show ?thesis
    proof (elim disjE exE conjE)
      fix i assume i: "waitForLimit (>) data s sz (b + t) = Ok i" "s \<le> i" "i < sz" "data ! i > b + t"
      then have "s < i" using lt by (cases "i = s") auto
      then show ?thesis using i lo lt True assms(1) by (simp add: waitForAny_def read_at_def)
    qed (use lo lt True assms(1) in \<open>simp add: waitForAny_def read_at_def\<close>)
  qed
qed (use assms in \<open>simp add: waitForAny_def read_at_def\<close>)

lemma legacy_loop_exact:
  assumes "length data = sz" "s \<le> sz" "0 < t" "sz < fuel + s"
  shows "legacy_loop fuel data s sz b t w st = Some (Fault OutOfBounds)"
  using assms
proof (induction fuel arbitrary: s w st)
  case (Suc fuel)
  from waitForAny_exact [OF Suc.prems(1,2,3), of b] show ?case
  proof (elim disjE exE conjE)
    fix c assume c: "waitForAny data s sz b t = Ok c" "s < cd_index c" "cd_index c < sz"
    then show ?thesis using Suc.IH [of "cd_index c"] Suc.prems by (simp add: Let_def)
  qed simp
qed simp

text \<open>
  On an array of exactly \<^verbatim>\<open>size\<close> samples every call of the legacy counter, with any history and any positive threshold,
  reads behind the array before it returns: both searches end only on a hit or after they have read \<^verbatim>\<open>data[size]\<close>.
\<close>

theorem legacy_reads_behind_array:
  assumes "length data = sz" and "0 < sz" and "0 < t"
  shows "countPacketLegacy (sz + 1) data sz b t st = Some (Fault OutOfBounds)"
proof -
  note loop = legacy_loop_exact [OF assms(1) _ assms(3)]
  have start: "legacy_loop (sz + 1) data 0 sz b t w st = Some (Fault OutOfBounds)"
    "legacy_loop (sz + 1) data 1 sz b t w st = Some (Fault OutOfBounds)" for w
    using loop [of 0 "sz + 1"] loop [of 1 "sz + 1"] assms(2) by simp_all
  have wait: "(case waitForLimit (>) data 0 sz (b + t) of
              Fault e \<Rightarrow> Some (Fault e)
            | Blocked \<Rightarrow> Some Blocked
            | Ok i \<Rightarrow>
                if sz < i then Some (obind (read_at data (sz - 1)) (\<lambda>x. Ok ([], st\<lparr>lastDataPoint := x\<rparr>)))
                else legacy_loop (sz + 1) data i sz b t [i] st) = Some (Fault OutOfBounds)"
    using waitForLimit_exact [OF assms(1) le0, of "(>)" "b + t"]
  proof (elim disjE exE conjE)
    fix i assume "waitForLimit (>) data 0 sz (b + t) = Ok i" "i < sz"
    then show ?thesis using loop [of i "sz + 1"] by simp
  qed simp_all
  show ?thesis unfolding countPacketLegacy_def Let_def wait start using assms(1,2) by (simp add: read_at_def)
qed

text \<open>With a threshold of 0, a sample that equals the barrier is neither above nor below it, and the loop goes back to index 0.\<close>

lemma legacy_zero_threshold_spins: "data ! 0 = b \<Longrightarrow> data \<noteq> [] \<Longrightarrow> legacy_loop fuel data 0 sz b 0 w st = None"
  by (induction fuel arbitrary: w st) (simp_all add: waitForAny_def read_at_def Let_def)

section \<open>What it counts when one more sample can be read\<close>

text \<open>
  A trigger with hysteresis: armed below \<open>b - t\<close>, it fires at the first sample above \<open>b + t\<close> and is not armed again before the
  signal has been below \<open>b - t\<close>. The positions at which it fires.
\<close>

fun trigger :: "'a :: linordered_idom \<Rightarrow> 'a \<Rightarrow> bool \<Rightarrow> nat \<Rightarrow> 'a list \<Rightarrow> nat list" where
  "trigger b t armed i [] = []"
| "trigger b t True i (x # xs) = (if b + t < x then i # trigger b t False (i + 1) xs else trigger b t True (i + 1) xs)"
| "trigger b t False i (x # xs) = trigger b t (x < b - t) (i + 1) xs"

lemma drop_step: "s < length xs \<Longrightarrow> drop s xs = xs ! s # drop (s + 1) xs"
  by (simp add: Cons_nth_drop_Suc)

lemma wait_falling:
  assumes "length data = sz + 1" "s \<le> sz" "0 < t"
  shows "\<exists>i. waitForLimit (<) data s sz (b - t) = Ok i \<and> s \<le> i
    \<and> (if sz < i then i = sz + 1 \<and> trigger b t False s (drop s data) = []
       else data ! i < b - t \<and> trigger b t False s (drop s data) = trigger b t True i (drop i data))"
  using assms
proof (induction "sz - s" arbitrary: s)
  case 0
  then show ?case
    by (subst waitForLimit.simps) (auto simp: read_at_def drop_step [of s data])
next
  case (Suc k)
  have d: "drop s data = data ! s # drop (s + 1) data" using Suc.prems by (intro drop_step) simp
  show ?case
  proof (cases "data ! s < b - t")
    case True
    then have "waitForLimit (<) data s sz (b - t) = Ok s" using Suc.prems by (subst waitForLimit.simps) (simp add: read_at_def)
    moreover have "\<not> b + t < data ! s" using True Suc.prems(3) by simp
    ultimately show ?thesis using True Suc.prems d by simp
  next
    case False
    then have w: "waitForLimit (<) data s sz (b - t) = waitForLimit (<) data (s + 1) sz (b - t)"
      using Suc.prems Suc.hyps(2) by (subst waitForLimit.simps) (auto simp: read_at_def)
    have tr: "trigger b t False s (drop s data) = trigger b t False (s + 1) (drop (s + 1) data)" using False d by simp
    have "k = sz - (s + 1)" "s + 1 \<le> sz" using Suc.hyps(2) by simp_all
    then show ?thesis using Suc.hyps(1) [of "s + 1"] Suc.prems unfolding w tr by (meson Suc_leD Suc_eq_plus1 le_trans le_add1)
  qed
qed

lemma wait_rising:
  assumes "length data = sz + 1" "s \<le> sz" "0 < t"
  shows "\<exists>i. waitForLimit (>) data s sz (b + t) = Ok i \<and> s \<le> i
    \<and> (if sz < i then i = sz + 1 \<and> trigger b t True s (drop s data) = []
       else b + t < data ! i \<and> trigger b t True s (drop s data) = i # trigger b t False i (drop i data))"
  using assms
proof (induction "sz - s" arbitrary: s)
  case 0
  then show ?case
    by (subst waitForLimit.simps) (auto simp: read_at_def drop_step [of s data])
next
  case (Suc k)
  have d: "drop s data = data ! s # drop (s + 1) data" using Suc.prems by (intro drop_step) simp
  show ?case
  proof (cases "b + t < data ! s")
    case True
    then have "waitForLimit (>) data s sz (b + t) = Ok s" using Suc.prems by (subst waitForLimit.simps) (simp add: read_at_def)
    moreover have "\<not> data ! s < b - t" using True Suc.prems(3) by simp
    ultimately show ?thesis using True Suc.prems d by simp
  next
    case False
    then have w: "waitForLimit (>) data s sz (b + t) = waitForLimit (>) data (s + 1) sz (b + t)"
      using Suc.prems Suc.hyps(2) by (subst waitForLimit.simps) (auto simp: read_at_def)
    have tr: "trigger b t True s (drop s data) = trigger b t True (s + 1) (drop (s + 1) data)" using False d by simp
    have "k = sz - (s + 1)" "s + 1 \<le> sz" using Suc.hyps(2) by simp_all
    then show ?thesis using Suc.hyps(1) [of "s + 1"] Suc.prems unfolding w tr by (meson Suc_leD Suc_eq_plus1 le_trans le_add1)
  qed
qed

lemma legacy_loop_triggers:
  assumes "length data = sz + 1" "s \<le> sz" "0 < t" "sz + 1 < fuel + s"
  shows "\<exists>st'. legacy_loop fuel data s sz b t w st
    = Some (Ok (w @ trigger b t (\<not> b - t < data ! s) s (drop s data), st'))"
  using assms
proof (induction fuel arbitrary: s w st)
  case (Suc fuel)
  show ?case
  proof (cases "b - t < data ! s")
    case True
    obtain i where i: "waitForLimit (<) data s sz (b - t) = Ok i" "s \<le> i"
      "if sz < i then i = sz + 1 \<and> trigger b t False s (drop s data) = []
       else data ! i < b - t \<and> trigger b t False s (drop s data) = trigger b t True i (drop i data)"
      using wait_falling [OF Suc.prems(1-3)] by blast
    have any: "waitForAny data s sz b t = Ok \<lparr>cd_index = i, cd_edge = FALLING\<rparr>"
      using i(1) True Suc.prems(1,2) by (simp add: waitForAny_def read_at_def)
    show ?thesis
    proof (cases "sz < i")
      case False
      then have "s < i" "\<not> b - t < data ! i" using i(2,3) True by (cases "s = i"; force)+
      then show ?thesis using any i(3) False True Suc.IH [of i w "st\<lparr>lastEdge := FALLING\<rparr>"] Suc.prems by (simp add: Let_def)
    qed (use any i(3) True Suc.prems in \<open>simp add: Let_def read_at_def\<close>)
  next
    case False
    then have lt: "data ! s < b + t" using Suc.prems(3) by simp
    obtain i where i: "waitForLimit (>) data s sz (b + t) = Ok i" "s \<le> i"
      "if sz < i then i = sz + 1 \<and> trigger b t True s (drop s data) = []
       else b + t < data ! i \<and> trigger b t True s (drop s data) = i # trigger b t False i (drop i data)"
      using wait_rising [OF Suc.prems(1-3)] by blast
    have any: "waitForAny data s sz b t = Ok \<lparr>cd_index = i, cd_edge = RISING\<rparr>"
      using i(1) False lt Suc.prems(1,2) by (simp add: waitForAny_def read_at_def)
    show ?thesis
    proof (cases "sz < i")
      case in_range: False
      then have "s < i" using i(2,3) lt by (cases "s = i") auto
      moreover have "b - t < data ! i" using i(3) in_range Suc.prems(3) by simp
      ultimately show ?thesis using any i(3) in_range False Suc.IH [of i "w @ [i]" "st\<lparr>lastEdge := RISING\<rparr>"] Suc.prems
        by (simp add: Let_def)
    qed (use any i(3) False Suc.prems in \<open>simp add: Let_def read_at_def\<close>)
  qed
qed simp

text \<open>
  When the array holds one sample more than the call says, the legacy counter returns, and for a signal with no pending edge from the
  call before it reports the positions at which the trigger with hysteresis fires, the extra sample included.
\<close>

theorem legacy_counts_triggers:
  assumes "length data = sz + 1" and "0 < t" and "lastDataPoint st \<ge> b + t"
  shows "\<exists>st'. countPacketLegacy (sz + 2) data sz b t st
    = Some (Ok (trigger b t (\<not> b - t < data ! 0) 0 data, st'))"
proof -
  have "\<not> lastDataPoint st < b - t" "\<not> lastDataPoint st < b + t" using assms(2,3) by simp_all
  then show ?thesis
    using legacy_loop_triggers [OF assms(1) le0 assms(2), of "sz + 2" b "[]" st] by (simp add: countPacketLegacy_def Let_def)
qed

theorem legacy_counts_triggers_witness:
  "\<exists>st'. countPacketLegacy 6 [0, 9, 5, 0, 9] 4 5 (2 :: int) (legacy_start 5 2) = Some (Ok ([1, 4], st'))"
  using legacy_counts_triggers [of "[0, 9, 5, 0, 9]" 4 "2 :: int" 5 "legacy_start 5 2"] by (simp add: legacy_start_def eval_nat_numeral)

end
