(* ===== verification/Store.thy ===== *)
theory Store
  imports Database
begin

text \<open>
  Opening and closing the data base (\<^verbatim>\<open>OpenDatabase\<close>, \<^verbatim>\<open>CreateTables\<close>, \<^verbatim>\<open>CloseDatabase\<close> of \<^verbatim>\<open>DCS_Core/src/db.cpp\<close>), the schema and
  its agreement with the statements of theory \<open>Database\<close>, and the program \<^verbatim>\<open>custom_targets/src/rdb_test.cpp\<close> that sets a data
  base up. The file system and SQLite are parameters.
\<close>

section \<open>The handle\<close>

text \<open>
  The static pointer \<^verbatim>\<open>realtime_db\<close>: null before the first open, usable, left by an open that failed (SQLite refuses every statement on it), or
  closed and still pointing to what was freed.
\<close>

datatype 'd db_handle = NoHandle | Usable 'd | Failed | Closed

text \<open>
  \<open>hs_env\<close> is the environment variable of the user's directory, \<open>hs_mkdir\<close> whether \<^verbatim>\<open>create_directory\<close> returns (it throws otherwise),
  \<open>hs_open\<close> what is in the file that \<^verbatim>\<open>sqlite3_open\<close> opens, \<open>hs_exec\<close> what \<^verbatim>\<open>sqlite3_exec\<close> makes of it.
\<close>

record 'd host =
  hs_env :: "string option"
  hs_mkdir :: "string \<Rightarrow> bool"
  hs_open :: "string \<Rightarrow> 'd option"
  hs_exec :: "'d \<Rightarrow> string \<Rightarrow> 'd option"

definition OpenDatabase :: "'d host \<Rightarrow> 'd db_handle outcome" where
  "OpenDatabase h =
     (case hs_env h of None \<Rightarrow> Fault NullPointer
      | Some appdata_env \<Rightarrow>
        let database_path = appdata_env @ ''/DCScan'' in
        if \<not> hs_mkdir h database_path then Fault Thrown
        else Ok (case hs_open h (database_path @ ''/rdb.db'') of None \<Rightarrow> Failed | Some d \<Rightarrow> Usable d))"

definition CloseDatabase :: "'d db_handle \<Rightarrow> 'd db_handle outcome" where
  "CloseDatabase k =
     (case k of NoHandle \<Rightarrow> Ok NoHandle | Usable d \<Rightarrow> Ok Closed | Failed \<Rightarrow> Ok Closed | Closed \<Rightarrow> Fault Dangling)"

section \<open>The schema\<close>

definition create_text :: "string \<Rightarrow> string \<Rightarrow> string" where
  "create_text table rest = ''CREATE TABLE IF NOT EXISTS '' @ table @ '' ('' @ rest"

definition events_table :: string where
  "events_table = create_text ''EVENTS'' (
     ''EVENT_ID        INTEGER     PRIMARY KEY AUTOINCREMENT         ,'' @
     ''EVENT_TIME      DATETIME    DEFAULT CURRENT_TIMESTAMP NOT NULL,'' @
     ''USERNAME        TEXT        NOT NULL                          ,'' @
     ''OPERATION       TEXT        NOT NULL                          ,'' @
     ''OP_DESCRIPTION  TEXT        NOT NULL                          );'')"

definition variables_table :: string where
  "variables_table = create_text ''VARIABLES'' (
     ''NAME       TEXT             PRIMARY KEY NOT NULL,'' @
     ''VALUE      TEXT             NOT NULL            ,'' @
     ''DESCRIPTOR TEXT                                );'')"

definition users_table :: string where
  "users_table = create_text ''USERS'' (
     ''ID         INTEGER          PRIMARY KEY AUTOINCREMENT,'' @
     ''USERNAME   TEXT             UNIQUE NOT NULL          ,'' @
     ''PASS_HASH  BLOB             NOT NULL                 ,'' @
     ''ACCESS_LVL INT              NOT NULL                );'')"

text \<open>An error of \<^verbatim>\<open>sqlite3_exec\<close> is logged and leaves the data base as it was.\<close>

definition exec_on :: "'d host \<Rightarrow> string \<Rightarrow> 'd db_handle \<Rightarrow> 'd db_handle outcome" where
  "exec_on h q k =
     (case k of
        Usable d \<Rightarrow> Ok (Usable (case hs_exec h d q of None \<Rightarrow> d | Some d' \<Rightarrow> d'))
      | Closed \<Rightarrow> Fault Dangling
      | _ \<Rightarrow> Ok k)"

definition CreateTables :: "'d host \<Rightarrow> 'd db_handle \<Rightarrow> 'd db_handle outcome" where
  "CreateTables h k =
     obind (exec_on h events_table k) (\<lambda>k.
     obind (exec_on h variables_table k) (\<lambda>k. exec_on h users_table k))"

definition Database_Open :: "'d host \<Rightarrow> 'd db_handle outcome" where
  "Database_Open h = obind (OpenDatabase h) (CreateTables h)"

definition Database_Close :: "'d db_handle \<Rightarrow> 'd db_handle outcome" where
  "Database_Close k = CloseDatabase k"

section \<open>The remaining entry types of a query\<close>

datatype EntryType = TEXT | INT | REAL | DATE | BLOB

text \<open>\<open>num\<close> is \<^verbatim>\<open>sqlite3_column_double\<close>.\<close>

fun real_rows :: "(cell \<Rightarrow> 'f) \<Rightarrow> nat \<Rightarrow> cell list list \<Rightarrow> 'f list outcome" where
  "real_rows num i [] = Ok []"
| "real_rows num i (r # rs) =
     obind (read_at r i) (\<lambda>c. obind (real_rows num (i + 1) rs) (\<lambda>xs. Ok (num c # xs)))"

definition QueryEntries_REAL :: "(cell \<Rightarrow> 'f) \<Rightarrow> 'd sqlite \<Rightarrow> 'd \<Rightarrow> string \<Rightarrow> string \<Rightarrow> string \<Rightarrow> 'f list outcome" where
  "QueryEntries_REAL num sq d table column statement =
     (case sq_select sq d (select_text table column statement) of
        None \<Rightarrow> Ok [] | Some rows \<Rightarrow> real_rows num 0 rows)"

definition QueryEntries_DATE :: "'d sqlite \<Rightarrow> 'd \<Rightarrow> string \<Rightarrow> string \<Rightarrow> string \<Rightarrow> string list outcome" where
  "QueryEntries_DATE sq d table column statement =
     (case sq_select sq d (select_text table column statement) of
        None \<Rightarrow> Ok [] | Some rows \<Rightarrow> text_rows 0 rows)"

text \<open>Every kind of query that returns two rows of one column leaves the row: the column index follows the row.\<close>

lemma second_row_faults:
  assumes "sq_select sq d (select_text t c w) = Some ([x] # [y] # rs)"
  shows "QueryEntries_REAL num sq d t c w = Fault OutOfBounds" "QueryEntries_INT sq d t c w = Fault OutOfBounds"
  using assms by (simp_all add: QueryEntries_REAL_def QueryEntries_INT_def read_at_def)

section \<open>The schema fits the statements\<close>

fun has_infix :: "string \<Rightarrow> string \<Rightarrow> bool" where
  "has_infix p [] \<longleftrightarrow> p = []"
| "has_infix p (x # xs) \<longleftrightarrow> take (length p) (x # xs) = p \<or> has_infix p xs"

definition column_texts :: "string \<Rightarrow> string list" where
  "column_texts q = split_on (CHR '','') (tl (dropWhile (\<lambda>c. c \<noteq> CHR ''('') q))"

definition column_name :: "string \<Rightarrow> string" where
  "column_name t = takeWhile (\<lambda>c. c \<noteq> CHR '' '') t"

text \<open>The columns that an insertion has to give a value to.\<close>

definition required_columns :: "string \<Rightarrow> string list" where
  "required_columns q = map column_name (filter (\<lambda>t. has_infix ''NOT NULL'' t \<and> \<not> has_infix ''DEFAULT'' t) (column_texts q))"

definition fits :: "string \<Rightarrow> string \<Rightarrow> string list \<Rightarrow> bool" where
  "fits schema inserted queried \<longleftrightarrow>
     set (required_columns schema) \<subseteq> set (split_on (CHR '','') inserted)
     \<and> set (split_on (CHR '','') inserted) \<union> set queried \<subseteq> set (map column_name (column_texts schema))"

text \<open>
  The statements of the program and the tables it creates agree: every insertion names columns of its table, gives a value to every
  column that must have one, and every query asks for columns of its table.
\<close>

theorem schema_fits_statements:
  "fits events_table ''USERNAME,OPERATION,OP_DESCRIPTION'' []
   \<and> fits variables_table ''NAME,VALUE,DESCRIPTOR'' [''VALUE'', ''DESCRIPTOR'', ''NAME'']
   \<and> fits users_table ''USERNAME,PASS_HASH,ACCESS_LVL'' [''USERNAME'', ''PASS_HASH'']"
  by code_simp

section \<open>Opening keeps what is there\<close>

text \<open>\<open>tabs d t\<close> are the rows of table \<open>t\<close>, \<open>None\<close> when there is no such table.\<close>

definition sqlite_tables :: "('d \<Rightarrow> string \<Rightarrow> 'd option) \<Rightarrow> ('d \<Rightarrow> string \<Rightarrow> cell list list option) \<Rightarrow> bool" where
  "sqlite_tables ex tabs \<longleftrightarrow> (\<forall>d t rest d'. CHR '' '' \<notin> set t \<longrightarrow> ex d (create_text t rest) = Some d' \<longrightarrow>
     tabs d' = (if tabs d t = None then (tabs d)(t \<mapsto> []) else tabs d))"

definition created :: "string \<Rightarrow> (string \<Rightarrow> cell list list option) \<Rightarrow> string \<Rightarrow> cell list list option" where
  "created t m = (if m t = None then m(t \<mapsto> []) else m)"

lemma created_idem [simp]: "m t \<noteq> None \<Longrightarrow> created t m = m" "created t m t \<noteq> None"
  "m u \<noteq> None \<Longrightarrow> created t m u = m u"
  by (auto simp: created_def)

lemma exec_on_creates:
  assumes "sqlite_tables (hs_exec h) tabs" "hs_exec h d (create_text t rest) \<noteq> None" "CHR '' '' \<notin> set t"
  shows "\<exists>d'. exec_on h (create_text t rest) (Usable d) = Ok (Usable d') \<and> tabs d' = created t (tabs d)"
  using assms by (auto simp: exec_on_def sqlite_tables_def created_def)

lemma CreateTables_creates:
  assumes c: "sqlite_tables (hs_exec h) tabs" and s: "\<And>d q. hs_exec h d q \<noteq> None"
  shows "\<exists>d'. CreateTables h (Usable d) = Ok (Usable d') \<and> tabs d' = created ''USERS'' (created ''VARIABLES'' (created ''EVENTS'' (tabs d)))"
proof -
  obtain d1 where 1: "exec_on h events_table (Usable d) = Ok (Usable d1)" "tabs d1 = created ''EVENTS'' (tabs d)"
    using exec_on_creates [OF c, of d "''EVENTS''"] s unfolding events_table_def by fastforce
  obtain d2 where 2: "exec_on h variables_table (Usable d1) = Ok (Usable d2)" "tabs d2 = created ''VARIABLES'' (tabs d1)"
    using exec_on_creates [OF c, of d1 "''VARIABLES''"] s unfolding variables_table_def by fastforce
  obtain d3 where 3: "exec_on h users_table (Usable d2) = Ok (Usable d3)" "tabs d3 = created ''USERS'' (tabs d2)"
    using exec_on_creates [OF c, of d2 "''USERS''"] s unfolding users_table_def by fastforce
  show ?thesis using 1 2 3 by (simp add: CreateTables_def)
qed


text \<open>An instance that has no other tables than those it was asked to create.\<close>

definition table_of :: "string \<Rightarrow> string" where
  "table_of q = takeWhile (\<lambda>c. c \<noteq> CHR '' '') (drop 27 q)"

definition table_exec :: "(string \<Rightarrow> cell list list option) \<Rightarrow> string \<Rightarrow> (string \<Rightarrow> cell list list option) option" where
  "table_exec d q = Some (created (table_of q) d)"

definition host_ex :: "(string \<Rightarrow> cell list list option) host" where
  "host_ex = \<lparr>hs_env = Some ''/u'', hs_mkdir = (\<lambda>_. True), hs_open = (\<lambda>_. Some [''USERS'' \<mapsto> [[CInt 7]]]), hs_exec = table_exec\<rparr>"

lemma table_of_create: "CHR '' '' \<notin> set t \<Longrightarrow> table_of (create_text t rest) = t"
proof -
  assume "CHR '' '' \<notin> set t"
  then have "takeWhile (\<lambda>c. c \<noteq> CHR '' '') (t @ '' ('' @ rest) = t" by (induction t) auto
  then show ?thesis by (simp add: table_of_def create_text_def)
qed


section \<open>The program that sets a data base up\<close>

text \<open>Its four writes; \<open>zero\<close> is \<^verbatim>\<open>std::to_string(0.0)\<close>.\<close>

definition rdb_variables :: "(string \<times> string) list" where
  "rdb_variables =
     [(''Geometric_AngleOffsetC1'', ''Calibration offset for the crystal 1 engine encoder (deg).''),
      (''Geometric_AngleOffsetC2'', ''Calibration offset for the crystal 2 engine encoder (deg).''),
      (''Geometric_LastKnownPosC1'', ''The last known position for Crystal 1.''),
      (''Geometric_LastKnownPosC2'', ''The last known position for Crystal 2.'')]"

definition rdb_writes :: "'d sqlite \<Rightarrow> 'd \<Rightarrow> 'd" where
  "rdb_writes sq d =
     realtime_db (fold (\<lambda>(n, descr). WriteVariableSys sq n ''0.000000'' (Some descr)) rdb_variables
       \<lparr>realtime_db = d, db_var_cache = (\<lambda>_. None), authenticated_username = []\<rparr>)"

text \<open>On a handle that an open left without a data base every write fails and is logged.\<close>

definition rdb_test :: "'d host \<Rightarrow> 'd sqlite \<Rightarrow> ('d db_handle \<times> 'd option) outcome" where
  "rdb_test h sq =
     obind (OpenDatabase h) (\<lambda>k. obind (CreateTables h k) (\<lambda>k.
       let d = (case k of Usable d \<Rightarrow> Some (rdb_writes sq d) | _ \<Rightarrow> None)
       in obind (CloseDatabase k) (\<lambda>k. Ok (k, d))))"

lemma fold_writes:
  assumes "sqlite_vars sq vars" "sqlite_succeeds sq"
  shows "vars (realtime_db (fold (\<lambda>(n, descr). WriteVariableSys sq n v (Some descr)) nds st))
    = (\<lambda>n. if n \<in> fst ` set nds then Some v else vars (realtime_db st) n)"
proof (induction nds arbitrary: st)
  case (Cons nd nds)
  obtain n descr where nd: "nd = (n, descr)" by (cases nd)
  have "vars (realtime_db (WriteVariableSys sq n v (Some descr) st)) = (vars (realtime_db st))(n \<mapsto> v)"
    using insert_variable_vars(3) [OF assms(1,2)] by (simp add: WriteVariableSys_def)
  then show ?case using Cons by (auto simp: nd)
qed simp

text \<open>
  After the program has run on a data base in which no statement fails, the four variables hold zero, whatever calibration
  they held before, and every other variable is what it was.
\<close>

theorem rdb_test_sets_variables:
  assumes "sqlite_vars sq vars" "sqlite_succeeds sq" "OpenDatabase h = Ok k" "CreateTables h k = Ok (Usable d)"
  shows "\<exists>d'. rdb_test h sq = Ok (Closed, Some d')
    \<and> (\<forall>n. vars d' n = (if n \<in> fst ` set rdb_variables then Some ''0.000000'' else vars d n))"
  using assms fold_writes [OF assms(1,2), of "''0.000000''" rdb_variables]
  by (simp add: rdb_test_def rdb_writes_def CloseDatabase_def Let_def)

end
