(* ===== verification/Pid.thy ===== *)
theory Pid
  imports Prelude Complex_Main
begin

text \<open>
  The controller of \<^verbatim>\<open>DCS_Core/src/pid.cpp\<close>. Finite values are exact elements of an ordered field
  (rounding is left out); the values that a division by a zero time step produces are kept apart,
  with the rules of IEEE arithmetic for the operations the source applies to them.
\<close>

datatype 'a fl = Fin 'a | PInf | NInf | NaN

fun fl_scale :: "'a::linordered_field \<Rightarrow> 'a fl \<Rightarrow> 'a fl" where
  "fl_scale k (Fin x) = Fin (k * x)"
| "fl_scale k PInf = (if 0 < k then PInf else if k < 0 then NInf else NaN)"
| "fl_scale k NInf = (if 0 < k then NInf else if k < 0 then PInf else NaN)"
| "fl_scale k NaN = NaN"

fun fl_shift :: "'a::linordered_field \<Rightarrow> 'a fl \<Rightarrow> 'a fl" where
  "fl_shift k (Fin x) = Fin (k + x)"
| "fl_shift k PInf = PInf"
| "fl_shift k NInf = NInf"
| "fl_shift k NaN = NaN"

definition fl_div :: "'a::linordered_field \<Rightarrow> 'a \<Rightarrow> 'a fl" where
  "fl_div x y = (if y \<noteq> 0 then Fin (x / y) else if 0 < x then PInf else if x < 0 then NInf else NaN)"

text \<open>\<^verbatim>\<open>std::clamp\<close>: two comparisons, both false for a value that is not a number.\<close>

fun fl_clamp :: "'a::linordered_field fl \<Rightarrow> 'a \<Rightarrow> 'a \<Rightarrow> 'a fl" where
  "fl_clamp (Fin x) lo hi = (if x < lo then Fin lo else if hi < x then Fin hi else Fin x)"
| "fl_clamp PInf lo hi = Fin hi"
| "fl_clamp NInf lo hi = Fin lo"
| "fl_clamp NaN lo hi = NaN"

record 'a PID =
  pid_min :: 'a
  pid_max :: 'a
  Kp :: 'a
  Kd :: 'a
  Ki :: 'a
  target :: 'a
  bias :: 'a
  le :: 'a
  integral :: 'a
  last_point :: int

definition setTargetAndBias :: "'a::linordered_field \<Rightarrow> 'a \<Rightarrow> 'a PID \<Rightarrow> 'a PID" where
  "setTargetAndBias t b s =
     (if pid_max s < t \<or> t < pid_min s then s\<lparr>target := 0, bias := 0\<rparr> else s\<lparr>target := t, bias := b\<rparr>)"

text \<open>The time of the last calculation is default-constructed: the epoch of the clock.\<close>

definition PID_new :: "'a::linordered_field \<Rightarrow> 'a \<Rightarrow> 'a \<Rightarrow> 'a \<Rightarrow> 'a \<Rightarrow> 'a PID" where
  "PID_new mn mx p d i =
     setTargetAndBias 0 0 \<lparr>pid_min = mn, pid_max = mx, Kp = p, Kd = d, Ki = i, target = 0, bias = 0,
       le = 0, integral = 0, last_point = 0\<rparr>"

definition calculate_dt :: "'a::linordered_field \<Rightarrow> 'a \<Rightarrow> 'a PID \<Rightarrow> 'a fl \<times> 'a PID" where
  "calculate_dt v dt s =
     (let e = target s - v;
          P = Kp s * e;
          integral' = integral s + e * dt;
          I = Ki s * integral';
          D = fl_scale (Kd s) (fl_div (e - le s) dt)
      in (fl_clamp (fl_shift (P + I + bias s) D) (pid_min s) (pid_max s), s\<lparr>integral := integral', le := e\<rparr>))"

text \<open>The overload without a time step measures whole milliseconds; \<open>now\<close> is the clock in nanoseconds.\<close>

definition calculate :: "int \<Rightarrow> 'a::linordered_field \<Rightarrow> 'a PID \<Rightarrow> 'a fl \<times> 'a PID" where
  "calculate now v s =
     calculate_dt v (of_int ((now - last_point s) div 1000000) / 1000) (s\<lparr>last_point := now\<rparr>)"

fun fl_within :: "'a::linordered_field \<Rightarrow> 'a \<Rightarrow> 'a fl \<Rightarrow> bool" where
  "fl_within lo hi (Fin x) \<longleftrightarrow> lo \<le> x \<and> x \<le> hi"
| "fl_within lo hi PInf \<longleftrightarrow> False"
| "fl_within lo hi NInf \<longleftrightarrow> False"
| "fl_within lo hi NaN \<longleftrightarrow> False"

lemma clamp_within: "lo \<le> hi \<Longrightarrow> x \<noteq> NaN \<Longrightarrow> fl_within lo hi (fl_clamp x lo hi)"
  by (cases x) auto



text \<open>
  Two calls within the same millisecond break the bound: the measured time step is 0, and for an unchanged
  error, or for a controller without derivative part, the output is not a number.
\<close>

theorem pid_same_millisecond:
  assumes "0 \<le> now - last_point s" and "now - last_point s < 1000000" and "Kd s = 0 \<or> le s = target s - v"
  shows "fst (calculate now v s) = NaN"
proof -
  have "(now - last_point s) div 1000000 = 0" using assms(1,2) by (rule div_pos_pos_trivial)
  then show ?thesis using assms(3) by (auto simp: calculate_def calculate_dt_def fl_div_def Let_def)
qed

theorem pid_same_millisecond_witness:
  "fst (calculate 5 (1 :: rat) (PID_new (-10) 10 2 0 1)) = NaN"
  by (rule pid_same_millisecond) (simp_all add: PID_new_def setTargetAndBias_def)

end
