(* ===== verification/Pools.thy ===== *)
theory Pools
  imports Prelude
begin

text \<open>
  Memory pools and thread pools: \<^verbatim>\<open>memory.cpp\<close> with \<^verbatim>\<open>LinearAllocator\<close> of
  \<^verbatim>\<open>DCS_ModuleCore.h\<close>, and \<^verbatim>\<open>threading.cpp\<close>.
\<close>

section \<open>Aligned blocks\<close>

text \<open>
  The address \<^verbatim>\<open>aligned_malloc\<close> returns for the block at \<open>p1\<close>; the eight bytes before it hold
  \<open>p1\<close> for \<^verbatim>\<open>aligned_free\<close>.
\<close>

definition aligned_address :: "u64 \<Rightarrow> u64 \<Rightarrow> u64" where
  "aligned_address p1 alignment = (p1 + (alignment - 1 + 8)) AND NOT (alignment - 1)"

definition aligned_malloc :: "(nat \<Rightarrow> u64 option) \<Rightarrow> nat \<Rightarrow> u64 \<Rightarrow> (u64 \<Rightarrow> u64) \<Rightarrow> (u64 option \<times> (u64 \<Rightarrow> u64))" where
  "aligned_malloc malloc n alignment mem =
     (case malloc (n + unat (alignment - 1 + 8)) of
        None \<Rightarrow> (None, mem)
      | Some p1 \<Rightarrow> let p2 = aligned_address p1 alignment in (Some p2, mem(p2 - 8 := p1)))"

definition aligned_free :: "(u64 \<Rightarrow> u64) \<Rightarrow> u64 \<Rightarrow> u64" where
  "aligned_free mem p = mem (p - 8)"

lemma and_not_mask_nat:
  "unat (w AND NOT (mask k) :: u64) = unat w - unat w mod 2 ^ k"
proof -
  have "w AND NOT (mask k) = push_bit k (drop_bit k w)"
    by (rule bit_eqI) (auto simp: bit_simps)
  then have "w AND NOT (mask k) = w - take_bit k w"
    using bits_ident [of k w] by (metis add_diff_cancel_right')
  moreover have t: "unat (take_bit k w) = unat w mod 2 ^ k" by (simp only: unsigned_take_bit_eq) (simp only: take_bit_eq_mod)
  moreover have "take_bit k w \<le> w" using t by (simp add: word_le_nat_alt)
  ultimately show ?thesis by (simp add: unat_sub)
qed

text \<open>
  For an alignment that is a power of two (at least 8) the returned address is a multiple of it, leaves room
  for the saved pointer, and the block of \<open>n\<close> bytes behind it ends inside the allocated one.
\<close>

lemma aligned_address_ok:
  assumes "3 \<le> k" "k < 63" "unat p1 + 2 ^ k + 8 < 2 ^ 64"
  shows "2 ^ k dvd unat (aligned_address p1 (2 ^ k)) \<and> unat p1 + 8 \<le> unat (aligned_address p1 (2 ^ k))
    \<and> unat (aligned_address p1 (2 ^ k)) + n \<le> unat p1 + n + (2 ^ k - 1 + 8)"
proof -
  let ?A = "(2 :: nat) ^ k"
  have "?A \<le> 2 ^ 62" using assms(2) by (intro power_increasing) simp_all
  then have A: "1 \<le> ?A" "?A < 2 ^ 64" by simp_all
  have m: "(2 ^ k - 1 :: u64) = mask k" by (simp add: mask_eq_exp_minus_1)
  have w: "p1 + (2 ^ k - 1 + 8) = word_of_nat (unat p1 + (?A + 7))" by simp
  have u: "unat (p1 + (2 ^ k - 1 + 8)) = unat p1 + (?A + 7)"
    unfolding w using assms(3) by (intro unat_of_small_nat) simp
  let ?x = "unat p1 + (?A + 7)"
  have v: "unat (aligned_address p1 (2 ^ k)) = ?x - ?x mod ?A"
    using and_not_mask_nat [of "p1 + (2 ^ k - 1 + 8)" k] u by (simp add: aligned_address_def m)
  have lt: "?x mod ?A < ?A" by simp
  have "?x - ?x mod ?A = ?A * (?x div ?A)" by (simp add: minus_mod_eq_mult_div)
  then have "2 ^ k dvd unat (aligned_address p1 (2 ^ k))" unfolding v by simp
  moreover have "unat p1 + 8 \<le> ?x - ?x mod ?A" using lt by linarith
  moreover have "?x - ?x mod ?A + n \<le> unat p1 + n + (?A - 1 + 8)" using A by linarith
  ultimately show ?thesis by (simp only: v)
qed

lemma aligned_round_trip:
  "aligned_malloc malloc n a mem = (Some p2, mem') \<Longrightarrow> malloc (n + unat (a - 1 + 8)) = Some (aligned_free mem' p2)"
  by (auto simp: aligned_malloc_def aligned_free_def Let_def split: option.splits)

section \<open>The linear allocator\<close>

text \<open>\<open>la_start\<close> is the address of the pool, \<open>None\<close> when \<^verbatim>\<open>malloc\<close> failed; \<open>la_data\<close> the next free address.\<close>

record linear =
  la_start :: "u64 option"
  la_data :: u64
  la_size :: u64
  usedSize :: u64
  alignment :: u64

definition LinearAllocator_new :: "u64 option \<Rightarrow> u64 \<Rightarrow> u64 \<Rightarrow> linear" where
  "LinearAllocator_new block n align =
     \<lparr>la_start = block, la_data = (case block of None \<Rightarrow> 0 | Some p \<Rightarrow> p), la_size = n, usedSize = 0, alignment = align\<rparr>"

text \<open>\<open>sz\<close> is \<^verbatim>\<open>sizeof(T)\<close>; the result is the address of the new object or null.\<close>

definition allocate :: "u64 \<Rightarrow> linear \<Rightarrow> u64 option \<times> linear" where
  "allocate sz a =
     (if la_size a < usedSize a + sz then (None, a)
      else (Some (la_data a), a\<lparr>usedSize := usedSize a + sz, la_data := la_data a + sz\<rparr>))"

definition reset :: "linear \<Rightarrow> linear" where
  "reset a = a\<lparr>usedSize := 0, la_data := (case la_start a of None \<Rightarrow> 0 | Some p \<Rightarrow> p)\<rparr>"

definition release :: "linear \<Rightarrow> linear" where
  "release a = a\<lparr>usedSize := 0\<rparr>"

text \<open>Offsets from the start of the pool.\<close>

definition lin_inv :: "u64 \<Rightarrow> linear \<Rightarrow> bool" where
  "lin_inv p a \<longleftrightarrow> la_start a = Some p \<and> la_data a = p + usedSize a \<and> usedSize a \<le> la_size a"

fun allocate_all :: "u64 list \<Rightarrow> linear \<Rightarrow> u64 option list \<times> linear" where
  "allocate_all [] a = ([], a)"
| "allocate_all (sz # szs) a =
     (let (p, a1) = allocate sz a; (ps, a2) = allocate_all szs a1 in (p # ps, a2))"

definition disjoint_blocks :: "u64 \<Rightarrow> (nat \<times> nat) list \<Rightarrow> nat \<Rightarrow> nat \<Rightarrow> bool" where
  "disjoint_blocks p bs lo hi \<longleftrightarrow> (\<forall>b \<in> set bs. lo \<le> fst b \<and> fst b + snd b \<le> hi)
     \<and> (\<forall>i j. i < j \<and> j < length bs \<longrightarrow> fst (bs ! i) + snd (bs ! i) \<le> fst (bs ! j))"

text \<open>The blocks handed out, as offset and length.\<close>

fun blocks :: "u64 \<Rightarrow> u64 list \<Rightarrow> u64 option list \<Rightarrow> (nat \<times> nat) list" where
  "blocks p (sz # szs) (Some q # qs) = (unat (q - p), unat sz) # blocks p szs qs"
| "blocks p (sz # szs) (None # qs) = blocks p szs qs"
| "blocks p _ _ = []"

lemma allocate_step:
  assumes "lin_inv p a" "unat (usedSize a) + unat sz < 2 ^ 64"
  shows "lin_inv p (snd (allocate sz a)) \<and> la_size (snd (allocate sz a)) = la_size a
    \<and> (case fst (allocate sz a) of
         None \<Rightarrow> snd (allocate sz a) = a
       | Some q \<Rightarrow> unat (q - p) = unat (usedSize a)
           \<and> unat (usedSize (snd (allocate sz a))) = unat (usedSize a) + unat sz)"
proof -
  have "unat (usedSize a + sz) = unat (usedSize a) + unat sz"
    using assms(2) by (simp add: unat_word_ariths)
  then show ?thesis using assms(1) by (auto simp: allocate_def lin_inv_def not_less)
qed

lemma allocate_all_blocks:
  assumes "lin_inv p a" "\<forall>sz \<in> set szs. unat (la_size a) + unat sz < 2 ^ 64"
    and "allocate_all szs a = (qs, a')"
  shows "lin_inv p a' \<and> disjoint_blocks p (blocks p szs qs) (unat (usedSize a)) (unat (la_size a))"
  using assms
proof (induction szs arbitrary: a qs)
  case Nil
  then show ?case by (simp add: disjoint_blocks_def)
next
  case (Cons sz szs)
  obtain q a1 where q: "allocate sz a = (q, a1)" by (cases "allocate sz a")
  obtain ps where ps: "allocate_all szs a1 = (ps, a')" and qs: "qs = q # ps"
    using Cons.prems(3) q by (auto split: prod.splits)
  have u: "unat (usedSize a) \<le> unat (la_size a)" using Cons.prems(1) by (simp add: lin_inv_def word_le_nat_alt)
  have "unat (la_size a) + unat sz < 2 ^ 64" using Cons.prems(2) by simp
  with u have "unat (usedSize a) + unat sz < 2 ^ 64" by linarith
  note st = allocate_step [OF Cons.prems(1) this, unfolded q, simplified]
  have ih: "lin_inv p a' \<and> disjoint_blocks p (blocks p szs ps) (unat (usedSize a1)) (unat (la_size a1))"
    using st Cons.prems(2) by (intro Cons.IH [OF _ _ ps]) auto
  show ?case
  proof (cases q)
    case None
    then show ?thesis using ih st qs by simp
  next
    case (Some x)
    let ?b = "(unat (usedSize a), unat sz)"
    have b: "blocks p (sz # szs) qs = ?b # blocks p szs ps" using Some st qs by simp
    have used: "unat (usedSize a1) = unat (usedSize a) + unat sz" "la_size a1 = la_size a" using st Some by simp_all
    have top: "unat (usedSize a1) \<le> unat (la_size a)" using used(2) st by (auto simp: lin_inv_def word_le_nat_alt)
    have "fst ((?b # blocks p szs ps) ! i) + snd ((?b # blocks p szs ps) ! i) \<le> fst ((?b # blocks p szs ps) ! j)"
      if ij: "i < j" "j < length (?b # blocks p szs ps)" for i j
    proof (cases i)
      case 0
      then obtain j' where "j = Suc j'" using ij by (cases j) auto
      then show ?thesis using 0 ij ih used nth_mem [of j' "blocks p szs ps"] by (auto simp: disjoint_blocks_def)
    next
      case (Suc i')
      then obtain j' where "j = Suc j'" using ij by (cases j) auto
      then show ?thesis using Suc ij ih by (auto simp: disjoint_blocks_def)
    qed
    then show ?thesis using ih used top unfolding b by (auto simp: disjoint_blocks_def)
  qed
qed

text \<open>
  C36. Any sequence of allocations from a fresh pool gives blocks that lie inside the pool and do not
  overlap, whatever requests in between were refused; so does any sequence after a reset.
\<close>

theorem allocations_disjoint:
  assumes "\<forall>sz \<in> set szs. unat n + unat sz < 2 ^ 64"
    and "allocate_all szs (LinearAllocator_new (Some p) n align) = (qs, a)"
    and "\<forall>sz \<in> set szs2. unat n + unat sz < 2 ^ 64" and "allocate_all szs2 (reset a) = (qs2, a2)"
  shows "disjoint_blocks p (blocks p szs qs) 0 (unat n) \<and> disjoint_blocks p (blocks p szs2 qs2) 0 (unat n)"
proof -
  have new: "lin_inv p (LinearAllocator_new (Some p) n align)"
    by (simp add: lin_inv_def LinearAllocator_new_def)
  have size: "la_size a' = la_size b" if "allocate_all xs b = (ys, a')" for xs b ys a'
    using that by (induction xs arbitrary: b ys) (auto simp: allocate_def split: prod.splits if_splits)
  have 1: "lin_inv p a" "disjoint_blocks p (blocks p szs qs) 0 (unat n)"
    using allocate_all_blocks [OF new _ assms(2)] assms(1) by (simp_all add: LinearAllocator_new_def)
  have sz: "la_size a = n" using size [OF assms(2)] by (simp add: LinearAllocator_new_def)
  have "lin_inv p (reset a)" "usedSize (reset a) = 0" "la_size (reset a) = n"
    using 1(1) sz by (simp_all add: lin_inv_def reset_def)
  with allocate_all_blocks [OF this(1) _ assms(4)] assms(3) 1(2) show ?thesis by simp
qed

theorem allocations_disjoint_witness:
  "disjoint_blocks 4096 (blocks 4096 [8, 16, 4] (fst (allocate_all [8, 16, 4] (LinearAllocator_new (Some 4096) 20 8)))) 0 (unat (20 :: u64))"
proof -
  obtain qs a where a: "allocate_all [8, 16, 4] (LinearAllocator_new (Some 4096) 20 8) = (qs, a)"
    by (cases "allocate_all [8, 16, 4] (LinearAllocator_new (Some 4096) 20 8)")
  obtain qs2 a2 where a2: "allocate_all [] (reset a) = (qs2, a2)" by simp
  show ?thesis unfolding a fst_conv using allocations_disjoint [OF _ a _ a2] by simp
qed

section \<open>Thread pools\<close>

text \<open>
  \<open>hw\<close> is the hardware concurrency, a worker is its function. Every started thread is one of the given
  workers; more threads than workers reads behind the vector.
\<close>

record 'f TPool =
  pool_workers :: "'f list"

fun start_workers :: "nat \<Rightarrow> nat \<Rightarrow> 'f list \<Rightarrow> 'f TPool \<Rightarrow> 'f TPool outcome" where
  "start_workers 0 i workers pool = Ok pool"
| "start_workers (Suc n) i workers pool =
     obind (read_at workers i) (\<lambda>w. start_workers n (i + 1) workers (pool\<lparr>pool_workers := pool_workers pool @ [w]\<rparr>))"

definition CreatePersistentPool :: "u16 \<Rightarrow> u16 \<Rightarrow> 'f list \<Rightarrow> 'f TPool outcome" where
  "CreatePersistentPool hw n workers =
     (let isize = (if hw < n then hw else n) in start_workers (unat isize) 0 workers \<lparr>pool_workers = []\<rparr>)"

definition JoinPool :: "'f TPool \<Rightarrow> 'f TPool" where
  "JoinPool pool = pool\<lparr>pool_workers := []\<rparr>"

definition GetPoolWorkCount :: "'f TPool \<Rightarrow> nat" where
  "GetPoolWorkCount pool = length (pool_workers pool)"

text \<open>\<open>None\<close> is a deleted pool.\<close>

definition DestroyPool :: "'f TPool \<Rightarrow> 'f TPool option" where
  "DestroyPool pool = (if pool_workers pool = [] then None else Some pool)"

lemma start_workers_take:
  "i + n \<le> length ws \<Longrightarrow> start_workers n i ws pool = Ok (pool\<lparr>pool_workers := pool_workers pool @ take n (drop i ws)\<rparr>)"
proof (induction n arbitrary: i pool)
  case 0
  then show ?case by simp
next
  case (Suc n)
  then have "take (Suc n) (drop i ws) = ws ! i # take n (drop (Suc i) ws)" by (simp add: Cons_nth_drop_Suc [symmetric])
  with Suc show ?case by (simp add: read_at_def)
qed

lemma CreatePersistentPool_ok:
  "unat (min hw n) \<le> length ws \<Longrightarrow> CreatePersistentPool hw n ws = Ok \<lparr>pool_workers = take (unat (min hw n)) ws\<rparr>"
  by (auto simp: CreatePersistentPool_def start_workers_take Let_def min_def not_less)

lemma DestroyPool_joined: "DestroyPool (JoinPool pool) = None"
  by (simp add: DestroyPool_def JoinPool_def)

end
