(* ===== verification/Diagnostics.thy ===== *)
theory Diagnostics
  imports Containers
begin

text \<open>
  Timing and logging: \<^verbatim>\<open>DCS_Utils/src/timer.cpp\<close> and \<^verbatim>\<open>Logger.cpp\<close>.
\<close>

section \<open>Timer\<close>

record Timestamp =
  hour :: i16
  minutes :: i16
  sec :: i16
  millis :: i16
  micros :: i16
  nanos :: i16

text \<open>\<^verbatim>\<open>duration_cast\<close> truncates towards zero; the clock is steady, so a difference is not negative.\<close>

definition cast_to :: "int \<Rightarrow> int \<Rightarrow> int" where
  "cast_to unit ns = (if 0 \<le> ns then ns div unit else - ((- ns) div unit))"

abbreviation "ns_h \<equiv> 3600000000000 :: int"
abbreviation "ns_m \<equiv> 60000000000 :: int"
abbreviation "ns_s \<equiv> 1000000000 :: int"
abbreviation "ns_ms \<equiv> 1000000 :: int"
abbreviation "ns_us \<equiv> 1000 :: int"

definition add_field :: "int \<Rightarrow> i16" where
  "add_field v = (if 0 < v then word_of_int v else 0)"

text \<open>\<^verbatim>\<open>start\<close> stores the reading of the steady clock.\<close>

definition timer_start :: "int \<Rightarrow> int" where
  "timer_start now = now"

definition getTimestamp :: "int \<Rightarrow> int \<Rightarrow> Timestamp" where
  "getTimestamp point now =
     (let ns = now - point;
          h = cast_to ns_h ns; m = cast_to ns_m ns; s = cast_to ns_s ns; ms = cast_to ns_ms ns; us = cast_to ns_us ns
      in \<lparr>hour = add_field h, minutes = add_field (m - h * 60), sec = add_field (s - m * 60),
          millis = add_field (ms - s * 1000), micros = add_field (us - ms * 1000), nanos = add_field (ns - us * 1000)\<rparr>)"

definition part :: "string \<Rightarrow> int \<Rightarrow> string" where
  "part t v = (if 0 < v then to_string v @ t else [])"

definition Timestamp_to_string :: "Timestamp \<Rightarrow> DString" where
  "Timestamp_to_string ts = String_text
     (part ''h '' (sint (hour ts)) @ part ''m '' (sint (minutes ts)) @ part ''s '' (sint (sec ts))
      @ part ''ms '' (sint (millis ts)) @ part ''us '' (sint (micros ts)) @ part ''ns'' (sint (nanos ts)))"

definition getTimestampString :: "int \<Rightarrow> int \<Rightarrow> DString" where
  "getTimestampString point now =
     (let ns = now - point;
          h = cast_to ns_h ns; m = cast_to ns_m ns; s = cast_to ns_s ns; ms = cast_to ns_ms ns; us = cast_to ns_us ns
      in String_text (part ''h '' h @ part ''m '' (m - h * 60) @ part ''s '' (s - m * 60)
        @ part ''ms '' (ms - s * 1000) @ part ''us '' (us - ms * 1000) @ part ''ns'' (ns - us * 1000)))"

definition getTimestampStringSimple :: "int \<Rightarrow> int \<Rightarrow> DString" where
  "getTimestampStringSimple point now =
     (let ns = now - point; h = cast_to ns_h ns; m = cast_to ns_m ns
      in String_text (to_string (h div 24) @ ''d '' @ to_string (h mod 24) @ ''h '' @ to_string (m - h * 60) @ ''m''))"

definition getNanoseconds :: "int \<Rightarrow> int \<Rightarrow> i64" where
  "getNanoseconds point now = word_of_int (now - point)"

definition ts_value :: "Timestamp \<Rightarrow> int" where
  "ts_value ts = sint (hour ts) * ns_h + sint (minutes ts) * ns_m + sint (sec ts) * ns_s
     + sint (millis ts) * ns_ms + sint (micros ts) * ns_us + sint (nanos ts)"

lemma sint_add_field: "0 \<le> v \<Longrightarrow> v < 2 ^ 15 \<Longrightarrow> sint (add_field v) = v"
  by (simp add: add_field_def signed_of_int signed_take_bit_int_eq_self)

lemma sub_cast: "0 \<le> ns \<Longrightarrow> 0 < a \<Longrightarrow> 0 < b \<Longrightarrow> cast_to a ns - cast_to (a * b) ns * b = (ns div a) mod b"
  by (simp add: cast_to_def minus_div_mult_eq_mod [symmetric] zdiv_zmult2_eq)

lemma unit_split:
  assumes "0 < a" "0 < (b :: int)"
  shows "ns div (a * b) * (a * b) + (ns div a) mod b * a = ns div a * a"
proof -
  have "ns div (a * b) = ns div a div b" using assms by (simp add: zdiv_zmult2_eq)
  then have "ns div (a * b) * (a * b) + (ns div a) mod b * a = (ns div a div b * b + (ns div a) mod b) * a"
    by (simp only: distrib_right mult.assoc mult.commute [of b])
  then show ?thesis by (simp only: div_mult_mod_eq)
qed

text \<open>
  A time stamp is the exact time since the start as long as the hours fit 16 bits (three years and
  eight months): its fields add up to the nanoseconds that have passed, and each field is below its unit.
\<close>

theorem timestamp_exact:
  assumes "0 \<le> now - point" and "now - point < 2 ^ 15 * ns_h"
  shows "ts_value (getTimestamp point now) = now - point
    \<and> sint (minutes (getTimestamp point now)) < 60 \<and> sint (sec (getTimestamp point now)) < 60
    \<and> sint (millis (getTimestamp point now)) < 1000 \<and> sint (micros (getTimestamp point now)) < 1000
    \<and> sint (nanos (getTimestamp point now)) < 1000"
proof -
  define ns where "ns = now - point"
  have ns: "0 \<le> ns" "ns < 2 ^ 15 * ns_h" using assms by (simp_all add: ns_def)
  have h: "cast_to ns_h ns = ns div ns_h" "0 \<le> ns div ns_h" "ns div ns_h < 2 ^ 15"
    using ns by (simp_all add: cast_to_def)
  have m: "cast_to ns_m ns - cast_to ns_h ns * 60 = (ns div ns_m) mod 60" using sub_cast [of ns ns_m 60] ns by simp
  have s: "cast_to ns_s ns - cast_to ns_m ns * 60 = (ns div ns_s) mod 60" using sub_cast [of ns ns_s 60] ns by simp
  have ms: "cast_to ns_ms ns - cast_to ns_s ns * 1000 = (ns div ns_ms) mod 1000" using sub_cast [of ns ns_ms 1000] ns by simp
  have us: "cast_to ns_us ns - cast_to ns_ms ns * 1000 = (ns div ns_us) mod 1000" using sub_cast [of ns ns_us 1000] ns by simp
  have n: "ns - cast_to ns_us ns * 1000 = ns mod 1000" using ns by (simp add: cast_to_def minus_div_mult_eq_mod)
  have f: "getTimestamp point now = \<lparr>hour = add_field (ns div ns_h), minutes = add_field ((ns div ns_m) mod 60),
      sec = add_field ((ns div ns_s) mod 60), millis = add_field ((ns div ns_ms) mod 1000),
      micros = add_field ((ns div ns_us) mod 1000), nanos = add_field (ns mod 1000)\<rparr>"
    unfolding getTimestamp_def Let_def ns_def [symmetric] h(1) [symmetric] m [symmetric] s [symmetric] ms [symmetric] us [symmetric]
      n [symmetric] by simp
  have small: "sint (add_field (x mod 60)) = x mod 60" "sint (add_field (x mod 1000)) = x mod 1000" for x
  proof -
    have "0 \<le> x mod 60" "x mod 60 < 60" "0 \<le> x mod 1000" "x mod 1000 < 1000" by simp_all
    then show "sint (add_field (x mod 60)) = x mod 60" "sint (add_field (x mod 1000)) = x mod 1000"
      by (auto intro!: sint_add_field)
  qed
  have hh: "sint (add_field (ns div ns_h)) = ns div ns_h" using h by (intro sint_add_field)
  have e1: "ns div ns_h * ns_h + (ns div ns_m) mod 60 * ns_m = ns div ns_m * ns_m"
    by (rule unit_split [of ns_m 60 ns, simplified])
  have e2: "ns div ns_m * ns_m + (ns div ns_s) mod 60 * ns_s = ns div ns_s * ns_s"
    by (rule unit_split [of ns_s 60 ns, simplified])
  have e3: "ns div ns_s * ns_s + (ns div ns_ms) mod 1000 * ns_ms = ns div ns_ms * ns_ms"
    by (rule unit_split [of ns_ms 1000 ns, simplified])
  have e4: "ns div ns_ms * ns_ms + (ns div ns_us) mod 1000 * ns_us = ns div ns_us * ns_us"
    by (rule unit_split [of ns_us 1000 ns, simplified])
  have "ts_value (getTimestamp point now) = ns div ns_us * ns_us + ns mod 1000"
    unfolding f ts_value_def Timestamp.simps small hh e1 e2 e3 e4 ..
  then have "ts_value (getTimestamp point now) = now - point" by (simp only: div_mult_mod_eq ns_def)
  then show ?thesis unfolding f Timestamp.simps small by (intro conjI) simp_all
qed

theorem timestamp_exact_witness:
  "ts_value (getTimestamp 0 3723004005006) = 3723004005006"
  using timestamp_exact [of 3723004005006 0] by simp

section \<open>Logger\<close>

datatype Verbosity = CRITICAL | ERROR | WARNING | MESSAGE | DEBUG

fun level :: "Verbosity \<Rightarrow> nat" where
  "level CRITICAL = 0"
| "level ERROR = 1"
| "level WARNING = 2"
| "level MESSAGE = 3"
| "level DEBUG = 4"

datatype Options = ENABLE_COLOR | DISABLE_COLOR

text \<open>The logger and what it has put out: lines on the console and notifications to the callback.\<close>

record logger =
  verbosity_level :: Verbosity
  options :: Options
  writenotify :: bool
  log_handle :: bool
  console :: "string list"
  notified :: "(string \<times> Verbosity) list"

definition logger_start :: logger where
  "logger_start = \<lparr>verbosity_level = DEBUG, options = ENABLE_COLOR, writenotify = False, log_handle = False,
     console = [], notified = []\<rparr>"

definition Logger_Init :: "Verbosity \<Rightarrow> bool \<Rightarrow> logger \<Rightarrow> logger" where
  "Logger_Init v opened l = l\<lparr>verbosity_level := v, log_handle := opened\<rparr>"

definition Logger_Destroy :: "logger \<Rightarrow> logger outcome" where
  "Logger_Destroy l = (if log_handle l then Ok (l\<lparr>log_handle := False\<rparr>) else Fault NullPointer)"

definition Settings :: "Options \<Rightarrow> logger \<Rightarrow> logger" where
  "Settings opt l = l\<lparr>options := opt\<rparr>"

definition ChangeVerbosity :: "Verbosity \<Rightarrow> logger \<Rightarrow> logger" where
  "ChangeVerbosity v l = l\<lparr>verbosity_level := v\<rparr>"

definition SetLogWriteCallback :: "bool \<Rightarrow> logger \<Rightarrow> logger" where
  "SetLogWriteCallback given l = l\<lparr>writenotify := given\<rparr>"

text \<open>
  \<^verbatim>\<open>WriteData\<close>. With an open file the source takes \<^verbatim>\<open>c_str\<close> of a temporary and reads it in the next
  statement, when the temporary is gone.
\<close>

definition WriteData :: "string \<Rightarrow> string \<Rightarrow> Verbosity \<Rightarrow> logger \<Rightarrow> logger outcome" where
  "WriteData plain coloured v l =
     (let l = (if level v \<le> level (verbosity_level l)
               then let l = l\<lparr>console := console l @ [if options l = ENABLE_COLOR then coloured else plain]\<rparr>
                    in if writenotify l then l\<lparr>notified := notified l @ [(plain, v)]\<rparr> else l
               else l)
      in if log_handle l then Fault Dangling else Ok l)"

fun level_tag :: "Verbosity \<Rightarrow> string" where
  "level_tag CRITICAL = ''CRITICAL''"
| "level_tag ERROR = ''ERROR''"
| "level_tag WARNING = ''WARN''"
| "level_tag MESSAGE = ''MESSAGE''"
| "level_tag DEBUG = ''DEBUG/INFO''"

fun level_colour :: "Verbosity \<Rightarrow> string" where
  "level_colour CRITICAL = CHR 0x1B # ''[31m''"
| "level_colour ERROR = CHR 0x1B # ''[1m'' @ CHR 0x1B # ''[31m''"
| "level_colour WARNING = CHR 0x1B # ''[33m''"
| "level_colour MESSAGE = CHR 0x1B # ''[34m''"
| "level_colour DEBUG = CHR 0x1B # ''[90m''"

text \<open>
  The five logging functions; \<open>text\<close> is the formatted message, which is written to a local array of 2048
  characters whatever its length.
\<close>

definition log_emit :: "Verbosity \<Rightarrow> string \<Rightarrow> string \<Rightarrow> string \<Rightarrow> logger \<Rightarrow> logger outcome" where
  "log_emit v timestamp file text l =
     (if 2048 \<le> length text then Fault OutOfBounds
      else let plain = ''['' @ timestamp @ '']['' @ file @ '']['' @ level_tag v @ '']: '' @ text
           in WriteData plain (level_colour v @ plain @ CHR 0x1B # ''[0m'') v l)"

lemma log_filter:
  assumes "\<not> log_handle l" "length text < 2048"
  shows "\<exists>l'. log_emit v ts file text l = Ok l'
    \<and> (console l' \<noteq> console l \<longleftrightarrow> level v \<le> level (verbosity_level l))
    \<and> (notified l' \<noteq> notified l \<longleftrightarrow> level v \<le> level (verbosity_level l) \<and> writenotify l)"
  using assms by (auto simp: log_emit_def WriteData_def Let_def)

lemma log_to_file_dangles: "log_handle l \<Longrightarrow> length text < 2048 \<Longrightarrow> log_emit v ts file text l = Fault Dangling"
  by (simp add: log_emit_def WriteData_def Let_def)

section \<open>The time in a log line\<close>

text \<open>A number in decimal with leading zeros, as \<^verbatim>\<open>%02d\<close> prints it.\<close>

definition pad :: "nat \<Rightarrow> nat \<Rightarrow> string" where
  "pad w n = replicate (w - length (dec_nat n)) (CHR ''0'') @ dec_nat n"

record tm =
  tm_year :: nat
  tm_mon :: nat
  tm_mday :: nat
  tm_hour :: nat
  tm_min :: nat

text \<open>
  \<^verbatim>\<open>Logger::timestamp\<close>. \<open>g\<close> is what \<^verbatim>\<open>gmtime\<close> returned and \<open>us\<close> the seconds of the minute in microseconds, as
  \<^verbatim>\<open>%09.6f\<close> rounds them. The text and its terminator are printed over a string of 26 characters, which keeps its length.
\<close>

definition timestamp_text :: "tm \<Rightarrow> nat \<Rightarrow> string" where
  "timestamp_text g us = pad 4 (tm_year g + 1900) @ ''/'' @ pad 2 (tm_mon g + 1) @ ''/'' @ pad 2 (tm_mday g) @ '' '' @
     pad 2 (tm_hour g) @ '':'' @ pad 2 (tm_min g) @ '':'' @ pad 2 (us div 1000000) @ ''.'' @ pad 6 (us mod 1000000)"

definition log_timestamp :: "tm \<Rightarrow> nat \<Rightarrow> string outcome" where
  "log_timestamp g us =
     obind (memcpy_to (''year/mo/dy hr:mn:sc.xxxxxx'' @ [NUL]) 0 (timestamp_text g us @ [NUL])) (\<lambda>b. Ok (take 26 b))"

lemma length_pad [simp]: "n < 10 ^ w \<Longrightarrow> 0 < w \<Longrightarrow> length (pad w n) = w"
  using length_dec_nat_le [of n "w - 1"] by (simp add: pad_def)

lemma length_pad_ge: "w \<le> length (pad w n)"
  by (simp add: pad_def)

lemma dec_value_zeros: "dec_value (replicate k (CHR ''0'') @ s) = dec_value s"
  by (induction k) (simp_all add: dec_value_def digit_value_def)

lemma dec_value_pad [simp]: "dec_value (pad w n) = n"
  by (simp add: pad_def dec_value_zeros)

text \<open>
  The time of a log line up to the year 9999 fills the string exactly and its fields can be read back from it; from the year 10000 on
  the text is longer than the string it is printed into.
\<close>

theorem log_time_fields:
  assumes "tm_mon g < 12" "tm_mday g < 32" "tm_hour g < 24" "tm_min g < 60" "us \<le> 61000000"
  shows "tm_year g < 8100 \<Longrightarrow> \<exists>t. log_timestamp g us = Ok t \<and> length t = 26
      \<and> dec_value (take 4 t) = tm_year g + 1900 \<and> dec_value (take 2 (drop 5 t)) = tm_mon g + 1
      \<and> dec_value (take 2 (drop 8 t)) = tm_mday g \<and> dec_value (take 2 (drop 11 t)) = tm_hour g
      \<and> dec_value (take 2 (drop 14 t)) = tm_min g
      \<and> 1000000 * dec_value (take 2 (drop 17 t)) + dec_value (drop 20 t) = us"
    and "8100 \<le> tm_year g \<Longrightarrow> log_timestamp g us = Fault OutOfBounds"
proof -
  let ?t = "timestamp_text g us"
  have "us div 1000000 < 100" using assms(5) by (simp add: less_mult_imp_div_less)
  then have l2: "length (pad 2 (tm_mon g + 1)) = 2" "length (pad 2 (tm_mday g)) = 2" "length (pad 2 (tm_hour g)) = 2"
    "length (pad 2 (tm_min g)) = 2" "length (pad 2 (us div 1000000)) = 2" "length (pad 6 (us mod 1000000)) = 6"
    using assms length_pad [of _ 2] length_pad [of "us mod 1000000" 6] by (simp_all del: length_pad)
  {
    assume y: "tm_year g < 8100"
    then have l4: "length (pad 4 (tm_year g + 1900)) = 4" by simp
    have len: "length ?t = 26" using l2 l4 by (simp add: timestamp_text_def)
    have "log_timestamp g us = Ok ?t" using len by (simp add: log_timestamp_def memcpy_to_def blit_def)
    moreover have "take 4 ?t = pad 4 (tm_year g + 1900)" "take 2 (drop 5 ?t) = pad 2 (tm_mon g + 1)"
      "take 2 (drop 8 ?t) = pad 2 (tm_mday g)" "take 2 (drop 11 ?t) = pad 2 (tm_hour g)" "take 2 (drop 14 ?t) = pad 2 (tm_min g)"
      "take 2 (drop 17 ?t) = pad 2 (us div 1000000)" "drop 20 ?t = pad 6 (us mod 1000000)"
      using l2 l4 by (simp_all add: timestamp_text_def)
    ultimately show "\<exists>t. log_timestamp g us = Ok t \<and> length t = 26
      \<and> dec_value (take 4 t) = tm_year g + 1900 \<and> dec_value (take 2 (drop 5 t)) = tm_mon g + 1
      \<and> dec_value (take 2 (drop 8 t)) = tm_mday g \<and> dec_value (take 2 (drop 11 t)) = tm_hour g
      \<and> dec_value (take 2 (drop 14 t)) = tm_min g
      \<and> 1000000 * dec_value (take 2 (drop 17 t)) + dec_value (drop 20 t) = us" using len by auto
  }
  {
    assume y: "8100 \<le> tm_year g"
    have "\<not> length (dec_nat (tm_year g + 1900)) \<le> 4"
    proof
      assume "length (dec_nat (tm_year g + 1900)) \<le> 4"
      then show False using y dec_nat_bound [of "tm_year g + 1900" 4] by simp
    qed
    then have "5 \<le> length (pad 4 (tm_year g + 1900))" by (simp add: pad_def)
    then show "log_timestamp g us = Fault OutOfBounds"
      using l2 by (simp add: log_timestamp_def memcpy_to_def timestamp_text_def)
  }
qed

end
