(* ===== verification/Daq.thy ===== *)
theory Daq
  imports Prelude "HOL-Library.Char_ord" "HOL-Library.List_Lexorder"
begin

text \<open>
  The layer over the NI-DAQmx driver, \<^verbatim>\<open>DCS_Acquisition/src/daq.cpp\<close>. The driver is a parameter: what a
  call returns is a function of the calls made before it. Every wrapper extends the record of calls,
  in which a call stands with the error code it returned.
\<close>

section \<open>The driver\<close>

datatype ChannelType = NoChannel | Voltage | Digital | Counter | PTGen

datatype ChannelRef = NoRef | DefaultRef | SingleEnded | NoRefSingleEnded | Differential | PseudoDifferential

fun ref_code :: "ChannelRef \<Rightarrow> int" where
  "ref_code NoRef = 0"
| "ref_code DefaultRef = -1"
| "ref_code SingleEnded = 10083"
| "ref_code NoRefSingleEnded = 10078"
| "ref_code Differential = 10106"
| "ref_code PseudoDifferential = 12529"

record 'f ChannelLimits =
  lim_min :: 'f
  lim_max :: 'f

datatype acq_callback = VoltageEvent_cb | CountEvent_cb

type_synonym handle = nat

datatype 'f ni_call =
    NiCreateTask string handle
  | NiClearTask handle
  | NiGetSampClkMaxRate handle
  | NiCfgSampClkTiming handle string 'f u64
  | NiRegisterEveryNSamples handle u32 acq_callback
  | NiRegisterDone handle
  | NiCfgImplicitTiming handle u64
  | NiCreateAIVoltageChan handle string int 'f 'f
  | NiCreateCICountEdgesChan handle string
  | NiCreateCOPulseChanFreq handle string 'f
  | NiStartTask handle
  | NiStopTask handle

type_synonym 'f ni_trace = "('f ni_call \<times> int) list"

text \<open>The results of the driver: error codes, the handle a creation writes, the maximal clock rate, the device names.\<close>

record 'f driver =
  ni_err :: "'f ni_trace \<Rightarrow> 'f ni_call \<Rightarrow> int"
  ni_handle :: "'f ni_trace \<Rightarrow> handle"
  ni_maxrate :: "'f ni_trace \<Rightarrow> 'f"

text \<open>Negative codes are errors, positive ones warnings; the message text that is fetched for the log is left out.\<close>

definition HandleNiError :: "int \<Rightarrow> bool" where
  "HandleNiError e \<longleftrightarrow> 0 \<le> e"

definition ni :: "'f driver \<Rightarrow> 'f ni_call \<Rightarrow> 'f ni_trace \<Rightarrow> bool \<times> 'f ni_trace" where
  "ni d c tr = (let e = ni_err d tr c in (HandleNiError e, tr @ [(c, e)]))"

text \<open>
  \<open>buffer\<close> is the caller's array after \<^verbatim>\<open>DAQmxGetSysDevNames\<close> returned the code \<open>e\<close>; after an error the two characters of the
  literal, both zero, are copied over its start. \<^verbatim>\<open>GetConnectedDevicesAliases\<close> passes its 512 characters.
\<close>

definition GetDevices :: "int \<Rightarrow> string \<Rightarrow> string outcome" where
  "GetDevices e buffer = (if \<not> HandleNiError e then memcpy_to buffer 0 [NUL, NUL] else Ok buffer)"

definition GetConnectedDevicesAliases :: "int \<Rightarrow> string \<Rightarrow> string outcome" where
  "GetConnectedDevicesAliases e buffer = obind (GetDevices e buffer) Ok"

definition GetADCMaxInternalClock :: int where
  "GetADCMaxInternalClock = 250000"

lemma devices_empty_on_error:
  assumes "length buffer = 512" "e < 0"
  shows "\<exists>b. GetConnectedDevicesAliases e buffer = Ok b \<and> cstr b = [] \<and> length b = 512"
  using assms by (simp add: GetConnectedDevicesAliases_def GetDevices_def HandleNiError_def memcpy_to_def blit_def cstr_def)

section \<open>Tasks\<close>

record 'f InternalTask =
  ni_opaque_handler :: handle
  clock_rate :: 'f
  num_samples :: u64
  t_acq_callback :: "acq_callback option"
  err_callback :: bool
  task_name :: string

text \<open>The wrappers take and return a task and the record of calls.\<close>

definition ClearTask :: "'f driver \<Rightarrow> 'f InternalTask \<Rightarrow> 'f ni_trace \<Rightarrow> 'f ni_trace" where
  "ClearTask d t tr = snd (ni d (NiClearTask (ni_opaque_handler t)) tr)"

definition CreateTask :: "'f driver \<Rightarrow> string \<Rightarrow> 'f InternalTask \<Rightarrow> 'f ni_trace \<Rightarrow> 'f InternalTask \<times> 'f ni_trace" where
  "CreateTask d nm t tr =
     (let t = t\<lparr>task_name := nm, ni_opaque_handler := ni_handle d tr\<rparr>;
          (ok, tr1) = ni d (NiCreateTask nm (ni_opaque_handler t)) tr
      in (t, if ok then tr1 else ClearTask d t tr1))"

text \<open>The common part of the two set-ups: clock, callback, and the termination callback if there is one.\<close>

definition setup_clock :: "'f driver \<Rightarrow> string \<Rightarrow> 'f InternalTask \<Rightarrow> 'f ni_trace \<Rightarrow> 'f ni_trace" where
  "setup_clock d clk_source t tr =
     (let h = ni_opaque_handler t;
          (ok, tr) = ni d (NiCfgSampClkTiming h clk_source (clock_rate t) (num_samples t)) tr
      in if \<not> ok then ClearTask d t tr
         else case t_acq_callback t of None \<Rightarrow> tr
         | Some cb \<Rightarrow>
           let (ok, tr) = ni d (NiRegisterEveryNSamples h (ucast (num_samples t)) cb) tr
           in if \<not> ok then ClearTask d t tr
              else if err_callback t then snd (ni d (NiRegisterDone h) tr) else tr)"

definition SetupTaskAI :: "'f::linorder driver \<Rightarrow> string \<Rightarrow> 'f \<Rightarrow> u64 \<Rightarrow> acq_callback \<Rightarrow> 'f InternalTask \<Rightarrow> 'f ni_trace \<Rightarrow> 'f InternalTask \<times> 'f ni_trace" where
  "SetupTaskAI d clk_source clk num_samp func t tr =
     (let maxrate = ni_maxrate d tr;
          (ok, tr) = ni d (NiGetSampClkMaxRate (ni_opaque_handler t)) tr
      in if \<not> ok then (t, ClearTask d t tr)
         else let t = t\<lparr>clock_rate := (if maxrate < clk then maxrate else clk), num_samples := num_samp, t_acq_callback := Some func\<rparr>
              in (t, setup_clock d clk_source t tr))"

definition SetupTaskCI :: "'f driver \<Rightarrow> string \<Rightarrow> 'f \<Rightarrow> u64 \<Rightarrow> acq_callback \<Rightarrow> 'f InternalTask \<Rightarrow> 'f ni_trace \<Rightarrow> 'f InternalTask \<times> 'f ni_trace" where
  "SetupTaskCI d clk_source clk num_samp func t tr =
     (let t = t\<lparr>clock_rate := clk, num_samples := num_samp, t_acq_callback := Some func\<rparr>
      in (t, setup_clock d clk_source t tr))"

definition SetupTaskPTG :: "'f driver \<Rightarrow> u64 \<Rightarrow> 'f InternalTask \<Rightarrow> 'f ni_trace \<Rightarrow> 'f ni_trace" where
  "SetupTaskPTG d buffer_sz t tr =
     (let (ok, tr) = ni d (NiCfgImplicitTiming (ni_opaque_handler t) buffer_sz) tr
      in if ok then tr else ClearTask d t tr)"

definition AddTaskChannel :: "'f::{linorder,zero} driver \<Rightarrow> string \<Rightarrow> ChannelType \<Rightarrow> ChannelRef \<Rightarrow> 'f ChannelLimits \<Rightarrow> 'f \<Rightarrow> 'f InternalTask \<Rightarrow> 'f ni_trace \<Rightarrow> 'f ni_trace" where
  "AddTaskChannel d channel_name type ref lims implicit_rate t tr =
     (let h = ni_opaque_handler t;
          create = (\<lambda>c. let (ok, tr) = ni d c tr in if ok then tr else ClearTask d t tr)
      in case type of
           Voltage \<Rightarrow> create (NiCreateAIVoltageChan h channel_name (ref_code ref) (lim_min lims) (lim_max lims))
         | Counter \<Rightarrow> create (NiCreateCICountEdgesChan h channel_name)
         | PTGen \<Rightarrow> if implicit_rate \<le> 0 then tr else create (NiCreateCOPulseChanFreq h channel_name implicit_rate)
         | _ \<Rightarrow> tr)"

definition StartTask :: "'f driver \<Rightarrow> 'f InternalTask \<Rightarrow> 'f ni_trace \<Rightarrow> 'f ni_trace" where
  "StartTask d t tr = snd (ni d (NiStartTask (ni_opaque_handler t)) tr)"

definition StopTask :: "'f driver \<Rightarrow> 'f InternalTask \<Rightarrow> 'f ni_trace \<Rightarrow> 'f ni_trace" where
  "StopTask d t tr = snd (ni d (NiStopTask (ni_opaque_handler t)) tr)"

section \<open>Which tasks the driver holds\<close>

text \<open>A successful creation adds a task; clearing removes it. The calls in between need a task that is held.\<close>

fun held_after :: "'f ni_call \<times> int \<Rightarrow> handle set \<Rightarrow> handle set" where
  "held_after (NiCreateTask nm h, e) H = (if 0 \<le> e then insert h H else H)"
| "held_after (NiClearTask h, e) H = H - {h}"
| "held_after (_, e) H = H"

definition held :: "'f ni_trace \<Rightarrow> handle set" where
  "held tr = fold held_after tr {}"

lemma held_Nil [simp]: "held [] = {}"
  by (simp add: held_def)

lemma held_append [simp]: "held (tr @ xs) = fold held_after xs (held tr)"
  by (simp add: held_def)

lemma fst_ni: "fst (ni d c tr) = HandleNiError (ni_err d tr c)"
  by (simp add: ni_def Let_def)

lemma snd_ni: "snd (ni d c tr) = tr @ [(c, ni_err d tr c)]"
  by (simp add: ni_def Let_def)

lemma held_ClearTask [simp]: "held (ClearTask d t tr) = held tr - {ni_opaque_handler t}"
  by (simp add: ClearTask_def snd_ni)

lemma held_StartTask [simp]: "held (StartTask d t tr) = held tr"
  by (simp add: StartTask_def snd_ni)

lemma held_StopTask [simp]: "held (StopTask d t tr) = held tr"
  by (simp add: StopTask_def snd_ni)

lemma held_CreateTask:
  "CreateTask d nm t tr = (t', tr') \<Longrightarrow> ni_opaque_handler t' = ni_handle d tr \<and> held tr' \<subseteq> insert (ni_handle d tr) (held tr)"
  by (auto simp: CreateTask_def Let_def ni_def split: if_splits)

lemma held_setup_clock: "held (setup_clock d src t tr) \<subseteq> held tr"
  by (auto simp: setup_clock_def Let_def ni_def split: option.splits if_splits)

lemma held_SetupTaskAI:
  assumes "SetupTaskAI d src clk n f t tr = (t', tr')"
  shows "ni_opaque_handler t' = ni_opaque_handler t \<and> held tr' \<subseteq> held tr"
proof -
  have "held (tr @ [(NiGetSampClkMaxRate (ni_opaque_handler t), e)]) = held tr" for e by simp
  then show ?thesis
    using assms held_setup_clock by (fastforce simp: SetupTaskAI_def Let_def ni_def split: if_splits)
qed

lemma held_SetupTaskCI:
  "SetupTaskCI d src clk n f t tr = (t', tr') \<Longrightarrow> ni_opaque_handler t' = ni_opaque_handler t \<and> held tr' \<subseteq> held tr"
  using held_setup_clock by (auto simp: SetupTaskCI_def Let_def dest!: subsetD [OF held_setup_clock])

lemma held_SetupTaskPTG: "held (SetupTaskPTG d n t tr) \<subseteq> held tr"
  by (auto simp: SetupTaskPTG_def Let_def ni_def)

lemma held_AddTaskChannel: "held (AddTaskChannel d ch ty ref lims rate t tr) \<subseteq> held tr"
  by (auto simp: AddTaskChannel_def Let_def ni_def split: ChannelType.splits)

end
