(* ===== verification/Acquisition.thy ===== *)
theory Acquisition
  imports Complex_Main Daq Peaks Diagnostics MsgQueue Systems
begin

text \<open>
  Data acquisition, \<^verbatim>\<open>DCS_Acquisition/src/external_cmds.cpp\<close> and \<^verbatim>\<open>global_evts.cpp\<close>: the virtual channels,
  the analog and the counting task, the callbacks that the driver runs when a buffer is full, and the event
  threads that send their results. Measured values are exact elements of an ordered field.
\<close>

abbreviation INTERNAL_SAMP_SIZE :: nat where
  "INTERNAL_SAMP_SIZE \<equiv> 1000"

abbreviation INTERNAL_ADC_MAX_CHAN :: int where
  "INTERNAL_ADC_MAX_CHAN \<equiv> 65535"

section \<open>State\<close>

datatype ChannelCountRef = CountUp | CountDown

record 'f VirtualChannel =
  vc_channel_name :: string
  vc_type :: ChannelType
  vc_ref :: ChannelRef
  vc_lim :: "'f ChannelLimits"
  vc_count_ref :: ChannelCountRef
  ptg_rate :: 'f

record 'f EventData =
  counts :: "'f CountResult"
  counts_delta :: u64
  timestamp_wall :: Timestamp
  timestamp_real :: u64
  angle_c1 :: 'f
  angle_c2 :: 'f
  angle_table :: 'f
  angle_detector :: 'f
  angle_eqv_bragg :: 'f
  temp_c1 :: 'f
  temp_c2 :: 'f
  lattice_spacing_uncorrected :: 'f
  lattice_spacing_corrected :: 'f
  bin_number_uncorrected :: u64
  bin_number_corrected :: u64

record MCACountEventData =
  mca_count :: nat
  mca_timestamp :: Timestamp
  total_max_bin_count :: u16
  bins :: "u16 list"

text \<open>What the callbacks and the event threads hand to \<^verbatim>\<open>DCS_EMIT_EVT\<close>.\<close>

datatype daq_event = VoltageEvt | CountEvt | DCSCountEvt | MCACountEvt | ClinometerEvt

datatype 'f emission =
    VoltageSamples "'f list"
  | CountSamples "u32 list"
  | DCSData "'f EventData"
  | MCAData MCACountEventData

datatype thread_ptr = NoThread | RunningThread | DeletedThread

record 'f daq =
  virtual_channels :: "(string \<times> 'f VirtualChannel) list"
  voltage_task :: "'f InternalTask"
  voltage_task_timer :: int
  voltage_task_rate :: 'f
  voltage_task_running :: bool
  voltage_task_inited :: bool
  count_task :: "'f InternalTask"
  count_task_timer :: int
  count_task_rate :: 'f
  count_task_running :: bool
  count_task_inited :: bool
  count_using_ptg :: bool
  count_task_last_count :: u64
  ptg_task :: "'f InternalTask"
  dcs_task_data :: "'f EventData smq"
  mca_task_data :: "'f EventData smq"
  cli_task_data :: "'f EventData smq"
  task_time_real :: u64
  MCA_NumChannels :: u16
  evt_loop_sig :: bool
  mca_mode :: bool
  evt_loop_dcs_thread :: thread_ptr
  evt_loop_mca_thread :: thread_ptr
  evt_loop_cli_thread :: thread_ptr
  ni_calls :: "'f ni_trace"
  emitted :: "'f emission list"

section \<open>Virtual channels\<close>

text \<open>\<^verbatim>\<open>std::map\<close> is kept as the list of its entries in the order of the keys; \<open>emplace\<close> keeps an entry that is there.\<close>

fun map_emplace :: "string \<Rightarrow> 'v \<Rightarrow> (string \<times> 'v) list \<Rightarrow> (string \<times> 'v) list" where
  "map_emplace k v [] = [(k, v)]"
| "map_emplace k v ((k', v') # m) =
     (if k < k' then (k, v) # (k', v') # m else if k = k' then (k', v') # m else (k', v') # map_emplace k v m)"

definition CountVirtualChannelsOfType :: "ChannelType \<Rightarrow> 'f daq \<Rightarrow> nat" where
  "CountVirtualChannelsOfType ty s = length (filter (\<lambda>(_, vc). vc_type vc = ty) (virtual_channels s))"

definition channel_taken :: "string \<Rightarrow> string \<Rightarrow> 'f daq \<Rightarrow> bool" where
  "channel_taken nm channel_name s =
     list_ex (\<lambda>(k, vc). k = nm \<or> vc_channel_name vc = channel_name) (virtual_channels s)"

text \<open>\<open>vcd\<close> is the freshly declared structure, whose other members are not set.\<close>

definition NewAIVChannel :: "'f VirtualChannel \<Rightarrow> string \<Rightarrow> string \<Rightarrow> ChannelRef \<Rightarrow> 'f ChannelLimits \<Rightarrow> 'f daq \<Rightarrow> 'f daq" where
  "NewAIVChannel vcd nm channel_name ref lims s =
     (if channel_taken (cstr nm) (cstr channel_name) s then s
      else s\<lparr>virtual_channels := map_emplace (cstr nm)
             (vcd\<lparr>vc_channel_name := cstr channel_name, vc_ref := ref, vc_lim := lims, vc_type := Voltage\<rparr>) (virtual_channels s)\<rparr>)"

definition NewCIChannel :: "'f VirtualChannel \<Rightarrow> string \<Rightarrow> string \<Rightarrow> ChannelCountRef \<Rightarrow> 'f daq \<Rightarrow> 'f daq" where
  "NewCIChannel vcd nm channel_name ref s =
     (if channel_taken (cstr nm) (cstr channel_name) s then s
      else s\<lparr>virtual_channels := map_emplace (cstr nm)
             (vcd\<lparr>vc_channel_name := cstr channel_name, vc_count_ref := ref, vc_type := Counter\<rparr>) (virtual_channels s)\<rparr>)"

definition NewPTGChannel :: "'f VirtualChannel \<Rightarrow> string \<Rightarrow> string \<Rightarrow> 'f \<Rightarrow> 'f daq \<Rightarrow> 'f daq" where
  "NewPTGChannel vcd nm channel_name rate s =
     (if channel_taken (cstr nm) (cstr channel_name) s then s
      else s\<lparr>virtual_channels := map_emplace (cstr nm)
             (vcd\<lparr>vc_channel_name := cstr channel_name, ptg_rate := rate, vc_type := PTGen\<rparr>) (virtual_channels s)\<rparr>)"

definition DeleteChannel :: "string \<Rightarrow> 'f daq \<Rightarrow> 'f daq" where
  "DeleteChannel nm s = s\<lparr>virtual_channels := filter (\<lambda>(k, _). k \<noteq> cstr nm) (virtual_channels s)\<rparr>"

section \<open>The event threads, started and stopped\<close>

definition StartEventLoop :: "u16 \<Rightarrow> 'f daq \<Rightarrow> 'f daq" where
  "StartEventLoop mca_num_channels s =
     (let s = s\<lparr>mca_mode := (0 < mca_num_channels), evt_loop_sig := True, evt_loop_dcs_thread := RunningThread\<rparr>;
          s = (if mca_mode s then s\<lparr>evt_loop_mca_thread := RunningThread\<rparr> else s)
      in s\<lparr>evt_loop_cli_thread := RunningThread\<rparr>)"

text \<open>
  \<^verbatim>\<open>StopEventLoop\<close> once the threads have ended (when they do is the subject of the theory of the event
  loop): joining and deleting needs a thread behind each pointer.
\<close>

definition StopEventLoop :: "'f daq \<Rightarrow> 'f daq outcome" where
  "StopEventLoop s =
     (if evt_loop_dcs_thread s \<noteq> RunningThread \<or> evt_loop_cli_thread s \<noteq> RunningThread
         \<or> mca_mode s \<and> evt_loop_mca_thread s \<noteq> RunningThread then Fault NullPointer
      else let s = s\<lparr>evt_loop_sig := False, evt_loop_dcs_thread := DeletedThread, evt_loop_cli_thread := DeletedThread\<rparr>
           in Ok (if mca_mode s then s\<lparr>evt_loop_mca_thread := DeletedThread\<rparr> else s))"

section \<open>Commands\<close>

definition DAQ_Init :: "'f::linordered_field daq \<Rightarrow> 'f daq" where
  "DAQ_Init s = s\<lparr>voltage_task_rate := 1000, count_task_rate := 1000\<rparr>"

definition DAQ_Terminate :: "'f daq \<Rightarrow> 'f daq" where
  "DAQ_Terminate s = s\<lparr>voltage_task_inited := False\<rparr>"

text \<open>The loop of \<^verbatim>\<open>StartAIAcquisition\<close> over the channels.\<close>

fun add_voltage :: "'f::linordered_field driver \<Rightarrow> 'f InternalTask \<Rightarrow> (string \<times> 'f VirtualChannel) list \<Rightarrow> 'f ni_trace \<Rightarrow> 'f ni_trace" where
  "add_voltage d t [] tr = tr"
| "add_voltage d t ((_, vc) # vcs) tr =
     add_voltage d t vcs
       (if vc_type vc \<noteq> Voltage then tr else AddTaskChannel d (vc_channel_name vc) Voltage (vc_ref vc) (vc_lim vc) 0 t tr)"

definition StartAIAcquisition :: "'f::linordered_field driver \<Rightarrow> int \<Rightarrow> string \<Rightarrow> 'f \<Rightarrow> 'f daq \<Rightarrow> 'f daq outcome" where
  "StartAIAcquisition d now clock_trigger_channel samplerate s =
     (if count_task_running s then Ok s
      else
        let s = s\<lparr>voltage_task_rate := samplerate, task_time_real := 0\<rparr> in
        if voltage_task_running s then Ok s
        else
          let s = StartEventLoop (MCA_NumChannels s) s;
              (t, tr) = CreateTask d ''T_AI'' (voltage_task s) (ni_calls s);
              s = s\<lparr>voltage_task_inited := True\<rparr>;
              tr = add_voltage d t (virtual_channels s) tr;
              n = CountVirtualChannelsOfType Voltage s
          in if n = 0 then Fault DivisionByZero
             else let (t, tr) = SetupTaskAI d (cstr clock_trigger_channel) (voltage_task_rate s)
                        (word_of_nat (INTERNAL_SAMP_SIZE div n)) VoltageEvent_cb t tr;
                      tr = StartTask d t tr
                  in Ok (s\<lparr>voltage_task := t, ni_calls := tr, voltage_task_timer := now, voltage_task_running := True\<rparr>))"

definition StopAIAcquisition :: "'f driver \<Rightarrow> 'f daq \<Rightarrow> 'f daq outcome" where
  "StopAIAcquisition d s =
     (if voltage_task_running s then
        let tr = StopTask d (voltage_task s) (ni_calls s);
            tr = ClearTask d (voltage_task s) tr
        in StopEventLoop (s\<lparr>ni_calls := tr, voltage_task_running := False, voltage_task_inited := False\<rparr>)
      else Ok s)"

text \<open>The two loops of \<^verbatim>\<open>StartCIAcquisition\<close>: the first channel of the kind counts, the second one ends the loop.\<close>

fun add_counter :: "'f::linordered_field driver \<Rightarrow> 'f InternalTask \<Rightarrow> nat \<Rightarrow> (string \<times> 'f VirtualChannel) list \<Rightarrow> 'f ni_trace \<Rightarrow> 'f ni_trace" where
  "add_counter d t channel_count [] tr = tr"
| "add_counter d t channel_count ((_, vc) # vcs) tr =
     (if vc_type vc = Counter then
        if 1 < channel_count + 1 then tr
        else add_counter d t (channel_count + 1) vcs
               (AddTaskChannel d (vc_channel_name vc) Counter NoRef \<lparr>lim_min = -10, lim_max = 10\<rparr> 0 t tr)
      else add_counter d t channel_count vcs tr)"

fun add_ptg :: "'f::linordered_field driver \<Rightarrow> 'f \<Rightarrow> nat \<Rightarrow> (string \<times> 'f VirtualChannel) list \<Rightarrow> 'f InternalTask \<times> bool \<times> 'f ni_trace \<Rightarrow> 'f InternalTask \<times> bool \<times> 'f ni_trace" where
  "add_ptg d rate channel_count [] st = st"
| "add_ptg d rate channel_count ((_, vc) # vcs) (t, ptg, tr) =
     (if vc_type vc = PTGen then
        if 1 < channel_count + 1 then (t, ptg, tr)
        else let (t, tr) = CreateTask d ''T_PTG'' t tr;
                 tr = AddTaskChannel d (vc_channel_name vc) PTGen NoRef \<lparr>lim_min = -10, lim_max = 10\<rparr> rate t tr;
                 tr = SetupTaskPTG d 1000 t tr
             in add_ptg d rate (channel_count + 1) vcs (t, True, tr)
      else add_ptg d rate channel_count vcs (t, ptg, tr))"

text \<open>The pause and reset triggers of the source only produce a warning.\<close>

definition StartCIAcquisition :: "'f::linordered_field driver \<Rightarrow> int \<Rightarrow> string \<Rightarrow> 'f \<Rightarrow> 'f daq \<Rightarrow> 'f daq outcome" where
  "StartCIAcquisition d now clock_trigger_channel rate s =
     (if voltage_task_running s then Ok s
      else if count_task_running s then Ok s
      else
        let s = s\<lparr>task_time_real := 0, count_task_last_count := 0\<rparr>;
            s = StartEventLoop 0 s;
            (t, tr) = CreateTask d ''T_CI'' (count_task s) (ni_calls s);
            s = s\<lparr>count_task_inited := True, count_task_rate := rate\<rparr>;
            tr = add_counter d t 0 (virtual_channels s) tr;
            (pt, ptg, tr) = add_ptg d (count_task_rate s) 0 (virtual_channels s) (ptg_task s, count_using_ptg s, tr);
            (t, tr) = SetupTaskCI d (cstr clock_trigger_channel) (count_task_rate s) (word_of_nat INTERNAL_SAMP_SIZE) CountEvent_cb t tr;
            tr = (if ptg then StartTask d pt tr else tr);
            tr = StartTask d t tr
        in Ok (s\<lparr>count_task := t, ptg_task := pt, count_using_ptg := ptg, ni_calls := tr,
                 count_task_timer := now, count_task_running := True\<rparr>))"

definition StopCIAcquisition :: "'f driver \<Rightarrow> 'f daq \<Rightarrow> 'f daq outcome" where
  "StopCIAcquisition d s =
     (if count_task_running s then
        let tr = StopTask d (count_task s) (ni_calls s);
            tr = (if count_using_ptg s then StopTask d (ptg_task s) tr else tr);
            tr = ClearTask d (count_task s) tr;
            tr = (if count_using_ptg s then ClearTask d (ptg_task s) tr else tr)
        in StopEventLoop (s\<lparr>ni_calls := tr, count_task_running := False, count_task_inited := False, count_using_ptg := False\<rparr>)
      else Ok s)"

definition SetMCANumChannels :: "u16 \<Rightarrow> 'f daq \<Rightarrow> 'f daq" where
  "SetMCANumChannels nChannels s =
     s\<lparr>MCA_NumChannels := (if INTERNAL_ADC_MAX_CHAN < uint nChannels then MCA_NumChannels s else nChannels)\<rparr>"

definition GetMCANumChannels :: "'f daq \<Rightarrow> u16" where
  "GetMCANumChannels s = MCA_NumChannels s"

section \<open>Any sequence of commands\<close>

datatype 'f daq_cmd =
    CNewAIV "'f VirtualChannel" string string ChannelRef "'f ChannelLimits"
  | CNewCI "'f VirtualChannel" string string ChannelCountRef
  | CNewPTG "'f VirtualChannel" string string 'f
  | CDelete string
  | CStartAI int string 'f
  | CStopAI
  | CStartCI int string 'f
  | CStopCI
  | CSetMCA u16
  | CTerminate

fun daq_exec :: "'f::linordered_field driver \<Rightarrow> 'f daq_cmd \<Rightarrow> 'f daq \<Rightarrow> 'f daq outcome" where
  "daq_exec d (CNewAIV v n c r l) s = Ok (NewAIVChannel v n c r l s)"
| "daq_exec d (CNewCI v n c r) s = Ok (NewCIChannel v n c r s)"
| "daq_exec d (CNewPTG v n c r) s = Ok (NewPTGChannel v n c r s)"
| "daq_exec d (CDelete n) s = Ok (DeleteChannel n s)"
| "daq_exec d (CStartAI now clk r) s = StartAIAcquisition d now clk r s"
| "daq_exec d CStopAI s = StopAIAcquisition d s"
| "daq_exec d (CStartCI now clk r) s = StartCIAcquisition d now clk r s"
| "daq_exec d CStopCI s = StopCIAcquisition d s"
| "daq_exec d (CSetMCA n) s = Ok (SetMCANumChannels n s)"
| "daq_exec d CTerminate s = Ok (DAQ_Terminate s)"

abbreviation daq_run :: "'f::linordered_field driver \<Rightarrow> 'f daq_cmd list \<Rightarrow> 'f daq \<Rightarrow> 'f daq outcome" where
  "daq_run d \<equiv> run_cmds (daq_exec d)"

text \<open>The static variables at the start of the program.\<close>

definition task_zero :: "'f::zero InternalTask" where
  "task_zero = \<lparr>ni_opaque_handler = 0, clock_rate = 0, num_samples = 0, t_acq_callback = None, err_callback = False, task_name = []\<rparr>"

definition daq_start :: "'f::linordered_field daq" where
  "daq_start = \<lparr>virtual_channels = [], voltage_task = task_zero, voltage_task_timer = 0, voltage_task_rate = 0,
     voltage_task_running = False, voltage_task_inited = False, count_task = task_zero, count_task_timer = 0,
     count_task_rate = 0, count_task_running = False, count_task_inited = False, count_using_ptg = False,
     count_task_last_count = 0, ptg_task = task_zero, dcs_task_data = [], mca_task_data = [], cli_task_data = [],
     task_time_real = 0, MCA_NumChannels = 2048, evt_loop_sig = False, mca_mode = False,
     evt_loop_dcs_thread = NoThread, evt_loop_mca_thread = NoThread, evt_loop_cli_thread = NoThread,
     ni_calls = [], emitted = []\<rparr>"

definition channels_ok :: "(string \<times> 'f VirtualChannel) list \<Rightarrow> bool" where
  "channels_ok vcs \<longleftrightarrow> sorted_wrt (<) (map fst vcs) \<and> distinct (map (vc_channel_name \<circ> snd) vcs)"

text \<open>The handles that running tasks use.\<close>

definition used_handles :: "'f daq \<Rightarrow> handle set" where
  "used_handles s = (if voltage_task_running s then {ni_opaque_handler (voltage_task s)} else {})
     \<union> (if count_task_running s then {ni_opaque_handler (count_task s)} else {})
     \<union> (if count_using_ptg s then {ni_opaque_handler (ptg_task s)} else {})"

definition threads_ok :: "'f daq \<Rightarrow> bool" where
  "threads_ok s \<longleftrightarrow> (evt_loop_sig s \<longleftrightarrow> voltage_task_running s \<or> count_task_running s)
     \<and> (evt_loop_dcs_thread s = RunningThread \<longleftrightarrow> evt_loop_sig s)
     \<and> (evt_loop_cli_thread s = RunningThread \<longleftrightarrow> evt_loop_sig s)
     \<and> (evt_loop_mca_thread s = RunningThread \<longleftrightarrow> evt_loop_sig s \<and> mca_mode s)"

definition daq_inv :: "'f daq \<Rightarrow> bool" where
  "daq_inv s \<longleftrightarrow> \<not> (voltage_task_running s \<and> count_task_running s) \<and> (count_using_ptg s \<longrightarrow> count_task_running s)
     \<and> threads_ok s \<and> held (ni_calls s) \<subseteq> used_handles s \<and> channels_ok (virtual_channels s)"

lemma daq_inv_start [simp]: "daq_inv daq_start"
  by (simp add: daq_inv_def daq_start_def threads_ok_def channels_ok_def)

lemma set_map_emplace: "set (map_emplace k v m) \<subseteq> insert (k, v) (set m)"
  by (induction k v m rule: map_emplace.induct) auto

lemma map_emplace_ok:
  assumes "channels_ok m" "\<forall>(k', v') \<in> set m. k' \<noteq> k \<and> vc_channel_name v' \<noteq> vc_channel_name v"
  shows "channels_ok (map_emplace k v m)"
  using assms
proof (induction k v m rule: map_emplace.induct)
  case (1 k v)
  then show ?case by (simp add: channels_ok_def)
next
  case (2 k v k' v' m)
  have ih: "channels_ok (map_emplace k v m)" if "\<not> k < k'" "k \<noteq> k'"
    using 2 that by (auto simp: channels_ok_def)
  have old: "\<forall>(x, y) \<in> set m. k' < x \<and> vc_channel_name v' \<noteq> vc_channel_name y"
    using 2(2) by (auto simp: channels_ok_def image_iff)
  show ?case
  proof (cases "k < k'")
    case True
    then have "\<forall>x \<in> set (map fst m). k < x" using old by (auto dest: less_trans)
    then show ?thesis using True 2(2,3) by (auto simp: channels_ok_def)
  next
    case False
    have ne: "k' \<noteq> k" "vc_channel_name v' \<noteq> vc_channel_name v" using 2(3) by auto
    with False have "k' < k" by simp
    then have "\<forall>(x, y) \<in> set (map_emplace k v m). k' < x \<and> vc_channel_name v' \<noteq> vc_channel_name y"
      using old ne set_map_emplace [of k v m] by auto
    then have "channels_ok ((k', v') # map_emplace k v m)"
      using ih [OF False] ne by (auto simp: channels_ok_def)
    then show ?thesis using False ne by simp
  qed
qed

lemma channels_ok_filter: "channels_ok m \<Longrightarrow> channels_ok (filter P m)"
  by (auto simp: channels_ok_def sorted_wrt_map sorted_wrt_filter distinct_map_filter)

lemma not_taken: "\<not> channel_taken k c s \<Longrightarrow> \<forall>(k', v') \<in> set (virtual_channels s). k' \<noteq> k \<and> vc_channel_name v' \<noteq> c"
  by (fastforce simp: channel_taken_def list_ex_iff)

lemma aux_frame [simp]:
  "used_handles (s\<lparr>virtual_channels := m\<rparr>) = used_handles s" "threads_ok (s\<lparr>virtual_channels := m\<rparr>) = threads_ok s"
  "used_handles (s\<lparr>MCA_NumChannels := k\<rparr>) = used_handles s" "threads_ok (s\<lparr>MCA_NumChannels := k\<rparr>) = threads_ok s"
  "used_handles (s\<lparr>voltage_task_inited := b\<rparr>) = used_handles s" "threads_ok (s\<lparr>voltage_task_inited := b\<rparr>) = threads_ok s"
  by (simp_all add: used_handles_def threads_ok_def)

lemma set_channels_inv: "daq_inv s \<Longrightarrow> channels_ok m \<Longrightarrow> daq_inv (s\<lparr>virtual_channels := m\<rparr>)"
  by (simp add: daq_inv_def)

lemma emplace_channel_inv:
  assumes "daq_inv s" "\<not> channel_taken k (vc_channel_name v) s"
  shows "daq_inv (s\<lparr>virtual_channels := map_emplace k v (virtual_channels s)\<rparr>)"
  using assms not_taken [OF assms(2)] by (intro set_channels_inv map_emplace_ok) (simp_all add: daq_inv_def)

lemma channel_commands_inv:
  assumes "daq_inv s"
  shows "daq_inv (NewAIVChannel v n c r l s)" "daq_inv (NewCIChannel v n c cr s)" "daq_inv (NewPTGChannel v n c rate s)"
    "daq_inv (DeleteChannel n s)" "daq_inv (SetMCANumChannels k s)" "daq_inv (DAQ_Terminate s)"
proof -
  show "daq_inv (NewAIVChannel v n c r l s)" using assms by (simp add: NewAIVChannel_def emplace_channel_inv)
  show "daq_inv (NewCIChannel v n c cr s)" using assms by (simp add: NewCIChannel_def emplace_channel_inv)
  show "daq_inv (NewPTGChannel v n c rate s)" using assms by (simp add: NewPTGChannel_def emplace_channel_inv)
  show "daq_inv (DeleteChannel n s)"
    using assms by (auto simp: DeleteChannel_def daq_inv_def intro!: set_channels_inv channels_ok_filter)
  show "daq_inv (SetMCANumChannels k s)" "daq_inv (DAQ_Terminate s)"
    using assms by (simp_all add: SetMCANumChannels_def DAQ_Terminate_def daq_inv_def)
qed

text \<open>The loops over the channels create at most the task they are for.\<close>

lemma held_add_voltage: "held (add_voltage d t vcs tr) \<subseteq> held tr"
proof (induction d t vcs tr rule: add_voltage.induct)
  case (1 d t tr)
  then show ?case by simp
next
  case (2 d t k vc vcs tr)
  then show ?case
    using held_AddTaskChannel [of d "vc_channel_name vc" Voltage "vc_ref vc" "vc_lim vc" 0 t tr]
    by (auto split: if_splits)
qed

lemma held_add_counter: "held (add_counter d t n vcs tr) \<subseteq> held tr"
proof (induction d t n vcs tr rule: add_counter.induct)
  case (1 d t n tr)
  then show ?case by simp
next
  case (2 d t n k vc vcs tr)
  then show ?case
    using held_AddTaskChannel [of d "vc_channel_name vc" Counter NoRef "\<lparr>lim_min = -10, lim_max = 10\<rparr>" 0 t tr]
    by (cases "vc_type vc = Counter"; cases "n = 0") (auto dest: subset_trans)
qed

lemma add_ptg_second: "0 < n \<Longrightarrow> add_ptg d rate n vcs (t, ptg, tr) = (t, ptg, tr)"
  by (induction vcs) auto

lemma held_add_ptg:
  assumes "add_ptg d rate 0 vcs (t, False, tr) = (t', ptg', tr')"
  shows "held tr' \<subseteq> held tr \<union> (if ptg' then {ni_opaque_handler t'} else {})"
  using assms
proof (induction vcs)
  case Nil
  then show ?case by simp
next
  case (Cons kv vcs)
  obtain k vc where kv: "kv = (k, vc)" by (cases kv)
  show ?case
  proof (cases "vc_type vc = PTGen")
    case False
    then show ?thesis using Cons kv by simp
  next
    case True
    obtain t1 tr1 where c: "CreateTask d ''T_PTG'' t tr = (t1, tr1)" by (cases "CreateTask d ''T_PTG'' t tr")
    let ?tr2 = "AddTaskChannel d (vc_channel_name vc) PTGen NoRef \<lparr>lim_min = -10, lim_max = 10\<rparr> rate t1 tr1"
    have r: "t' = t1" "ptg'" "tr' = SetupTaskPTG d 1000 t1 ?tr2"
      using Cons.prems True c by (auto simp: kv add_ptg_second Let_def)
    have "held tr' \<subseteq> held tr1"
      unfolding r(3) using held_SetupTaskPTG held_AddTaskChannel by (metis order_trans)
    then show ?thesis using held_CreateTask [OF c] r by auto
  qed
qed

lemma StartEventLoop_simps [simp]:
  "voltage_task_running (StartEventLoop n s) = voltage_task_running s" "count_task_running (StartEventLoop n s) = count_task_running s"
  "count_using_ptg (StartEventLoop n s) = count_using_ptg s" "virtual_channels (StartEventLoop n s) = virtual_channels s"
  "ni_calls (StartEventLoop n s) = ni_calls s" "voltage_task (StartEventLoop n s) = voltage_task s"
  "count_task (StartEventLoop n s) = count_task s" "ptg_task (StartEventLoop n s) = ptg_task s"
  "voltage_task_rate (StartEventLoop n s) = voltage_task_rate s"
  "MCA_NumChannels (StartEventLoop n s) = MCA_NumChannels s"
  by (simp_all add: StartEventLoop_def Let_def)

definition loop_started :: "'f daq \<Rightarrow> bool" where
  "loop_started s \<longleftrightarrow> evt_loop_sig s \<and> evt_loop_dcs_thread s = RunningThread \<and> evt_loop_cli_thread s = RunningThread
     \<and> (evt_loop_mca_thread s = RunningThread \<longleftrightarrow> mca_mode s)"

lemma loop_started_StartEventLoop:
  "evt_loop_mca_thread s \<noteq> RunningThread \<Longrightarrow> loop_started (StartEventLoop n s)"
  by (auto simp: loop_started_def StartEventLoop_def Let_def)

lemma StartAIAcquisition_inv:
  assumes "daq_inv s" "StartAIAcquisition d now clk r s = Ok s'"
  shows "daq_inv s'"
proof (cases "count_task_running s \<or> voltage_task_running s")
  case True
  then show ?thesis
    using assms by (auto simp: StartAIAcquisition_def Let_def daq_inv_def used_handles_def threads_ok_def split: if_splits)
next
  case False
  let ?s1 = "StartEventLoop (MCA_NumChannels s) (s\<lparr>voltage_task_rate := r, task_time_real := 0\<rparr>)"
  obtain t tr where c: "CreateTask d ''T_AI'' (voltage_task s) (ni_calls s) = (t, tr)" by fastforce
  let ?tr1 = "add_voltage d t (virtual_channels s) tr"
  obtain n t2 tr2 where u: "SetupTaskAI d (cstr clk) r n VoltageEvent_cb t ?tr1 = (t2, tr2)"
    and s': "s' = ?s1\<lparr>voltage_task_inited := True, voltage_task := t2, ni_calls := StartTask d t2 tr2,
        voltage_task_timer := now, voltage_task_running := True\<rparr>"
    using assms(2) False c by (auto simp: StartAIAcquisition_def Let_def StartEventLoop_def split: prod.splits if_splits)
  have none: "held (ni_calls s) = {}" "\<not> count_using_ptg s" "evt_loop_mca_thread s \<noteq> RunningThread"
    using assms(1) False by (auto simp: daq_inv_def used_handles_def threads_ok_def)
  have "held tr2 \<subseteq> {ni_opaque_handler t2}"
    using held_CreateTask [OF c] held_SetupTaskAI [OF u] held_add_voltage [of d t "virtual_channels s" tr] none by auto
  moreover have "loop_started ?s1" using none by (intro loop_started_StartEventLoop) simp
  ultimately show ?thesis
    using False none assms(1) unfolding s' by (simp add: daq_inv_def used_handles_def threads_ok_def loop_started_def)
qed

lemma StartCIAcquisition_inv:
  assumes "daq_inv s" "StartCIAcquisition d now clk r s = Ok s'"
  shows "daq_inv s'"
proof (cases "count_task_running s \<or> voltage_task_running s")
  case True
  then show ?thesis using assms by (auto simp: StartCIAcquisition_def split: if_splits)
next
  case False
  let ?s1 = "StartEventLoop 0 (s\<lparr>task_time_real := 0, count_task_last_count := 0\<rparr>)"
  have none: "held (ni_calls s) = {}" "count_using_ptg s = False" "evt_loop_mca_thread s \<noteq> RunningThread"
    using assms(1) False by (auto simp: daq_inv_def used_handles_def threads_ok_def)
  obtain t tr where c: "CreateTask d ''T_CI'' (count_task s) (ni_calls s) = (t, tr)" by fastforce
  let ?tr1 = "add_counter d t 0 (virtual_channels s) tr"
  obtain pt ptg tr2 where p: "add_ptg d r 0 (virtual_channels s) (ptg_task s, False, ?tr1) = (pt, ptg, tr2)" by (cases "add_ptg d r 0 (virtual_channels s) (ptg_task s, False, ?tr1)")
  obtain t3 tr3 where u: "SetupTaskCI d (cstr clk) r (word_of_nat INTERNAL_SAMP_SIZE) CountEvent_cb t tr2 = (t3, tr3)" by fastforce
  have s': "s' = ?s1\<lparr>count_task_inited := True, count_task_rate := r, count_task := t3, ptg_task := pt, count_using_ptg := ptg,
      ni_calls := StartTask d t3 (if ptg then StartTask d pt tr3 else tr3), count_task_timer := now, count_task_running := True\<rparr>"
    using assms(2) False none(2) c p u by (simp add: StartCIAcquisition_def Let_def)
  have "held tr3 \<subseteq> {ni_opaque_handler t3} \<union> (if ptg then {ni_opaque_handler pt} else {})"
    using held_CreateTask [OF c] held_SetupTaskCI [OF u] held_add_counter [of d t 0 "virtual_channels s" tr] held_add_ptg [OF p] none
    by (cases ptg) (simp_all, blast+)
  moreover have "loop_started ?s1" using none by (intro loop_started_StartEventLoop) simp
  ultimately show ?thesis
    using False none assms(1) unfolding s' by (cases ptg) (simp_all add: daq_inv_def used_handles_def threads_ok_def loop_started_def)
qed

lemma StopEventLoop_ok:
  assumes "threads_ok s" "evt_loop_sig s"
  shows "\<exists>s'. StopEventLoop (s\<lparr>ni_calls := tr, voltage_task_running := False, voltage_task_inited := vi,
      count_task_running := False, count_task_inited := ci, count_using_ptg := False\<rparr>) = Ok s'
    \<and> threads_ok s' \<and> \<not> voltage_task_running s' \<and> \<not> count_task_running s' \<and> \<not> count_using_ptg s'
    \<and> ni_calls s' = tr \<and> virtual_channels s' = virtual_channels s"
  using assms by (auto simp: StopEventLoop_def threads_ok_def Let_def)

lemma StopAIAcquisition_inv:
  assumes "daq_inv s"
  shows "\<exists>s'. StopAIAcquisition d s = Ok s' \<and> daq_inv s' \<and> \<not> voltage_task_running s'"
proof (cases "voltage_task_running s")
  case False
  then show ?thesis using assms by (simp add: StopAIAcquisition_def)
next
  case True
  let ?tr = "ClearTask d (voltage_task s) (StopTask d (voltage_task s) (ni_calls s))"
  have off: "s = s\<lparr>count_task_running := False, count_using_ptg := False\<rparr>" and th: "threads_ok s" "evt_loop_sig s"
    and h: "held ?tr = {}"
    using assms True by (auto simp: daq_inv_def threads_ok_def used_handles_def)
  have "s\<lparr>ni_calls := ?tr, voltage_task_running := False, voltage_task_inited := False\<rparr>
      = s\<lparr>ni_calls := ?tr, voltage_task_running := False, voltage_task_inited := False,
          count_task_running := False, count_task_inited := count_task_inited s, count_using_ptg := False\<rparr>"
    by (subst off) simp
  then have "StopAIAcquisition d s = StopEventLoop (s\<lparr>ni_calls := ?tr, voltage_task_running := False, voltage_task_inited := False,
          count_task_running := False, count_task_inited := count_task_inited s, count_using_ptg := False\<rparr>)"
    using True by (simp add: StopAIAcquisition_def Let_def)
  with StopEventLoop_ok [OF th, where tr = ?tr and vi = False and ci = "count_task_inited s"]
  obtain s' where "StopAIAcquisition d s = Ok s'" "threads_ok s'" "\<not> voltage_task_running s'" "\<not> count_task_running s'"
    "\<not> count_using_ptg s'" "ni_calls s' = ?tr" "virtual_channels s' = virtual_channels s" by metis
  then show ?thesis using h assms unfolding daq_inv_def by auto
qed

lemma StopCIAcquisition_inv:
  assumes "daq_inv s"
  shows "\<exists>s'. StopCIAcquisition d s = Ok s' \<and> daq_inv s' \<and> \<not> count_task_running s'"
proof (cases "count_task_running s")
  case False
  then show ?thesis using assms by (simp add: StopCIAcquisition_def)
next
  case True
  let ?tr1 = "if count_using_ptg s then StopTask d (ptg_task s) (StopTask d (count_task s) (ni_calls s)) else StopTask d (count_task s) (ni_calls s)"
  let ?tr = "if count_using_ptg s then ClearTask d (ptg_task s) (ClearTask d (count_task s) ?tr1) else ClearTask d (count_task s) ?tr1"
  have off: "s = s\<lparr>voltage_task_running := False\<rparr>" and th: "threads_ok s" "evt_loop_sig s" and h: "held ?tr = {}"
    using assms True by (auto simp: daq_inv_def threads_ok_def used_handles_def)
  have "s\<lparr>ni_calls := ?tr, count_task_running := False, count_task_inited := False, count_using_ptg := False\<rparr>
      = s\<lparr>ni_calls := ?tr, voltage_task_running := False, voltage_task_inited := voltage_task_inited s,
          count_task_running := False, count_task_inited := False, count_using_ptg := False\<rparr>"
    by (subst off) simp
  then have "StopCIAcquisition d s = StopEventLoop (s\<lparr>ni_calls := ?tr, voltage_task_running := False, voltage_task_inited := voltage_task_inited s,
          count_task_running := False, count_task_inited := False, count_using_ptg := False\<rparr>)"
    using True by (simp only: StopCIAcquisition_def Let_def if_True)
  with StopEventLoop_ok [OF th, where tr = ?tr and vi = "voltage_task_inited s" and ci = False]
  obtain s' where "StopCIAcquisition d s = Ok s'" "threads_ok s'" "\<not> voltage_task_running s'" "\<not> count_task_running s'"
    "\<not> count_using_ptg s'" "ni_calls s' = ?tr" "virtual_channels s' = virtual_channels s" by metis
  then show ?thesis using h assms unfolding daq_inv_def by simp
qed

lemma daq_exec_inv: "daq_inv s \<Longrightarrow> daq_exec d c s = Ok s' \<Longrightarrow> daq_inv s'"
  using StopAIAcquisition_inv [of s d] StopCIAcquisition_inv [of s d]
  by (cases c) (auto simp: channel_commands_inv dest: StartAIAcquisition_inv StartCIAcquisition_inv)

interpretation daq: invariant_commands "daq_exec d" daq_inv for d
  by unfold_locales (rule daq_exec_inv)

text \<open>
  C9. Whatever sequence of commands a client sends and whatever the driver answers, the analog and the counting
  acquisition never run at the same time, the event threads exist exactly while one of them runs, the driver
  holds no task but those of the running acquisition, and no two channels share a name or a connector.
\<close>

theorem acquisition_invariant:
  assumes "daq_run d cs daq_start = Ok s"
  shows "\<not> (voltage_task_running s \<and> count_task_running s)
    \<and> (evt_loop_dcs_thread s = RunningThread \<longleftrightarrow> voltage_task_running s \<or> count_task_running s)
    \<and> held (ni_calls s) \<subseteq> used_handles s
    \<and> distinct (map fst (virtual_channels s)) \<and> distinct (map (vc_channel_name \<circ> snd) (virtual_channels s))"
proof -
  have "daq_inv s" using daq.run_inv [OF assms daq_inv_start] .
  then have "threads_ok s" "channels_ok (virtual_channels s)" "\<not> (voltage_task_running s \<and> count_task_running s)"
    "held (ni_calls s) \<subseteq> used_handles s" by (simp_all add: daq_inv_def)
  moreover from this(2) have "distinct (map fst (virtual_channels s))"
    by (simp add: channels_ok_def strict_sorted_iff)
  ultimately show ?thesis by (auto simp: threads_ok_def channels_ok_def)
qed

text \<open>A driver that accepts everything.\<close>

definition good_driver :: "'f::linordered_field driver" where
  "good_driver = \<lparr>ni_err = (\<lambda>_ _. 0), ni_handle = length, ni_maxrate = (\<lambda>_. 250000)\<rparr>"

definition vc_blank :: "'f::linordered_field VirtualChannel" where
  "vc_blank = \<lparr>vc_channel_name = [], vc_type = NoChannel, vc_ref = NoRef, vc_lim = \<lparr>lim_min = -10, lim_max = 10\<rparr>,
     vc_count_ref = CountUp, ptg_rate = 0\<rparr>"

definition sample_cmds :: "rat daq_cmd list" where
  "sample_cmds = [CNewAIV vc_blank ''a'' ''Dev1/ai0'' DefaultRef \<lparr>lim_min = -10, lim_max = 10\<rparr>, CStartAI 0 ''OnboardClock'' 1000]"

lemmas daq_defs = sample_cmds_def daq_start_def NewAIVChannel_def channel_taken_def StartAIAcquisition_def
  CountVirtualChannelsOfType_def StartEventLoop_def CreateTask_def AddTaskChannel_def SetupTaskAI_def setup_clock_def
  StartTask_def ni_def HandleNiError_def good_driver_def task_zero_def

lemma sample_run_ok: "\<exists>s. daq_run good_driver sample_cmds daq_start = Ok s \<and> voltage_task_running s"
  by (simp add: daq_defs Let_def cstr_def vc_blank_def)

theorem acquisition_invariant_witness:
  "\<exists>s. daq_run good_driver sample_cmds daq_start = Ok s \<and> \<not> count_task_running s \<and> evt_loop_dcs_thread s = RunningThread"
proof -
  obtain s where s: "daq_run good_driver sample_cmds daq_start = Ok s" "voltage_task_running s" using sample_run_ok by blast
  show ?thesis using acquisition_invariant [OF s(1)] s by blast
qed



end
