(* ===== verification/EventLoop.thy ===== *)
theory EventLoop
  imports Acquisition
begin

text \<open>
  The callbacks of the acquisition driver and the event threads that take their results from the queues, of
  \<^verbatim>\<open>DCS_Acquisition/src/external_cmds.cpp\<close> and \<^verbatim>\<open>global_evts.cpp\<close>. The values the callbacks take
  from other components (samples, clock, encoder, motion controller, thermometer, data base) are arguments.
\<close>

section \<open>Callbacks\<close>

text \<open>The conversions from floating point are undefined outside the range of the target.\<close>

definition to_u64 :: "'f::floor_ceiling \<Rightarrow> u64 outcome" where
  "to_u64 x = (if -1 < x \<and> x < 2 ^ 64 then Ok (word_of_int (if x < 0 then 0 else \<lfloor>x\<rfloor>)) else Fault OutOfRange)"

definition to_u16 :: "'f::floor_ceiling \<Rightarrow> u16 outcome" where
  "to_u16 x = (if -1 < x \<and> x < 2 ^ 16 then Ok (word_of_int (if x < 0 then 0 else \<lfloor>x\<rfloor>)) else Fault OutOfRange)"

definition emit :: "(daq_event \<Rightarrow> bool) \<Rightarrow> daq_event \<Rightarrow> 'f emission \<Rightarrow> 'f daq \<Rightarrow> 'f daq" where
  "emit subscribed evt e s = (if subscribed evt then s\<lparr>emitted := emitted s @ [e]\<rparr> else s)"

definition pushToDCSTask :: "'f EventData \<Rightarrow> 'f daq \<Rightarrow> 'f daq" where
  "pushToDCSTask e s = s\<lparr>dcs_task_data := smq_push (dcs_task_data s) e\<rparr>"

definition pushToMCATask :: "'f EventData \<Rightarrow> 'f daq \<Rightarrow> 'f daq" where
  "pushToMCATask e s = s\<lparr>mca_task_data := smq_push (mca_task_data s) e\<rparr>"

definition pushToClinometerEvt :: "'f EventData \<Rightarrow> 'f daq \<Rightarrow> 'f daq" where
  "pushToClinometerEvt e s = s\<lparr>cli_task_data := smq_push (cli_task_data s) e\<rparr>"

text \<open>\<open>ed0\<close> is the freshly declared \<^verbatim>\<open>EventData\<close>, most of whose members are not set.\<close>

definition VoltageEvent :: "(daq_event \<Rightarrow> bool) \<Rightarrow> 'f EventData \<Rightarrow> int \<Rightarrow> 'f::floor_ceiling list \<Rightarrow> 'f daq \<Rightarrow> 'f daq" where
  "VoltageEvent subscribed ed0 now samples s =
     (let e = ed0\<lparr>timestamp_wall := getTimestamp (voltage_task_timer s) now,
                  counts := countArrayPeak samples (1 / 5) 10 0\<rparr>;
          s = (if subscribed DCSCountEvt then pushToDCSTask e s else s);
          s = (if subscribed MCACountEvt then pushToMCATask e s else s);
          s = (if subscribed ClinometerEvt then pushToClinometerEvt e s else s)
      in emit subscribed VoltageEvt (VoltageSamples samples) s)"

record 'f frame =
  enc_c1 :: 'f
  enc_c2 :: 'f
  table_reply :: string
  detector_reply :: string
  offset_T :: 'f
  offset_D :: 'f
  crystal_temps :: "'f \<times> 'f"

text \<open>The second comma-separated field of a reply of the motion controller.\<close>

definition reply_angle :: "(string \<Rightarrow> 'f) \<Rightarrow> string \<Rightarrow> 'f outcome" where
  "reply_angle atof reply =
     obind (split (String_text reply) CHR '','') (\<lambda>parts. obind (read_at parts 1) (\<lambda>p. Ok (atof (c_str p))))"

definition CountEvent :: "(daq_event \<Rightarrow> bool) \<Rightarrow> (string \<Rightarrow> 'f) \<Rightarrow> 'f EventData \<Rightarrow> int \<Rightarrow> 'f::floor_ceiling frame \<Rightarrow> u32 list \<Rightarrow> 'f daq \<Rightarrow> 'f daq outcome" where
  "CountEvent subscribed atof ed0 now fr cs s =
     obind (read_at cs (INTERNAL_SAMP_SIZE - 1)) (\<lambda>c1. obind (read_at cs 0) (\<lambda>c0.
     obind (if count_task_rate s = 0 then Fault OutOfRange
            else to_u64 (of_nat INTERNAL_SAMP_SIZE / count_task_rate s * 1000000000)) (\<lambda>dt.
     obind (reply_angle atof (table_reply fr)) (\<lambda>tab. obind (reply_angle atof (detector_reply fr)) (\<lambda>det.
       let e = ed0\<lparr>counts := (counts ed0)\<lparr>num_detected := unat (ucast c1 - count_task_last_count s :: u64)\<rparr>,
                   counts_delta := ucast (c1 - c0),
                   timestamp_wall := getTimestamp (count_task_timer s) now,
                   timestamp_real := task_time_real s + dt,
                   angle_c1 := enc_c1 fr, angle_c2 := enc_c2 fr,
                   angle_table := tab + offset_T fr, angle_detector := det + offset_D fr,
                   temp_c1 := fst (crystal_temps fr), temp_c2 := snd (crystal_temps fr),
                   angle_eqv_bragg := 0, lattice_spacing_uncorrected := 0, lattice_spacing_corrected := 0,
                   bin_number_uncorrected := 0, bin_number_corrected := 0\<rparr>;
           s = s\<lparr>task_time_real := task_time_real s + dt, count_task_last_count := ucast c1\<rparr>;
           s = (if subscribed DCSCountEvt then pushToDCSTask e s else s)
       in Ok (emit subscribed CountEvt (CountSamples cs) s))))))"

section \<open>Taking results from a queue\<close>

text \<open>
  \<^verbatim>\<open>GetLastDCS_IVD\<close>, \<^verbatim>\<open>GetLastMCA_IVD\<close> and \<^verbatim>\<open>GetLastClinometer_IVD\<close> differ in the queue only. Like the
  message queue they wait without a predicate; a thread woken by the notification of a stop gets the mark.
\<close>

definition stop_mark :: nat where
  "stop_mark = 2 ^ 64 - 1"

definition GetLast_IVD :: "'f EventData \<Rightarrow> 'f EventData smq \<Rightarrow> 'f EventData smq option \<Rightarrow> ('f EventData \<times> 'f EventData smq) outcome" where
  "GetLast_IVD ed0 q woken =
     obind (after_wait q woken) (\<lambda>r. case r of
         x # xs \<Rightarrow> Ok (x, xs)
       | [] \<Rightarrow> Ok (ed0\<lparr>counts := (counts ed0)\<lparr>num_detected := stop_mark\<rparr>\<rparr>, []))"

text \<open>One round of the event threads on the element taken.\<close>

definition DCSCountEvent :: "(daq_event \<Rightarrow> bool) \<Rightarrow> 'f EventData \<Rightarrow> 'f daq \<Rightarrow> 'f daq" where
  "DCSCountEvent subscribed ivd s =
     (if num_detected (counts ivd) = stop_mark then s else emit subscribed DCSCountEvt (DCSData ivd) s)"

text \<open>The loop over the maxima: \<open>bs\<close> is the array of 128 bins as it was on the stack.\<close>

fun fill_bins :: "'f::floor_ceiling list \<Rightarrow> u16 \<Rightarrow> nat \<Rightarrow> nat \<Rightarrow> u16 list \<Rightarrow> u16 list outcome" where
  "fill_bins mx nch 0 i bs = Ok bs"
| "fill_bins mx nch (Suc k) i bs =
     obind (read_at mx i) (\<lambda>v.
     obind (to_u16 (v / 10 * of_nat (unat nch))) (\<lambda>b.
     obind (memcpy_to bs i [b]) (fill_bins mx nch k (i + 1))))"

definition MCACountEvent :: "(daq_event \<Rightarrow> bool) \<Rightarrow> u16 list \<Rightarrow> u16 \<Rightarrow> 'f::floor_ceiling EventData \<Rightarrow> 'f daq \<Rightarrow> 'f daq outcome" where
  "MCACountEvent subscribed bins0 mca_num_channels ivd s =
     (if num_detected (counts ivd) = stop_mark then Ok s
      else obind (fill_bins (maxima (counts ivd)) mca_num_channels (num_detected (counts ivd)) 0 bins0) (\<lambda>bs.
        Ok (emit subscribed MCACountEvt
          (MCAData \<lparr>mca_count = num_detected (counts ivd), mca_timestamp = timestamp_wall ivd,
             total_max_bin_count = mca_num_channels, bins = bs\<rparr>) s)))"

section \<open>The spectrum\<close>

lemma fill_bins_ok:
  assumes "i + k \<le> length mx" "i + k \<le> length bs" "\<forall>v \<in> set mx. 0 \<le> v \<and> v \<le> (10 :: 'f::floor_ceiling)"
  shows "fill_bins mx nch k i bs =
    Ok (take i bs @ map (\<lambda>v. word_of_int \<lfloor>v / 10 * of_nat (unat nch)\<rfloor>) (take k (drop i mx)) @ drop (i + k) bs)"
  using assms(1,2)
proof (induction k arbitrary: i bs)
  case 0
  then show ?case by simp
next
  case (Suc k)
  let ?v = "mx ! i" and ?n = "of_nat (unat nch) :: 'f"
  have v: "0 \<le> ?v" "?v \<le> 10" using Suc.prems assms(3) by simp_all
  have "unat nch < 2 ^ 16" using unsigned_less [of nch, where ?'a = nat] by simp
  then have n: "?n < 2 ^ 16" by (metis of_nat_less_iff of_nat_numeral of_nat_power)
  have "?v / 10 * ?n \<le> 1 * ?n" using v by (intro mult_right_mono of_nat_0_le_iff) simp_all
  moreover have "0 \<le> ?v / 10 * ?n" using v by (intro mult_nonneg_nonneg divide_nonneg_nonneg of_nat_0_le_iff) simp_all
  ultimately have c: "to_u16 (?v / 10 * ?n) = Ok (word_of_int \<lfloor>?v / 10 * ?n\<rfloor>)"
    using n by (auto simp: to_u16_def intro: order.strict_trans2 [of _ 0])
  let ?bs = "blit bs i [word_of_int \<lfloor>?v / 10 * ?n\<rfloor>]"
  have l: "length ?bs = length bs" using Suc.prems by simp
  have "fill_bins mx nch (Suc k) i bs = fill_bins mx nch k (Suc i) ?bs"
    using Suc.prems c by (simp add: read_at_def memcpy_to_def)
  also have "\<dots> = Ok (take (Suc i) ?bs @ map (\<lambda>v. word_of_int \<lfloor>v / 10 * ?n\<rfloor>) (take k (drop (Suc i) mx)) @ drop (Suc i + k) ?bs)"
    using Suc.prems l Suc.IH [of "Suc i" ?bs] by simp
  also have "take (Suc i) ?bs = take i bs @ [word_of_int \<lfloor>?v / 10 * ?n\<rfloor>]" using Suc.prems by (simp add: blit_def)
  also have "drop (Suc i + k) ?bs = drop (i + Suc k) bs" using Suc.prems by (simp add: blit_def add.commute)
  also have "take (Suc k) (drop i mx) = ?v # take k (drop (Suc i) mx)"
    using Suc.prems by (simp add: Cons_nth_drop_Suc [symmetric])
  ultimately show ?case by simp
qed

lemma fill_bins_overrun:
  assumes "\<forall>v \<in> set mx. 0 \<le> v \<and> v \<le> (10 :: 'f::floor_ceiling)" "length bs < n" "n \<le> length mx"
  shows "fill_bins mx nch n 0 bs = Fault OutOfBounds"
proof -
  have split: "fill_bins mx nch (k + m) i bs = obind (fill_bins mx nch k i bs) (fill_bins mx nch m (i + k))" for k m i bs
  proof (induction k arbitrary: i bs)
    case 0
    then show ?case by simp
  next
    case (Suc k)
    have a: "obind (obind r f) g = obind r (\<lambda>x. obind (f x) g)" for r f g by (cases r) auto
    have "fill_bins mx nch (k + m) (i + 1) = (\<lambda>bs. obind (fill_bins mx nch k (i + 1) bs) (fill_bins mx nch m (i + 1 + k)))"
      by (rule ext) (rule Suc.IH)
    then show ?case by (simp only: add_Suc fill_bins.simps a) simp
  qed
  let ?L = "length bs"
  obtain m where m: "n = ?L + Suc m" using assms(2) less_imp_Suc_add by fastforce
  obtain bs' where bs': "fill_bins mx nch ?L 0 bs = Ok bs'" "length bs' = ?L"
    using fill_bins_ok [of 0 ?L mx bs nch] assms by auto
  have v: "0 \<le> mx ! ?L" "mx ! ?L \<le> 10" using assms by simp_all
  have one: "fill_bins mx nch 1 ?L (replicate (Suc ?L) 0) \<noteq> Fault OutOfRange"
    using fill_bins_ok [of ?L 1 mx "replicate (Suc ?L) 0" nch] assms by simp
  have "to_u16 (mx ! ?L / 10 * of_nat (unat nch)) \<noteq> Fault OutOfRange"
    using one assms by (auto simp: read_at_def)
  then obtain b where "to_u16 (mx ! ?L / 10 * of_nat (unat nch)) = Ok b" by (auto simp: to_u16_def split: if_splits)
  then show ?thesis unfolding m split bs' using assms bs' by (simp add: read_at_def memcpy_to_def)
qed

text \<open>
  What the multichannel thread makes of one buffer: with at most 128 pulses between 0.2 V and 10 V it emits one
  bin per pulse, the integer part of its height in units of the range over the number of channels, never above
  that number; with more than 128 pulses it writes behind the array of bins.
\<close>

theorem mca_spectrum:
  assumes "length samples = INTERNAL_SAMP_SIZE" and "length bins0 = 128"
    and "ps = pulses (1 / 5) 10 samples 0"
    and "e = ed0\<lparr>timestamp_wall := ts, counts := countArrayPeak samples (1 / 5) (10 :: 'f::floor_ceiling) 0\<rparr>"
  shows "MCACountEvent subscribed bins0 nch e s =
      (if length ps \<le> 128 then
         Ok (emit subscribed MCACountEvt (MCAData \<lparr>mca_count = length ps, mca_timestamp = ts, total_max_bin_count = nch,
            bins = map (\<lambda>p. word_of_int \<lfloor>fst p / 10 * of_nat (unat nch)\<rfloor>) ps @ drop (length ps) bins0\<rparr>) s)
       else Fault OutOfBounds)
    \<and> (\<forall>p \<in> set ps. 0 \<le> \<lfloor>fst p / 10 * of_nat (unat nch)\<rfloor> \<and> \<lfloor>fst p / 10 * of_nat (unat nch)\<rfloor> \<le> int (unat nch))"
proof
  let ?c = "countArrayPeak samples (1 / 5) (10 :: 'f) 0"
  have c: "?c = \<lparr>num_detected = length ps, maximizers = map snd ps, maxima = map fst ps\<rparr>"
    unfolding assms(3) by (rule count_pulses) simp_all
  have len: "length ps \<le> 1000" using pulses_length [of "1 / 5" 10 samples 0] assms(1,3) by simp
  then have nm: "length ps \<noteq> stop_mark" by (simp add: stop_mark_def)
  have r: "1 / 5 < fst p \<and> fst p \<le> 10" if "p \<in> set ps" for p using pulses_range that assms(3) by blast
  have mx: "\<forall>v \<in> set (map fst ps). 0 \<le> v \<and> v \<le> (10 :: 'f)" using r by (force intro: order.strict_implies_order order.strict_trans)
  show "MCACountEvent subscribed bins0 nch e s =
      (if length ps \<le> 128 then
         Ok (emit subscribed MCACountEvt (MCAData \<lparr>mca_count = length ps, mca_timestamp = ts, total_max_bin_count = nch,
            bins = map (\<lambda>p. word_of_int \<lfloor>fst p / 10 * of_nat (unat nch)\<rfloor>) ps @ drop (length ps) bins0\<rparr>) s)
       else Fault OutOfBounds)"
  proof (cases "length ps \<le> 128")
    case True
    then have "fill_bins (map fst ps) nch (length ps) 0 bins0
        = Ok (map (\<lambda>v. word_of_int \<lfloor>v / 10 * of_nat (unat nch)\<rfloor>) (map fst ps) @ drop (length ps) bins0)"
      using fill_bins_ok [OF _ _ mx, of 0 "length ps" bins0 nch] assms(2) by simp
    then show ?thesis using True nm by (simp add: MCACountEvent_def assms(4) c comp_def)
  next
    case False
    then have "fill_bins (map fst ps) nch (length ps) 0 bins0 = Fault OutOfBounds"
      using fill_bins_overrun [OF mx, of bins0 "length ps" nch] assms(2) by simp
    then show ?thesis using False nm by (simp add: MCACountEvent_def assms(4) c)
  qed
  show "\<forall>p \<in> set ps. 0 \<le> \<lfloor>fst p / 10 * of_nat (unat nch)\<rfloor> \<and> \<lfloor>fst p / 10 * of_nat (unat nch)\<rfloor> \<le> int (unat nch)"
  proof
    fix p
    assume "p \<in> set ps"
    then have v: "0 \<le> fst p / 10" "fst p / 10 \<le> 1" using mx by auto
    let ?n = "of_nat (unat nch) :: 'f"
    have n: "0 \<le> ?n" by (rule of_nat_0_le_iff)
    have "fst p / 10 * ?n \<le> 1 * ?n" using v n by (intro mult_right_mono)
    then have "\<lfloor>fst p / 10 * ?n\<rfloor> \<le> \<lfloor>?n\<rfloor>" by (intro floor_mono) simp
    moreover have "\<lfloor>?n\<rfloor> = int (unat nch)" by (rule floor_of_nat)
    moreover have "0 \<le> fst p / 10 * ?n" using v n by (intro mult_nonneg_nonneg)
    ultimately show "0 \<le> \<lfloor>fst p / 10 * ?n\<rfloor> \<and> \<lfloor>fst p / 10 * ?n\<rfloor> \<le> int (unat nch)" by simp
  qed
qed

definition ed_zero :: "rat EventData" where
  "ed_zero = \<lparr>counts = \<lparr>num_detected = 0, maximizers = [], maxima = []\<rparr>, counts_delta = 0,
     timestamp_wall = \<lparr>hour = 0, minutes = 0, sec = 0, millis = 0, micros = 0, nanos = 0\<rparr>, timestamp_real = 0,
     angle_c1 = 0, angle_c2 = 0, angle_table = 0, angle_detector = 0, angle_eqv_bragg = 0, temp_c1 = 0, temp_c2 = 0,
     lattice_spacing_uncorrected = 0, lattice_spacing_corrected = 0, bin_number_uncorrected = 0, bin_number_corrected = 0\<rparr>"

lemma pulses_quiet: "\<forall>x \<in> set xs. x \<le> vlo \<Longrightarrow> pulses vlo vhi xs k = []"
  by (induction vlo vhi xs k rule: pulses.induct) auto

lemma one_pulse:
  "pulses (1 / 5) 10 (replicate 999 (0 :: rat)) 1 = []"
  "pulses (1 / 5) 10 (5 # replicate 999 (0 :: rat)) 0 = [(5, 1)]"
proof -
  have z: "takeWhile (\<lambda>y. 1 / 5 < y) (replicate n 0) = ([] :: rat list)" "dropWhile (\<lambda>y. 1 / 5 < y) (replicate n 0) = replicate n (0 :: rat)" for n
    by (cases n; simp)+
  show q: "pulses (1 / 5) 10 (replicate 999 (0 :: rat)) 1 = []" by (rule pulses_quiet) simp
  show "pulses (1 / 5) 10 (5 # replicate 999 (0 :: rat)) 0 = [(5, 1)]" using q by (simp add: z first_max_def Let_def)
qed

theorem mca_spectrum_witness:
  "MCACountEvent (\<lambda>_. True) (replicate 128 0) 2048
     (ed_zero\<lparr>timestamp_wall := timestamp_wall ed_zero, counts := countArrayPeak (5 # replicate 999 0) (1 / 5) (10 :: rat) 0\<rparr>) daq_start
   = Ok (daq_start\<lparr>emitted := [MCAData \<lparr>mca_count = 1, mca_timestamp = timestamp_wall ed_zero, total_max_bin_count = 2048,
       bins = 1024 # replicate 127 0\<rparr>]\<rparr>)"
proof -
  show ?thesis
    using mca_spectrum [OF _ _ refl refl, where samples = "5 # replicate 999 (0 :: rat)" and ?bins0.0 = "replicate 128 0"
        and subscribed = "\<lambda>_. True" and nch = 2048 and ?ed0.0 = ed_zero and ts = "timestamp_wall ed_zero" and s = daq_start]
    using one_pulse by (simp add: emit_def daq_start_def)
qed

section \<open>The counter\<close>

fun count_run :: "(daq_event \<Rightarrow> bool) \<Rightarrow> (string \<Rightarrow> 'f) \<Rightarrow> 'f EventData \<Rightarrow> (int \<times> 'f::floor_ceiling frame \<times> u32 list) list \<Rightarrow> 'f daq \<Rightarrow> 'f daq outcome" where
  "count_run subscribed atof ed0 [] s = Ok s"
| "count_run subscribed atof ed0 ((now, fr, cs) # evs) s =
     obind (CountEvent subscribed atof ed0 now fr cs s) (count_run subscribed atof ed0 evs)"

definition final_count :: "int \<times> 'f frame \<times> u32 list \<Rightarrow> u64" where
  "final_count ev = ucast (snd (snd ev) ! (INTERNAL_SAMP_SIZE - 1))"

lemma CountEvent_pushes:
  assumes "CountEvent subscribed atof ed0 now fr cs s = Ok s'" "subscribed DCSCountEvt"
  shows "\<exists>e. dcs_task_data s' = dcs_task_data s @ [e] \<and> count_task_last_count s' = final_count (now, fr, cs)
    \<and> num_detected (counts e) = unat (final_count (now, fr, cs) - count_task_last_count s)"
  using assms
  by (auto simp: CountEvent_def Let_def emit_def pushToDCSTask_def smq_push_def final_count_def read_at_def
      elim!: obind_OkE split: if_splits)

text \<open>
  C21. The events of a counting acquisition add up: modulo 2 to the 64 the numbers of detected pulses that are queued
  sum to the progress of the hardware counter, and exactly so while the counter does not decrease.
\<close>

theorem counts_add_up:
  assumes "count_run subscribed atof ed0 evs s = Ok s'" and "subscribed DCSCountEvt"
  shows "\<exists>es. dcs_task_data s' = dcs_task_data s @ es \<and> length es = length evs
    \<and> word_of_nat (sum_list (map (num_detected \<circ> counts) es)) = count_task_last_count s' - count_task_last_count s
    \<and> (sorted (count_task_last_count s # map final_count evs) \<longrightarrow>
         sum_list (map (num_detected \<circ> counts) es) = unat (count_task_last_count s') - unat (count_task_last_count s)
         \<and> count_task_last_count s \<le> count_task_last_count s')"
  using assms(1)
proof (induction evs arbitrary: s)
  case Nil
  then show ?case by simp
next
  case (Cons ev evs)
  obtain now fr cs where ev: "ev = (now, fr, cs)" by (cases ev)
  obtain s1 where s1: "CountEvent subscribed atof ed0 now fr cs s = Ok s1" "count_run subscribed atof ed0 evs s1 = Ok s'"
    using Cons.prems by (auto simp: ev elim!: obind_OkE)
  obtain e where e: "dcs_task_data s1 = dcs_task_data s @ [e]" "count_task_last_count s1 = final_count ev"
    "num_detected (counts e) = unat (final_count ev - count_task_last_count s)"
    using CountEvent_pushes [OF s1(1) assms(2)] ev by blast
  obtain es where es: "dcs_task_data s' = dcs_task_data s1 @ es" "length es = length evs"
    "word_of_nat (sum_list (map (num_detected \<circ> counts) es)) = count_task_last_count s' - count_task_last_count s1"
    "sorted (count_task_last_count s1 # map final_count evs) \<Longrightarrow>
       sum_list (map (num_detected \<circ> counts) es) = unat (count_task_last_count s') - unat (count_task_last_count s1)
       \<and> count_task_last_count s1 \<le> count_task_last_count s'"
    using Cons.IH [OF s1(2)] by blast
  have "sum_list (map (num_detected \<circ> counts) (e # es)) = unat (count_task_last_count s') - unat (count_task_last_count s)
      \<and> count_task_last_count s \<le> count_task_last_count s'"
    if m: "sorted (count_task_last_count s # map final_count (ev # evs))"
  proof -
    have le: "count_task_last_count s \<le> final_count ev" and so: "sorted (count_task_last_count s1 # map final_count evs)"
      using m e(2) by simp_all
    note r = es(4) [OF so]
    have "unat (final_count ev - count_task_last_count s) = unat (final_count ev) - unat (count_task_last_count s)"
      using le by (rule unat_sub)
    then show ?thesis using r le e by (auto simp: word_le_nat_alt)
  qed
  moreover have "word_of_nat (sum_list (map (num_detected \<circ> counts) (e # es))) = count_task_last_count s' - count_task_last_count s"
    using es(3) e by (simp add: e(3))
  ultimately show ?case using e(1) es(1,2)
    by (intro exI [of _ "e # es"] conjI impI) (simp_all only: append_assoc append_Cons append_Nil list.size)
qed

definition sample_frame :: "rat frame" where
  "sample_frame = \<lparr>enc_c1 = 1, enc_c2 = 2, table_reply = ''0,3'', detector_reply = ''0,4'', offset_T = 0, offset_D = 0,
     crystal_temps = (20, 21)\<rparr>"

lemma sample_replies: "reply_angle atof ''0,3'' = Ok (atof ''3'')" "reply_angle atof ''0,4'' = Ok (atof ''4'')"
  by (simp_all add: reply_angle_def split_def String_text_def String_ptr_def strlen_def cstr_def c_str_def split_loop.simps read_at_def)

lemma sample_count:
  "\<exists>s'. CountEvent (\<lambda>_. True) (\<lambda>_. 0) ed_zero 0 sample_frame (replicate 1000 c) (daq_start\<lparr>count_task_rate := 1000, count_task_last_count := l\<rparr>) = Ok s'
     \<and> count_task_last_count s' = ucast c"
  by (simp add: CountEvent_def sample_frame_def sample_replies read_at_def to_u64_def Let_def emit_def pushToDCSTask_def)

theorem counts_add_up_witness:
  "\<exists>s' es. count_run (\<lambda>_. True) (\<lambda>_. 0) ed_zero [(0, sample_frame, replicate 1000 7)] (daq_start\<lparr>count_task_rate := 1000, count_task_last_count := 3\<rparr>) = Ok s'
     \<and> dcs_task_data s' = es \<and> sum_list (map (num_detected \<circ> counts) es) = 4"
proof -
  let ?s = "daq_start\<lparr>count_task_rate := 1000, count_task_last_count := 3\<rparr> :: rat daq"
  obtain s' where s': "count_run (\<lambda>_. True) (\<lambda>_. 0) ed_zero [(0, sample_frame, replicate 1000 7)] ?s = Ok s'" "count_task_last_count s' = 7"
    using sample_count [of 7 3] by auto
  have "sorted (count_task_last_count ?s # map final_count [(0 :: int, sample_frame, replicate 1000 (7 :: u32))])"
    by (simp add: final_count_def)
  then show ?thesis using counts_add_up [OF s'(1)] s' by (auto simp: daq_start_def)
qed

text \<open>
  The hardware counter has 32 bits and the subtraction 64: when the counter has wrapped around, the event
  reports its distance below 2 to the 64 instead of the pulses that arrived, and the one distance that equals the
  stop mark makes the event thread drop the event.
\<close>

theorem counter_wrap_misreported:
  assumes "CountEvent subscribed atof ed0 now fr cs s = Ok s'" and "subscribed DCSCountEvt"
    and "final_count (now, fr, cs) < count_task_last_count s"
  shows "\<exists>e. dcs_task_data s' = dcs_task_data s @ [e]
    \<and> num_detected (counts e) = 2 ^ 64 - (unat (count_task_last_count s) - unat (final_count (now, fr, cs)))
    \<and> (count_task_last_count s = final_count (now, fr, cs) + 1 \<longrightarrow> (\<forall>s. DCSCountEvent subscribed e s = s))"
proof -
  let ?c = "final_count (now, fr, cs)" and ?l = "count_task_last_count s"
  obtain e where e: "dcs_task_data s' = dcs_task_data s @ [e]" "num_detected (counts e) = unat (?c - ?l)"
    using CountEvent_pushes [OF assms(1,2)] by blast
  have lt: "unat ?c < unat ?l" using assms(3) by (simp add: word_less_nat_alt)
  have "unat ?l < 2 ^ 64" using unsigned_less [of ?l, where ?'a = nat] by simp
  moreover have "unat (?l - ?c) = unat ?l - unat ?c" using lt by (intro unat_sub) (simp add: word_le_nat_alt)
  moreover have "unat (?c - ?l) = 2 ^ 64 - unat (?l - ?c)"
  proof -
    let ?k = "unat (?l - ?c)"
    have k: "0 < ?k" using lt calculation(2) by simp
    have "?k < 2 ^ 64" using unsigned_less [of "?l - ?c", where ?'a = nat] by simp
    then have "(word_of_nat (2 ^ 64 - ?k) :: u64) = word_of_nat (2 ^ 64) - word_of_nat ?k" by (intro of_nat_diff) simp
    then have "?c - ?l = word_of_nat (2 ^ 64 - ?k)" by simp
    then show ?thesis using k by (simp only: unat_of_small_nat diff_less zero_less_power zero_less_numeral)
  qed
  ultimately have n: "num_detected (counts e) = 2 ^ 64 - (unat ?l - unat ?c)" using e(2) by simp
  have "DCSCountEvent subscribed e s = s" if "?l = ?c + 1" for s
  proof -
    have "?c - ?l = - 1" using that by simp
    then have "num_detected (counts e) = unat (- 1 :: u64)" using e(2) by simp
    then have "num_detected (counts e) = stop_mark" by (simp add: stop_mark_def unsigned_minus_1_eq_mask mask_eq_exp_minus_1)
    then show ?thesis by (simp add: DCSCountEvent_def)
  qed
  then show ?thesis using e(1) n by blast
qed

theorem counter_wrap_misreported_witness:
  "\<exists>s' e. CountEvent (\<lambda>_. True) (\<lambda>_. 0) ed_zero 0 sample_frame (replicate 1000 2) (daq_start\<lparr>count_task_rate := 1000, count_task_last_count := 4294967290\<rparr>) = Ok s'
     \<and> dcs_task_data s' = [e] \<and> num_detected (counts e) = 18446744069414584328"
proof -
  let ?s = "daq_start\<lparr>count_task_rate := 1000, count_task_last_count := 4294967290\<rparr> :: rat daq"
  obtain s' where s': "CountEvent (\<lambda>_. True) (\<lambda>_. 0) ed_zero 0 sample_frame (replicate 1000 2) ?s = Ok s'"
    using sample_count [of 2 4294967290] by blast
  have f: "final_count (0 :: int, sample_frame, replicate 1000 (2 :: u32)) = 2" by (simp add: final_count_def)
  show ?thesis using counter_wrap_misreported [OF s'] s' f by (auto simp: daq_start_def)
qed

end
