(* ===== verification/EventThread.thy ===== *)
theory EventThread
  imports EventLoop
begin

text \<open>
  The thread that runs \<^verbatim>\<open>DCSCountEvent\<close>, the callback that feeds it and \<^verbatim>\<open>StopEventLoop\<close> that ends it,
  interleaved: \<^verbatim>\<open>DCS_Acquisition/src/global_evts.cpp\<close>. A step is what a thread does between two points where
  another can see it; taking from the queue and going to sleep is one step under the mutex.
\<close>

section \<open>Steps\<close>

datatype 'f evt_pc = AtTest | AtGet | Asleep | Woken | AtEmit "'f EventData" | Finished

datatype stop_pc = NotStopping | Stored | Notified | Joined

record 'f evt_state =
  pc :: "'f evt_pc"
  sig :: bool
  queue :: "'f EventData smq"
  stopper :: stop_pc
  pushed :: "'f EventData list"
  sent :: "'f EventData list"

datatype evt_act = Normal | Spurious

definition woken_by :: "'f evt_pc \<Rightarrow> 'f evt_pc" where
  "woken_by p = (if p = Asleep then Woken else p)"

text \<open>The callback runs only until the task is stopped, before \<^verbatim>\<open>StopEventLoop\<close> begins.\<close>

inductive evt_step :: "'f EventData \<Rightarrow> evt_act \<Rightarrow> 'f evt_state \<Rightarrow> 'f evt_state \<Rightarrow> bool" for ed0 where
  test_run: "pc s = AtTest \<Longrightarrow> sig s \<Longrightarrow> evt_step ed0 Normal s (s\<lparr>pc := AtGet\<rparr>)"
| test_end: "pc s = AtTest \<Longrightarrow> \<not> sig s \<Longrightarrow> evt_step ed0 Normal s (s\<lparr>pc := Finished\<rparr>)"
| take_one: "pc s = AtGet \<Longrightarrow> GetLast_IVD ed0 (queue s) None = Ok (e, q') \<Longrightarrow>
    evt_step ed0 Normal s (s\<lparr>pc := AtEmit e, queue := q'\<rparr>)"
| sleep: "pc s = AtGet \<Longrightarrow> GetLast_IVD ed0 (queue s) None = Blocked \<Longrightarrow> evt_step ed0 Normal s (s\<lparr>pc := Asleep\<rparr>)"
| wake_up: "pc s = Woken \<Longrightarrow> GetLast_IVD ed0 [] (Some (queue s)) = Ok (e, q') \<Longrightarrow>
    evt_step ed0 Normal s (s\<lparr>pc := AtEmit e, queue := q'\<rparr>)"
| emit_one: "pc s = AtEmit e \<Longrightarrow>
    evt_step ed0 Normal s (s\<lparr>pc := AtTest, sent := (if num_detected (counts e) = stop_mark then sent s else sent s @ [e])\<rparr>)"
| push: "stopper s = NotStopping \<Longrightarrow>
    evt_step ed0 Normal s (s\<lparr>queue := smq_push (queue s) e, pushed := pushed s @ [e], pc := woken_by (pc s)\<rparr>)"
| stop_store: "stopper s = NotStopping \<Longrightarrow> evt_step ed0 Normal s (s\<lparr>stopper := Stored, sig := False\<rparr>)"
| stop_notify: "stopper s = Stored \<Longrightarrow> evt_step ed0 Normal s (s\<lparr>stopper := Notified, pc := woken_by (pc s)\<rparr>)"
| stop_join: "stopper s = Notified \<Longrightarrow> pc s = Finished \<Longrightarrow> evt_step ed0 Normal s (s\<lparr>stopper := Joined\<rparr>)"
| spurious: "pc s = Asleep \<Longrightarrow> evt_step ed0 Spurious s (s\<lparr>pc := Woken\<rparr>)"

inductive evt_reach :: "'f EventData \<Rightarrow> 'f evt_state \<Rightarrow> 'f evt_state \<Rightarrow> bool" for ed0 s0 where
  start: "evt_reach ed0 s0 s0"
| step: "evt_reach ed0 s0 s \<Longrightarrow> evt_step ed0 a s s' \<Longrightarrow> evt_reach ed0 s0 s'"

lemma evt_reach_run: "evt_reach ed0 s s' \<longleftrightarrow> (\<lambda>s s'. \<exists>a. evt_step ed0 a s s')\<^sup>*\<^sup>* s s'"
proof
  show "evt_reach ed0 s s' \<Longrightarrow> (\<lambda>s s'. \<exists>a. evt_step ed0 a s s')\<^sup>*\<^sup>* s s'"
    by (induction rule: evt_reach.induct) (auto intro: rtranclp.rtrancl_into_rtrancl)
  show "(\<lambda>s s'. \<exists>a. evt_step ed0 a s s')\<^sup>*\<^sup>* s s' \<Longrightarrow> evt_reach ed0 s s'"
    by (induction rule: rtranclp_induct) (auto intro: evt_reach.intros)
qed

text \<open>\<^verbatim>\<open>StartEventLoop\<close> starts the thread on whatever the queue still holds.\<close>

definition evt_init :: "'f EventData smq \<Rightarrow> 'f evt_state" where
  "evt_init q0 = \<lparr>pc = AtTest, sig = True, queue = q0, stopper = NotStopping, pushed = [], sent = []\<rparr>"

lemma GetLast_simps [simp]:
  "GetLast_IVD ed0 (x # xs) w = Ok (x, xs)" "GetLast_IVD ed0 [] (Some (x # xs)) = Ok (x, xs)"
  "GetLast_IVD ed0 [] None = Blocked"
  "GetLast_IVD ed0 [] (Some []) = Ok (ed0\<lparr>counts := (counts ed0)\<lparr>num_detected := stop_mark\<rparr>\<rparr>, [])"
  by (simp_all add: GetLast_IVD_def after_wait_def)

lemma GetLast_Blocked [simp]: "GetLast_IVD ed0 q None = Blocked \<longleftrightarrow> q = []"
  by (cases q) simp_all

section \<open>What is sent\<close>

definition real_event :: "'f EventData \<Rightarrow> bool" where
  "real_event e \<longleftrightarrow> num_detected (counts e) \<noteq> stop_mark"

fun in_flight :: "'f evt_pc \<Rightarrow> 'f EventData list" where
  "in_flight (AtEmit e) = (if real_event e then [e] else [])"
| "in_flight _ = []"

lemma in_flight_woken [simp]: "in_flight (woken_by p) = in_flight p"
  by (simp add: woken_by_def)

definition flow :: "'f EventData smq \<Rightarrow> 'f evt_state \<Rightarrow> bool" where
  "flow q0 s \<longleftrightarrow> sent s @ in_flight (pc s) @ filter real_event (queue s) = filter real_event (q0 @ pushed s)"

lemma mark_not_real [simp]: "\<not> real_event (ed0\<lparr>counts := (counts ed0)\<lparr>num_detected := stop_mark\<rparr>\<rparr>)"
  by (simp add: real_event_def)

lemma flow_step: "evt_step ed0 a s s' \<Longrightarrow> flow q0 s \<Longrightarrow> flow q0 s'"
proof (induction rule: evt_step.induct)
  case (take_one s e q')
  then show ?case by (cases "queue s") (auto simp: flow_def)
next
  case (wake_up s e q')
  then show ?case by (cases "queue s") (auto simp: flow_def)
qed (auto simp: flow_def real_event_def smq_push_def)

lemma flow_init: "flow q0 (evt_init q0)"
  by (simp add: flow_def evt_init_def)

interpretation evt: invariant_system "\<lambda>s s'. \<exists>a. evt_step ed0 a s s'" "flow q0" for ed0 q0
  by unfold_locales (auto intro: flow_step)

lemma flow_reach: "evt_reach ed0 (evt_init q0) s \<Longrightarrow> flow q0 s"
  using evt.run_inv evt_reach_run flow_init by blast

text \<open>
  C23. However the event thread, the callback and a stop interleave, and whatever wakes the thread, the events sent
  are in order the queued ones, none twice and none made up: what was sent, is being sent or is still queued is what
  the queue held at the start followed by what the callback added. The start is not empty when an earlier
  acquisition was stopped before its events were taken; they are then sent as part of the new one.
\<close>

theorem events_sent_in_order:
  assumes "evt_reach ed0 (evt_init q0) s"
  shows "sent s @ in_flight (pc s) @ filter real_event (queue s) = filter real_event (q0 @ pushed s)"
  using flow_reach [OF assms] by (simp add: flow_def)

theorem events_sent_in_order_witness:
  "\<exists>s. evt_reach ed_zero (evt_init [ed_zero]) s \<and> sent s = [ed_zero]
     \<and> sent s @ in_flight (pc s) @ filter real_event (queue s) = filter real_event ([ed_zero] @ pushed s)"
proof -
  let ?i = "evt_init [ed_zero]"
  let ?s1 = "?i\<lparr>pc := AtGet\<rparr>"
  let ?s2 = "?s1\<lparr>pc := AtEmit ed_zero, queue := []\<rparr>"
  let ?s3 = "?s2\<lparr>pc := AtTest, sent := (if num_detected (counts ed_zero) = stop_mark then sent ?s2 else sent ?s2 @ [ed_zero])\<rparr>"
  have "evt_step ed_zero Normal ?i ?s1" by (rule evt_step.test_run) (simp_all add: evt_init_def)
  moreover have "evt_step ed_zero Normal ?s1 ?s2" by (rule evt_step.take_one) (simp_all add: evt_init_def)
  moreover have "evt_step ed_zero Normal ?s2 ?s3" by (rule evt_step.emit_one) simp
  ultimately have r: "evt_reach ed_zero ?i ?s3" by (meson evt_reach.intros)
  have "sent ?s3 = [ed_zero]" by (simp add: evt_init_def ed_zero_def stop_mark_def)
  then show ?thesis using r events_sent_in_order [OF r] by blast
qed

section \<open>Stopping\<close>

text \<open>The thread has left the loop test with an empty queue, or sleeps, after the only notification.\<close>

definition missed :: "'f evt_state \<Rightarrow> bool" where
  "missed s \<longleftrightarrow> pc s = Asleep \<or> pc s = AtGet \<and> queue s = []"

fun pc_rank :: "'f evt_pc \<Rightarrow> nat" where
  "pc_rank AtGet = 4"
| "pc_rank Asleep = 4"
| "pc_rank Woken = 4"
| "pc_rank (AtEmit e) = 3"
| "pc_rank AtTest = 2"
| "pc_rank Finished = 1"

definition stop_rank :: "'f evt_state \<Rightarrow> nat" where
  "stop_rank s = (if stopper s = Joined then 0 else pc_rank (pc s))"

definition stopping :: "'f evt_state \<Rightarrow> bool" where
  "stopping s \<longleftrightarrow> \<not> sig s \<and> \<not> missed s \<and> (stopper s = Notified \<or> stopper s = Joined \<and> pc s = Finished)"

lemma stopping_step:
  assumes "evt_step ed0 a s s'" "stopping s"
  shows "stopping s' \<and> stop_rank s' < stop_rank s"
  using assms by (cases rule: evt_step.cases) (auto simp: stopping_def missed_def stop_rank_def)

lemma stopping_progress:
  assumes "stopping s" "stopper s \<noteq> Joined"
  shows "\<exists>s'. evt_step ed0 Normal s s'"
proof -
  have st: "stopper s = Notified" "\<not> sig s" "\<not> missed s" using assms by (auto simp: stopping_def)
  show ?thesis
  proof (cases "pc s")
    case AtGet
    then obtain x xs where "queue s = x # xs" using st by (cases "queue s") (auto simp: missed_def)
    then show ?thesis using AtGet evt_step.take_one [of s ed0 x xs] by auto
  next
    case Woken
    then obtain e q' where "GetLast_IVD ed0 [] (Some (queue s)) = Ok (e, q')" by (cases "queue s") auto
    then show ?thesis using Woken evt_step.wake_up by blast
  qed (use st in \<open>auto simp: missed_def intro: evt_step.test_end evt_step.emit_one evt_step.stop_join\<close>)
qed

interpretation stop: ranked_system "\<lambda>s s'. \<exists>a. evt_step ed0 a s s'" stopping stop_rank "\<lambda>s. stopper s = Joined" for ed0
  by unfold_locales (use stopping_step stopping_progress in blast)+

lemma missed_stuck: "stopper s = Notified \<Longrightarrow> pc s = Asleep \<Longrightarrow> \<not> evt_step ed0 Normal s s'"
  by (auto elim: evt_step.cases)

text \<open>
  C24. \<^verbatim>\<open>StopEventLoop\<close> stores the signal and notifies once. If the thread then is not about to sleep, no schedule
  runs for ever or gets stuck before the thread is joined. If it has tested the signal before the store and reaches
  its wait after the notification, it sleeps and the stop never returns; this happens in a reachable state.
\<close>

theorem stop_event_loop:
  "(stopper s = Notified \<and> \<not> sig s \<and> \<not> missed s \<longrightarrow>
      (\<exists>s'. evt_reach ed0 s s' \<and> stopper s' = Joined)
      \<and> (\<forall>a s1 s2. evt_reach ed0 s s1 \<and> evt_step ed0 a s1 s2 \<longrightarrow> stop_rank s2 < stop_rank s1))
   \<and> (\<exists>s'. evt_reach ed0 (evt_init []) s' \<and> stopper s' = Notified \<and> pc s' = Asleep \<and> (\<forall>s2. \<not> evt_step ed0 Normal s' s2))"
proof
  show "stopper s = Notified \<and> \<not> sig s \<and> \<not> missed s \<longrightarrow>
      (\<exists>s'. evt_reach ed0 s s' \<and> stopper s' = Joined)
      \<and> (\<forall>a s1 s2. evt_reach ed0 s s1 \<and> evt_step ed0 a s1 s2 \<longrightarrow> stop_rank s2 < stop_rank s1)"
  proof
    assume "stopper s = Notified \<and> \<not> sig s \<and> \<not> missed s"
    then have st: "stopping s" by (simp add: stopping_def)
    have "stopping s1" if "evt_reach ed0 s s1" for s1 using stop.run_inv that st evt_reach_run by blast
    then show "(\<exists>s'. evt_reach ed0 s s' \<and> stopper s' = Joined)
      \<and> (\<forall>a s1 s2. evt_reach ed0 s s1 \<and> evt_step ed0 a s1 s2 \<longrightarrow> stop_rank s2 < stop_rank s1)"
      using stop.reaches_goal [OF st] stopping_step evt_reach_run by blast
  qed
  let ?i = "evt_init [] :: 'a evt_state"
  let ?s1 = "?i\<lparr>pc := AtGet\<rparr>"
  let ?s2 = "?s1\<lparr>stopper := Stored, sig := False\<rparr>"
  let ?s3 = "?s2\<lparr>stopper := Notified, pc := woken_by (pc ?s2)\<rparr>"
  let ?s4 = "?s3\<lparr>pc := Asleep\<rparr>"
  have "evt_step ed0 Normal ?i ?s1" by (rule evt_step.test_run) (simp_all add: evt_init_def)
  moreover have "evt_step ed0 Normal ?s1 ?s2" by (rule evt_step.stop_store) (simp add: evt_init_def)
  moreover have "evt_step ed0 Normal ?s2 ?s3" by (rule evt_step.stop_notify) simp
  moreover have "evt_step ed0 Normal ?s3 ?s4" by (rule evt_step.sleep) (simp_all add: woken_by_def evt_init_def)
  ultimately have "evt_reach ed0 ?i ?s4" by (meson evt_reach.intros)
  then show "\<exists>s'. evt_reach ed0 (evt_init []) s' \<and> stopper s' = Notified \<and> pc s' = Asleep \<and> (\<forall>s2. \<not> evt_step ed0 Normal s' s2)"
    by (intro exI [of _ ?s4]) (simp add: missed_stuck)
qed

theorem stop_event_loop_witness:
  "\<exists>s'. evt_reach ed_zero (\<lparr>pc = Woken, sig = False, queue = [], stopper = Notified, pushed = [], sent = []\<rparr>) s' \<and> stopper s' = Joined"
  using stop_event_loop [of "\<lparr>pc = Woken, sig = False, queue = [], stopper = Notified, pushed = [], sent = []\<rparr>" ed_zero]
  by (simp add: missed_def)

end
