(* ===== verification/Serial.thy ===== *)
theory Serial
  imports Prelude
begin

text \<open>
  The serial port of \<^verbatim>\<open>DCS_EngineControl/src/serial_win.cpp\<close>. The Windows calls are arguments: what opening and
  configuring the port returned, and the stream of results of reading one byte.
\<close>

section \<open>Opening a port\<close>

record SerialArgs =
  baudRate :: u32
  byteSize :: u8
  stopBits :: u8
  parity :: u8
  readIntervalTimeout :: u32
  readTotalTimeoutConstant :: u32
  readTotalTimeoutMultiplier :: u32
  writeTotalTimeoutConstant :: u32
  writeTotalTimeoutMultiplier :: u32

record DCB =
  dcb_BaudRate :: u32
  dcb_ByteSize :: u8
  dcb_StopBits :: u8
  dcb_Parity :: u8

text \<open>An argument that is not 0, else the value the port has, else the default.\<close>

definition pick :: "'a::zero \<Rightarrow> 'a \<Rightarrow> 'a \<Rightarrow> 'a" where
  "pick arg cur dflt = (if arg \<noteq> 0 then arg else if cur \<noteq> 0 then cur else dflt)"

definition port_params :: "SerialArgs \<Rightarrow> DCB \<Rightarrow> DCB" where
  "port_params args dcb = \<lparr>dcb_BaudRate = pick (baudRate args) (dcb_BaudRate dcb) 921600,
     dcb_ByteSize = pick (byteSize args) (dcb_ByteSize dcb) 8,
     dcb_StopBits = pick (stopBits args) (dcb_StopBits dcb) 0,
     dcb_Parity = pick (parity args) (dcb_Parity dcb) 0\<rparr>"

definition port_timeouts :: "SerialArgs \<Rightarrow> u32 \<times> u32 \<times> u32 \<times> u32 \<times> u32" where
  "port_timeouts args = (pick (readIntervalTimeout args) 0 50, pick (readTotalTimeoutConstant args) 0 50,
     pick (readTotalTimeoutMultiplier args) 0 10, pick (writeTotalTimeoutConstant args) 0 50,
     pick (writeTotalTimeoutMultiplier args) 0 10)"

text \<open>
  \<^verbatim>\<open>init_handle\<close>: \<open>opened\<close> is the handle \<^verbatim>\<open>CreateFile\<close> returned, \<open>dcb\<close> what \<^verbatim>\<open>GetCommState\<close> filled in
  (zeros when it failed). A port is returned with the parameters and timeouts that were requested for it; failures
  of the later calls only produce warnings. \<^verbatim>\<open>ONESTOPBIT\<close> and \<^verbatim>\<open>NOPARITY\<close> are 0.
\<close>

record port =
  port_handle :: u64
  port_dcb :: DCB
  port_times :: "u32 \<times> u32 \<times> u32 \<times> u32 \<times> u32"

definition init_handle :: "u64 option \<Rightarrow> DCB \<Rightarrow> SerialArgs \<Rightarrow> port option" where
  "init_handle opened dcb args =
     (case opened of None \<Rightarrow> None
      | Some h \<Rightarrow> Some \<lparr>port_handle = h, port_dcb = port_params args dcb, port_times = port_timeouts args\<rparr>)"

text \<open>\<open>sent\<close> is what the line has carried; \<open>ok\<close> the result of \<^verbatim>\<open>WriteFile\<close>, which sends the bytes on success.\<close>

definition write_bytes :: "port option \<Rightarrow> bool \<Rightarrow> string \<Rightarrow> string \<Rightarrow> bool \<times> string" where
  "write_bytes p ok chars sent =
     (case p of None \<Rightarrow> (False, sent)
      | Some _ \<Rightarrow> if ok then (True, sent @ chars) else (False, sent))"

section \<open>Reading a line\<close>

text \<open>One call of \<^verbatim>\<open>ReadFile\<close>: it fails, it times out without a byte (and succeeds), or it gives a byte.\<close>

datatype rd = RFail | RTimeout | RChar char

abbreviation RX_EOF :: char where
  "RX_EOF \<equiv> CHR 0x0A"

abbreviation READ_BUFFER_SIZE :: nat where
  "READ_BUFFER_SIZE \<equiv> 256"

record rx_state =
  rx_i :: nat
  rx_excess :: nat
  rx_last :: int
  rx_buf :: string
  rx_status :: bool

fun rd_char :: "rd \<Rightarrow> char" where
  "rd_char (RChar c) = c"
| "rd_char _ = NUL"

text \<open>The loop of \<^verbatim>\<open>read_bytes\<close>; a stream that ends is a line on which nothing more happens.\<close>

fun rx_loop :: "rd list \<Rightarrow> rx_state \<Rightarrow> (rx_state \<times> rd list) outcome" where
  "rx_loop [] r = Blocked"
| "rx_loop (RFail # rs) r = Ok (r\<lparr>rx_status := False\<rparr>, rs)"
| "rx_loop (x # rs) r =
     (let tempChar = rd_char x in
      if rx_i r = READ_BUFFER_SIZE then
        let r = r\<lparr>rx_excess := rx_excess r + 1\<rparr>
        in if tempChar = RX_EOF then Ok (r, rs) else rx_loop rs r
      else
        let r = r\<lparr>rx_last := int (rx_i r) - 1, rx_buf := (rx_buf r)[rx_i r := tempChar], rx_i := rx_i r + 1\<rparr>
        in if tempChar = RX_EOF then Ok (r, rs) else rx_loop rs r)"

text \<open>
  \<^verbatim>\<open>read_bytes\<close> after the two event calls succeeded (\<open>ready\<close>): the result, the caller's buffer and the rest of the
  stream. \<open>local0\<close> is the uninitialised local array; writing at \<open>last\<close> when it is negative is outside the array, and
  \<^verbatim>\<open>strcpy_s\<close> ends the program when the text with its terminator does not fit.
\<close>

definition read_bytes :: "string \<Rightarrow> port option \<Rightarrow> bool \<Rightarrow> rd list \<Rightarrow> string \<Rightarrow> (bool \<times> string \<times> rd list) outcome" where
  "read_bytes local0 p ready rs buffer =
     (if p = None \<or> \<not> ready then Ok (False, buffer, rs)
      else obind (rx_loop rs \<lparr>rx_i = 0, rx_excess = 0, rx_last = 0, rx_buf = local0, rx_status = True\<rparr>) (\<lambda>(r, rs).
        if rx_i r = READ_BUFFER_SIZE \<and> rx_buf r ! (READ_BUFFER_SIZE - 1) \<noteq> RX_EOF then Ok (False, buffer, rs)
        else if \<not> rx_status r then Ok (False, buffer, rs)
        else if rx_last r < 0 then Fault OutOfBounds
        else let text = cstr ((rx_buf r)[nat (rx_last r) := NUL]) in
          if length text \<le> length buffer then
            if length text = length buffer then Fault OutOfBounds
            else Ok (True, text @ NUL # drop (length text + 1) buffer, rs)
          else Ok (False, buffer, rs)))"

definition comnumber_to_string :: "u8 \<Rightarrow> string" where
  "comnumber_to_string n = ''COM'' @ to_string (uint n)"

lemma rx_loop_line:
  assumes "RX_EOF \<notin> set cs" "rx_i r + length cs < READ_BUFFER_SIZE" "length (rx_buf r) = READ_BUFFER_SIZE" "0 < rx_i r + length cs"
  shows "rx_loop (map RChar cs @ RChar RX_EOF # rs) r =
    Ok (r\<lparr>rx_last := int (rx_i r + length cs) - 1, rx_buf := blit (rx_buf r) (rx_i r) (cs @ [RX_EOF]),
          rx_i := rx_i r + length cs + 1\<rparr>, rs)"
  using assms
proof (induction cs arbitrary: r)
  case Nil
  then show ?case by (simp add: Let_def blit_def upd_conv_take_nth_drop)
next
  case (Cons c cs)
  let ?r = "r\<lparr>rx_last := int (rx_i r) - 1, rx_buf := (rx_buf r)[rx_i r := c], rx_i := rx_i r + 1\<rparr>"
  have "rx_loop (map RChar (c # cs) @ RChar RX_EOF # rs) r = rx_loop (map RChar cs @ RChar RX_EOF # rs) ?r"
    using Cons.prems by (auto simp: Let_def)
  also have "\<dots> = Ok (?r\<lparr>rx_last := int (rx_i ?r + length cs) - 1, rx_buf := blit (rx_buf ?r) (rx_i ?r) (cs @ [RX_EOF]),
          rx_i := rx_i ?r + length cs + 1\<rparr>, rs)"
    using Cons.prems by (intro Cons.IH) auto
  also have "blit (rx_buf ?r) (rx_i ?r) (cs @ [RX_EOF]) = blit (rx_buf r) (rx_i r) (c # cs @ [RX_EOF])"
    using Cons.prems by (simp add: blit_def upd_conv_take_nth_drop add.commute)
  finally show ?case by simp
qed

lemma read_line:
  assumes "RX_EOF \<notin> set line" and "NUL \<notin> set line" and "length line \<le> 254"
    and "length local0 = READ_BUFFER_SIZE" and "length buffer = 256"
  shows "\<exists>rest. read_bytes local0 (Some p) True (map RChar (line @ [CHR 0x0D]) @ RChar RX_EOF # rs) buffer = Ok (True, line @ NUL # rest, rs)
    \<and> length (line @ NUL # rest) = 256"
proof -
  let ?r = "\<lparr>rx_i = 0, rx_excess = 0, rx_last = 0, rx_buf = local0, rx_status = True\<rparr>"
  let ?cs = "line @ [CHR 0x0D]"
  have l: "rx_loop (map RChar ?cs @ RChar RX_EOF # rs) ?r =
      Ok (?r\<lparr>rx_last := int (rx_i ?r + length ?cs) - 1, rx_buf := blit (rx_buf ?r) (rx_i ?r) (?cs @ [RX_EOF]),
          rx_i := rx_i ?r + length ?cs + 1\<rparr>, rs)"
    using assms by (intro rx_loop_line) auto
  have "blit local0 0 (?cs @ [RX_EOF]) = line @ CHR 0x0D # RX_EOF # drop (length line + 2) local0" by (simp add: blit_def)
  then have t: "(blit local0 0 (?cs @ [RX_EOF]))[length line := NUL] = line @ NUL # RX_EOF # drop (length line + 2) local0"
    by simp
  have full: "length line = 254 \<Longrightarrow> blit local0 0 (?cs @ [RX_EOF]) ! 255 = RX_EOF" by (simp add: blit_def nth_append)
  show ?thesis
    using assms l t full by (auto simp: read_bytes_def Let_def simp del: map_append)
qed

text \<open>
  C31. A line of at most 254 characters that ends in carriage return and line feed is delivered without them, with a
  terminator, and what follows on the line stays to be read.
\<close>

theorem serial_reads_line:
  assumes "RX_EOF \<notin> set line" and "NUL \<notin> set line" and "length line \<le> 254"
    and "length local0 = READ_BUFFER_SIZE" and "length buffer = 256"
  shows "\<exists>rest. read_bytes local0 (Some p) True (map RChar (line @ [CHR 0x0D]) @ RChar RX_EOF # rs) buffer = Ok (True, line @ NUL # rest, rs)
    \<and> length (line @ NUL # rest) = 256"
  using assms by (rule read_line)

definition sample_args :: SerialArgs where
  "sample_args = \<lparr>baudRate = 9600, byteSize = 8, stopBits = 0, parity = 0, readIntervalTimeout = 0, readTotalTimeoutConstant = 0,
     readTotalTimeoutMultiplier = 0, writeTotalTimeoutConstant = 0, writeTotalTimeoutMultiplier = 0\<rparr>"

definition sample_port :: port where
  "sample_port = \<lparr>port_handle = 1, port_dcb = port_params sample_args \<lparr>dcb_BaudRate = 0, dcb_ByteSize = 0, dcb_StopBits = 0, dcb_Parity = 0\<rparr>,
     port_times = port_timeouts sample_args\<rparr>"

theorem serial_reads_line_witness:
  "\<exists>rest. read_bytes (replicate 256 NUL) (Some sample_port) True
     (map RChar (''1.5'' @ [CHR 0x0D]) @ RChar RX_EOF # []) (replicate 256 NUL) = Ok (True, ''1.5'' @ NUL # rest, [])"
  using serial_reads_line [of "''1.5''" "replicate 256 NUL" "replicate 256 NUL" sample_port "[]"]
  by auto

text \<open>A lone line feed makes the terminator go before the array; a silent line fills the array with timeouts and is then read for ever.\<close>

lemma lone_line_feed_faults:
  "length local0 = READ_BUFFER_SIZE \<Longrightarrow> read_bytes local0 (Some p) True (RChar RX_EOF # rs) buffer = Fault OutOfBounds"
  by (simp add: read_bytes_def Let_def)

lemma rx_loop_silent: "rx_loop (replicate n RTimeout) r = Blocked"
  by (induction n arbitrary: r) (auto simp: Let_def)

lemma silent_line_hangs: "read_bytes local0 (Some p) True (replicate n RTimeout) buffer = Blocked"
  by (simp add: read_bytes_def rx_loop_silent)

section \<open>Listing and closing ports\<close>

text \<open>\<open>handles\<close> are the open handles of the process; \<^verbatim>\<open>CloseHandle\<close> fails for any other.\<close>

definition close_handle :: "u64 \<Rightarrow> u64 set \<Rightarrow> bool \<times> u64 set" where
  "close_handle h handles = (h \<in> handles, handles - {h})"

text \<open>A device as the three set-up calls describe it: whether it has a hardware id, and its friendly name.\<close>

record dev_info =
  di_hardware :: bool
  di_friendly :: "string option"

text \<open>The loop over \<^verbatim>\<open>m\<close>; a device that a call fails for is passed over, one whose name does not fit ends the loop.\<close>

fun enum_loop :: "(nat \<Rightarrow> dev_info option) \<Rightarrow> nat list \<Rightarrow> u32 \<Rightarrow> string \<Rightarrow> u32 \<Rightarrow> (string \<times> u32) outcome" where
  "enum_loop devs [] buff_size buffer tSize = Ok (buffer, tSize)"
| "enum_loop devs (m # ms) buff_size buffer tSize =
     (case devs m of None \<Rightarrow> enum_loop devs ms buff_size buffer tSize
      | Some d \<Rightarrow>
        if \<not> di_hardware d then enum_loop devs ms buff_size buffer tSize
        else case di_friendly d of None \<Rightarrow> enum_loop devs ms buff_size buffer tSize
        | Some name \<Rightarrow>
          let rSize = word_of_nat (length name) in
          if tSize + rSize < buff_size
          then obind (memcpy_to buffer (unat tSize) name) (\<lambda>b. enum_loop devs ms buff_size b (tSize + rSize))
          else Ok (buffer, tSize))"

definition enumerate_ports :: "bool \<Rightarrow> (nat \<Rightarrow> dev_info option) \<Rightarrow> string \<Rightarrow> i32 \<Rightarrow> (string \<times> i32) outcome" where
  "enumerate_ports created devs buffer buff_size =
     (if created then enum_loop devs [0..<10] buff_size buffer 0 else Ok (buffer, 0))"

text \<open>The names in the order of the devices, and as many of them as fit.\<close>

definition dev_names :: "(nat \<Rightarrow> dev_info option) \<Rightarrow> nat list \<Rightarrow> string list" where
  "dev_names devs ms = List.map_filter (\<lambda>m. case devs m of None \<Rightarrow> None
     | Some d \<Rightarrow> if di_hardware d then di_friendly d else None) ms"

fun fitting :: "nat \<Rightarrow> nat \<Rightarrow> string list \<Rightarrow> string list" where
  "fitting n used [] = []"
| "fitting n used (x # xs) = (if used + length x < n then x # fitting n (used + length x) xs else [])"

lemma dev_names_Cons: "dev_names devs (m # ms) =
    (case devs m of None \<Rightarrow> dev_names devs ms
     | Some d \<Rightarrow> if di_hardware d then (case di_friendly d of None \<Rightarrow> dev_names devs ms | Some nm \<Rightarrow> nm # dev_names devs ms)
                 else dev_names devs ms)"
  by (simp add: dev_names_def map_filter_simps split: option.splits)

lemma enum_loop_fits:
  assumes "\<forall>nm\<in>set (dev_names devs ms). length nm \<le> 300" "length buffer = n" "n < 2 ^ 31" "used < n \<or> used = 0" "used \<le> n"
  shows "\<exists>b. enum_loop devs ms (word_of_nat n) buffer (word_of_nat used)
      = Ok (b, word_of_nat (used + length (concat (fitting n used (dev_names devs ms)))))
    \<and> b = take used buffer @ concat (fitting n used (dev_names devs ms)) @ drop (used + length (concat (fitting n used (dev_names devs ms)))) buffer"
  using assms
proof (induction ms arbitrary: buffer used)
  case Nil
  then show ?case by (simp add: dev_names_def map_filter_simps)
next
  case (Cons m ms)
  show ?case
  proof (cases "\<exists>d nm. devs m = Some d \<and> di_hardware d \<and> di_friendly d = Some nm")
    case False
    then have "enum_loop devs (m # ms) (word_of_nat n) buffer (word_of_nat used) = enum_loop devs ms (word_of_nat n) buffer (word_of_nat used)"
      "dev_names devs (m # ms) = dev_names devs ms"
      by (auto simp: dev_names_Cons split: option.splits)
    then show ?thesis using Cons by simp
  next
    case True
    then obtain d nm where d: "devs m = Some d" "di_hardware d" "di_friendly d = Some nm" by blast
    have names: "dev_names devs (m # ms) = nm # dev_names devs ms" using d by (simp add: dev_names_Cons)
    have nm: "length nm \<le> 300" using Cons.prems(1) names by simp
    have sum: "(word_of_nat used :: u32) + word_of_nat (length nm) = word_of_nat (used + length nm)" by simp
    have lt: "(word_of_nat (used + length nm) :: u32) < word_of_nat n \<longleftrightarrow> used + length nm < n"
      using Cons.prems nm by (simp add: word_less_nat_alt del: of_nat_add)
    have u: "unat (word_of_nat used :: u32) = used" using Cons.prems by (intro unat32_of_small_nat) simp
    show ?thesis
    proof (cases "used + length nm < n")
      case fits: True
      let ?b = "blit buffer used nm"
      have b: "length ?b = n" using fits Cons.prems(2) by simp
      have step: "enum_loop devs (m # ms) (word_of_nat n) buffer (word_of_nat used) = enum_loop devs ms (word_of_nat n) ?b (word_of_nat (used + length nm))"
        using d fits lt u Cons.prems(2) unfolding enum_loop.simps by (simp add: Let_def sum memcpy_to_def del: of_nat_add)
      obtain r where r: "enum_loop devs ms (word_of_nat n) ?b (word_of_nat (used + length nm))
          = Ok (r, word_of_nat (used + length nm + length (concat (fitting n (used + length nm) (dev_names devs ms)))))"
        "r = take (used + length nm) ?b @ concat (fitting n (used + length nm) (dev_names devs ms))
           @ drop (used + length nm + length (concat (fitting n (used + length nm) (dev_names devs ms)))) ?b"
        using Cons.IH [of ?b "used + length nm"] Cons.prems names b fits by auto
      have tk: "take (used + length nm) ?b = take used buffer @ nm" using fits Cons.prems(2) take_blit_end [of used buffer nm] by simp
      have dr: "drop (used + length nm + k) ?b = drop (used + length nm + k) buffer" for k
        using fits Cons.prems(2) by (simp add: blit_def add.commute)
      show ?thesis using step r tk dr fits names by (simp add: add.assoc)
    next
      case False
      then have "enum_loop devs (m # ms) (word_of_nat n) buffer (word_of_nat used) = Ok (buffer, word_of_nat used)"
        using d lt unfolding enum_loop.simps by (simp add: Let_def sum del: of_nat_add)
      then show ?thesis using False names by simp
    qed
  qed
qed

text \<open>
  Listing the ports writes the names of the devices one after the other, in order, as many as leave room for one more character, and
  nothing behind them: it never writes outside the caller's buffer, and the result is the number of characters written.
\<close>

theorem enumerate_ports_fills_buffer:
  assumes "length buffer < 2 ^ 31" and "\<forall>nm\<in>set (dev_names devs [0..<10]). length nm \<le> 300"
  shows "enumerate_ports True devs buffer (word_of_nat (length buffer))
    = (let names = concat (fitting (length buffer) 0 (dev_names devs [0..<10]))
       in Ok (names @ drop (length names) buffer, word_of_nat (length names)))"
  using enum_loop_fits [OF assms(2) HOL.refl assms(1), of 0] by (auto simp: enumerate_ports_def Let_def)

theorem enumerate_ports_fills_buffer_witness:
  "enumerate_ports True (\<lambda>m. if m = 2 then Some \<lparr>di_hardware = True, di_friendly = Some ''COM3''\<rparr> else None) (replicate 6 (CHR ''.'')) 6
     = Ok (''COM3'' @ replicate 2 (CHR ''.''), 4)"
proof -
  let ?devs = "\<lambda>m. if m = 2 then Some \<lparr>di_hardware = True, di_friendly = Some ''COM3''\<rparr> else None"
  have n: "dev_names ?devs [0..<10] = [''COM3'']" by (simp add: dev_names_def map_filter_def upt_rec)
  show ?thesis using enumerate_ports_fills_buffer [of "replicate 6 (CHR ''.'')" ?devs] by (simp add: n Let_def)
qed

text \<open>
  \<^verbatim>\<open>SetupDiCreateDeviceInfoList\<close>, which the source calls, returns an empty list of devices: no device is ever found.
\<close>

lemma empty_list_enumerates_nothing: "enumerate_ports True (\<lambda>_. None) buffer n = Ok (buffer, 0)"
proof -
  have "enum_loop (\<lambda>_. None) ms n buffer 0 = Ok (buffer, 0)" for ms by (induction ms) simp_all
  then show ?thesis by (simp add: enumerate_ports_def)
qed

end
