(* ===== verification/Thermo.thy ===== *)
theory Thermo
  imports Serial MsgQueue
begin

text \<open>
  The thermometer of \<^verbatim>\<open>DCS_Acquisition/src/temperature.cpp\<close>: the check sum of its Modbus requests, one reading, and the
  loop that queues readings for \<^verbatim>\<open>InspectLastTemperatureValues\<close>.
\<close>

section \<open>The check sum\<close>

definition crc_table :: "u16 list" where
  "crc_table = [
     0x0000, 0xC0C1, 0xC181, 0x0140, 0xC301, 0x03C0, 0x0280, 0xC241,
     0xC601, 0x06C0, 0x0780, 0xC741, 0x0500, 0xC5C1, 0xC481, 0x0440,
     0xCC01, 0x0CC0, 0x0D80, 0xCD41, 0x0F00, 0xCFC1, 0xCE81, 0x0E40,
     0x0A00, 0xCAC1, 0xCB81, 0x0B40, 0xC901, 0x09C0, 0x0880, 0xC841,
     0xD801, 0x18C0, 0x1980, 0xD941, 0x1B00, 0xDBC1, 0xDA81, 0x1A40,
     0x1E00, 0xDEC1, 0xDF81, 0x1F40, 0xDD01, 0x1DC0, 0x1C80, 0xDC41,
     0x1400, 0xD4C1, 0xD581, 0x1540, 0xD701, 0x17C0, 0x1680, 0xD641,
     0xD201, 0x12C0, 0x1380, 0xD341, 0x1100, 0xD1C1, 0xD081, 0x1040,
     0xF001, 0x30C0, 0x3180, 0xF141, 0x3300, 0xF3C1, 0xF281, 0x3240,
     0x3600, 0xF6C1, 0xF781, 0x3740, 0xF501, 0x35C0, 0x3480, 0xF441,
     0x3C00, 0xFCC1, 0xFD81, 0x3D40, 0xFF01, 0x3FC0, 0x3E80, 0xFE41,
     0xFA01, 0x3AC0, 0x3B80, 0xFB41, 0x3900, 0xF9C1, 0xF881, 0x3840,
     0x2800, 0xE8C1, 0xE981, 0x2940, 0xEB01, 0x2BC0, 0x2A80, 0xEA41,
     0xEE01, 0x2EC0, 0x2F80, 0xEF41, 0x2D00, 0xEDC1, 0xEC81, 0x2C40,
     0xE401, 0x24C0, 0x2580, 0xE541, 0x2700, 0xE7C1, 0xE681, 0x2640,
     0x2200, 0xE2C1, 0xE381, 0x2340, 0xE101, 0x21C0, 0x2080, 0xE041,
     0xA001, 0x60C0, 0x6180, 0xA141, 0x6300, 0xA3C1, 0xA281, 0x6240,
     0x6600, 0xA6C1, 0xA781, 0x6740, 0xA501, 0x65C0, 0x6480, 0xA441,
     0x6C00, 0xACC1, 0xAD81, 0x6D40, 0xAF01, 0x6FC0, 0x6E80, 0xAE41,
     0xAA01, 0x6AC0, 0x6B80, 0xAB41, 0x6900, 0xA9C1, 0xA881, 0x6840,
     0x7800, 0xB8C1, 0xB981, 0x7940, 0xBB01, 0x7BC0, 0x7A80, 0xBA41,
     0xBE01, 0x7EC0, 0x7F80, 0xBF41, 0x7D00, 0xBDC1, 0xBC81, 0x7C40,
     0xB401, 0x74C0, 0x7580, 0xB541, 0x7700, 0xB7C1, 0xB681, 0x7640,
     0x7200, 0xB2C1, 0xB381, 0x7340, 0xB101, 0x71C0, 0x7080, 0xB041,
     0x5000, 0x90C1, 0x9181, 0x5140, 0x9301, 0x53C0, 0x5280, 0x9241,
     0x9601, 0x56C0, 0x5780, 0x9741, 0x5500, 0x95C1, 0x9481, 0x5440,
     0x9C01, 0x5CC0, 0x5D80, 0x9D41, 0x5F00, 0x9FC1, 0x9E81, 0x5E40,
     0x5A00, 0x9AC1, 0x9B81, 0x5B40, 0x9901, 0x59C0, 0x5880, 0x9841,
     0x8801, 0x48C0, 0x4980, 0x8941, 0x4B00, 0x8BC1, 0x8A81, 0x4A40,
     0x4E00, 0x8EC1, 0x8F81, 0x4F40, 0x8D01, 0x4DC0, 0x4C80, 0x8C41,
     0x4400, 0x84C1, 0x8581, 0x4540, 0x8701, 0x47C0, 0x4680, 0x8641,
     0x8201, 0x42C0, 0x4380, 0x8341, 0x4100, 0x81C1, 0x8081, 0x4040]"

definition crc_step :: "u16 \<Rightarrow> u8 \<Rightarrow> u16" where
  "crc_step crc b = (let n_temp = b XOR ucast crc in drop_bit 8 crc XOR crc_table ! unat n_temp)"

definition CaculateCRC16 :: "bytes \<Rightarrow> u16" where
  "CaculateCRC16 data = foldl crc_step 0xFFFF data"

text \<open>The Modbus specification: one shift per bit, with the polynomial 0xA001.\<close>

definition crc_bit :: "u16 \<Rightarrow> u16" where
  "crc_bit c = drop_bit 1 c XOR (if bit c 0 then 0xA001 else 0)"

definition crc_byte :: "u16 \<Rightarrow> u8 \<Rightarrow> u16" where
  "crc_byte c b = (crc_bit ^^ 8) (c XOR ucast b)"

definition modbus_crc :: "bytes \<Rightarrow> u16" where
  "modbus_crc data = foldl crc_byte 0xFFFF data"

lemma crc_bit_xor: "crc_bit (a XOR b) = crc_bit a XOR crc_bit b"
  by (auto simp: crc_bit_def bit_xor_iff drop_bit_xor intro!: bit_eqI simp flip: xor.assoc)

lemma crc_bits_xor: "(crc_bit ^^ k) (a XOR b) = (crc_bit ^^ k) a XOR (crc_bit ^^ k) b"
  by (induction k arbitrary: a b) (simp_all add: crc_bit_xor)

lemma crc_bit_even: "\<not> bit c 0 \<Longrightarrow> crc_bit c = drop_bit 1 c"
  by (simp add: crc_bit_def)

lemma crc_bits_shift: "take_bit k c = 0 \<Longrightarrow> (crc_bit ^^ k) c = drop_bit k c"
proof (induction k)
  case 0
  then show ?case by simp
next
  case (Suc k)
  have b: "\<not> bit c n" if "n < Suc k" for n using Suc.prems that by (metis bit_0_eq bit_take_bit_iff bot_apply bot_bool_def)
  then have "take_bit k c = 0" by (intro bit_eqI) (simp add: bit_take_bit_iff)
  then have "(crc_bit ^^ Suc k) c = crc_bit (drop_bit k c)" using Suc.IH by simp
  also have "\<dots> = drop_bit 1 (drop_bit k c)" using b by (intro crc_bit_even) (simp add: bit_drop_bit_eq)
  finally show ?case by simp
qed

text \<open>
  The table, built from its entries at the powers of two: the map is linear, so the second half of the first \<open>2 ^ Suc k\<close>
  entries is the first half with one constant added.
\<close>

lemma crc8_unfold: "(crc_bit ^^ 8) c = crc_bit (crc_bit (crc_bit (crc_bit (crc_bit (crc_bit (crc_bit (crc_bit c)))))))"
  by (simp add: eval_nat_numeral)

primrec crc_dbl :: "u16 list \<Rightarrow> u16 list" where
  "crc_dbl [] = [0]"
| "crc_dbl (c # cs) = crc_dbl cs @ map (\<lambda>x. c XOR x) (crc_dbl cs)"

lemma word_add_xor:
  assumes "n < 2 ^ k" "k < 16"
  shows "(word_of_nat (2 ^ k + n) :: u16) = 2 ^ k XOR word_of_nat n"
proof -
  have "\<not> bit n k" using assms by (simp add: bit_iff_odd)
  then have "(2 ^ k :: u16) AND word_of_nat n = 0"
    by (auto intro!: bit_eqI simp: bit_and_iff bit_exp_iff bit_of_nat_iff)
  then have "(2 ^ k :: u16) + word_of_nat n = 2 ^ k XOR word_of_nat n" by (rule disjunctive_add_eq_xor)
  then show ?thesis by simp
qed

lemma crc_dbl_table:
  "k \<le> 16 \<Longrightarrow> crc_dbl (rev (map (\<lambda>i. (crc_bit ^^ 8) (2 ^ i)) [0..<k])) = map (\<lambda>n. (crc_bit ^^ 8) (word_of_nat n)) [0..<2 ^ k]"
proof (induction k)
  case 0
  have "(crc_bit ^^ 8) 0 = 0" by (simp add: crc8_unfold crc_bit_def)
  then show ?case by simp
next
  case (Suc k)
  let ?f = "crc_bit ^^ 8"
  have ih: "crc_dbl (rev (map (\<lambda>i. ?f (2 ^ i)) [0..<k])) = map (\<lambda>n. ?f (word_of_nat n)) [0..<2 ^ k]" using Suc by simp
  have "[0..<2 ^ Suc k] = [0..<2 ^ k] @ map (\<lambda>n. 2 ^ k + n) [0..<2 ^ k]"
    using upt_add_eq_append [of 0 "2 ^ k" "2 ^ k"] map_add_upt [of "2 ^ k" "2 ^ k"] by (simp add: mult_2 add.commute)
  moreover have "?f (2 ^ k) XOR ?f (word_of_nat n) = ?f (word_of_nat (2 ^ k + n))" if "n < 2 ^ k" for n
    using word_add_xor [OF that] Suc.prems by (simp only: crc_bits_xor)
  ultimately show ?case by (simp add: ih comp_def del: upt_Suc_append)
qed

lemma crc_basis: "rev (map (\<lambda>i. (crc_bit ^^ 8) (2 ^ i)) [0..<8])
    = [0xA001, 0xF001, 0xD801, 0xCC01, 0xC601, 0xC301, 0xC181, 0xC0C1]"
  by (simp add: upt_rec crc8_unfold crc_bit_def)

lemma crc_table_ok: "crc_table = map (\<lambda>n. (crc_bit ^^ 8) (word_of_nat n)) [0..<256]"
proof -
  have "crc_table = crc_dbl [0xA001, 0xF001, 0xD801, 0xCC01, 0xC601, 0xC301, 0xC181, 0xC0C1]"
    by (simp add: crc_table_def)
  then show ?thesis using crc_dbl_table [of 8] crc_basis by simp
qed

lemma crc_table_nth: "crc_table ! unat (n :: u8) = (crc_bit ^^ 8) (ucast n)"
proof -
  have "unat n < 256" using unsigned_less [of n, where ?'a = nat] by simp
  then have "crc_table ! unat n = (crc_bit ^^ 8) (word_of_nat (unat n))" unfolding crc_table_ok by (subst nth_map) simp_all
  then show ?thesis by simp
qed

lemma crc_step_byte: "crc_step c b = crc_byte c b"
proof -
  let ?x = "c XOR ucast b :: u16"
  have "?x = ucast (b XOR ucast c :: u8) XOR push_bit 8 (drop_bit 8 c)"
    by (rule bit_eqI) (auto simp: bit_simps)
  then have "crc_byte c b = (crc_bit ^^ 8) (ucast (b XOR ucast c :: u8)) XOR (crc_bit ^^ 8) (push_bit 8 (drop_bit 8 c))"
    unfolding crc_byte_def by (simp only: crc_bits_xor)
  also have "(crc_bit ^^ 8) (push_bit 8 (drop_bit 8 c)) = drop_bit 8 (push_bit 8 (drop_bit 8 c))"
    by (rule crc_bits_shift) (auto intro!: bit_eqI simp: bit_simps)
  also have "\<dots> = drop_bit 8 c" by (rule bit_eqI) (auto simp: bit_simps dest: bit_imp_le_length)
  finally show ?thesis by (simp add: crc_step_def crc_table_nth xor.commute)
qed

lemma crc_of_frame: "CaculateCRC16 (data @ [ucast (CaculateCRC16 data), ucast (drop_bit 8 (CaculateCRC16 data))]) = 0"
proof -
  let ?c = "CaculateCRC16 data"
  have z: "crc_table ! 0 = 0" by (simp add: crc_table_def)
  have "crc_step ?c (ucast ?c) = drop_bit 8 ?c" by (simp add: crc_step_def z)
  moreover have "crc_step (drop_bit 8 ?c) (ucast (drop_bit 8 ?c)) = drop_bit 8 (drop_bit 8 ?c)" by (simp add: crc_step_def z)
  moreover have "drop_bit 8 (drop_bit 8 ?c) = 0" by (rule bit_eqI) (auto simp: bit_simps dest: bit_imp_le_length)
  ultimately show ?thesis by (simp add: CaculateCRC16_def)
qed

lemma le_bytes_two: "le_bytes 2 (unat (c :: u16)) = [ucast c, ucast (drop_bit 8 c)]"
proof -
  have "(word_of_nat (x mod 256) :: u8) = word_of_nat x" for x
    by (simp add: word_of_nat_eq_iff take_bit_eq_mod)
  moreover have "word_of_nat (drop_bit 8 (unat c)) = (ucast (drop_bit 8 c) :: u8)"
    by (rule bit_eqI) (simp add: bit_of_nat_iff bit_simps)
  ultimately show ?thesis by (simp add: le_bytes_eval drop_bit_eq_div)
qed

text \<open>
  C29. The table-driven check sum is the bit-by-bit one of the Modbus specification, and a frame that carries it, low
  byte first, has the check sum 0, which is how the device accepts a request.
\<close>

theorem crc_is_modbus:
  "CaculateCRC16 data = modbus_crc data
   \<and> CaculateCRC16 (data @ le_bytes 2 (unat (CaculateCRC16 data))) = 0"
proof -
  let ?c = "CaculateCRC16 data"
  have "crc_step = crc_byte" by (intro ext) (rule crc_step_byte)
  then have m: "?c = modbus_crc data" by (simp add: CaculateCRC16_def modbus_crc_def)
  show ?thesis using crc_of_frame [of data] m by (simp add: le_bytes_two)
qed

section \<open>One reading\<close>

text \<open>Bytes travel through the text interface of the serial port; \<open>f32_of\<close> reads a little-endian single-precision number.\<close>

definition temp_request :: "u8 \<Rightarrow> bytes" where
  "temp_request addr =
     (let b = [addr, 0x03, 0x10, 0x26, 0x00, 0x02] in b @ le_bytes 2 (unat (CaculateCRC16 b)))"

text \<open>
  \<open>buffer0\<close> is the local array of 256 bytes before the request is put into it. The results of the write and of the
  read are not looked at.
\<close>

definition readTemperatureAddr :: "(bytes \<Rightarrow> 'f) \<Rightarrow> string \<Rightarrow> bytes \<Rightarrow> port option \<Rightarrow> bool \<Rightarrow> bool \<Rightarrow> rd list \<Rightarrow> string \<Rightarrow> u8 \<Rightarrow> ('f \<times> string \<times> rd list) outcome" where
  "readTemperatureAddr f32_of local0 buffer0 p wok ready rs sent addr =
     (let buffer = temp_request addr @ drop 8 buffer0;
          sent' = snd (write_bytes p wok (map byte_char (take 8 buffer)) sent)
      in obind (read_bytes local0 p ready rs (map byte_char buffer)) (\<lambda>(_, buf, rs').
           let data = drop 3 (map char_byte buf)
           in Ok (f32_of [data ! 1, data ! 0, data ! 3, data ! 2], sent', rs')))"

text \<open>The request is a well-formed frame of the device's protocol.\<close>

lemma temp_request_frame: "length (temp_request addr) = 8 \<and> CaculateCRC16 (temp_request addr) = 0"
  using crc_of_frame [of "[addr, 0x03, 0x10, 0x26, 0x00, 0x02]"]
  by (simp add: temp_request_def Let_def le_bytes_two)

text \<open>A reply line without a zero byte is decoded from its fourth to seventh byte.\<close>

lemma temperature_of_reply:
  assumes "RX_EOF \<notin> set line" "NUL \<notin> set line" "length line \<le> 254" "7 \<le> length line"
    and "length local0 = READ_BUFFER_SIZE" "length buffer0 = 256"
  shows "readTemperatureAddr f32_of local0 buffer0 (Some p) True True (map RChar (line @ [CHR 0x0D]) @ RChar RX_EOF # rs) sent addr =
    Ok (f32_of (map char_byte [line ! 4, line ! 3, line ! 6, line ! 5]), sent @ map byte_char (temp_request addr), rs)"
proof -
  let ?b = "map byte_char (temp_request addr @ drop 8 buffer0)"
  have len: "length (temp_request addr) = 8" using temp_request_frame by blast
  obtain rest where "read_bytes local0 (Some p) True (map RChar (line @ [CHR 0x0D]) @ RChar RX_EOF # rs) ?b = Ok (True, line @ NUL # rest, rs)"
    using read_line [of line local0 ?b p rs] assms len by auto
  moreover have "3 < length line - 3" using assms(4) by linarith
  ultimately show ?thesis
    using assms(4) len by (simp add: readTemperatureAddr_def Let_def write_bytes_def nth_append)
qed

text \<open>When the read fails, the value is decoded from the request that is still in the array.\<close>

lemma temperature_after_failed_read:
  assumes "\<not> ready"
  shows "readTemperatureAddr f32_of local0 buffer0 p wok ready rs sent addr =
    Ok (f32_of [0x00, 0x26, ucast (CaculateCRC16 [addr, 0x03, 0x10, 0x26, 0x00, 0x02]), 0x02],
        snd (write_bytes p wok (map byte_char (temp_request addr)) sent), rs)"
  using assms temp_request_frame [of addr]
  by (simp add: readTemperatureAddr_def read_bytes_def Let_def temp_request_def le_bytes_two)

section \<open>The loop\<close>

record 'f temp =
  temp_loop :: bool
  temp_loop_running :: bool
  temp_data_queue :: "('f \<times> 'f) smq"

definition Temp_StartEventLoop :: "'f temp \<Rightarrow> 'f temp" where
  "Temp_StartEventLoop s = (if \<not> temp_loop s then s\<lparr>temp_loop_running := True, temp_loop := True\<rparr> else s)"

definition Temp_StopEventLoop :: "'f temp \<Rightarrow> 'f temp" where
  "Temp_StopEventLoop s = (if temp_loop s then s\<lparr>temp_loop_running := False, temp_loop := False\<rparr> else s)"

text \<open>One round of the thread on the two readings, and the call of the client; \<open>junk\<close> is the uninitialised result.\<close>

definition temp_round :: "'f \<times> 'f \<Rightarrow> 'f temp \<Rightarrow> 'f temp" where
  "temp_round d s = s\<lparr>temp_data_queue := smq_push (temp_data_queue s) d\<rparr>"

definition InspectLastTemperatureValues :: "'f \<times> 'f \<Rightarrow> 'f \<times> 'f \<Rightarrow> 'f temp \<Rightarrow> ('f \<times> 'f) outcome" where
  "InspectLastTemperatureValues junk zero s =
     (if 0 < sint (smq_size (temp_data_queue s))
      then obind (smq_peekBack zero (temp_data_queue s) None) (\<lambda>(d, _). Ok d)
      else Ok junk)"

lemma latest_temperature:
  assumes "length (temp_data_queue s) < 2 ^ 31 - 1"
  shows "InspectLastTemperatureValues junk zero (temp_round d s) = Ok d"
proof -
  have "sint (smq_size (temp_data_queue (temp_round d s))) = int (length (temp_data_queue s) + 1)"
    using assms unfolding smq_size_def temp_round_def smq_push_def by (subst sint_of_small_nat) simp_all
  then show ?thesis by (simp add: InspectLastTemperatureValues_def temp_round_def)
qed

lemma queue_never_shrinks: "length (temp_data_queue (fold temp_round ds s)) = length (temp_data_queue s) + length ds"
  by (induction ds arbitrary: s) (simp_all add: temp_round_def smq_push_def)

text \<open>
  The thread: a round takes both readings, the first from address 1. Of a round the result of each write and whether its reply is
  complete are given; the bytes of the replies come from the stream.
\<close>

fun temp_thread :: "(bytes \<Rightarrow> 'f) \<Rightarrow> string \<Rightarrow> bytes \<Rightarrow> port option \<Rightarrow> (bool \<times> bool \<times> bool \<times> bool) list \<Rightarrow> rd list \<Rightarrow> string \<Rightarrow> 'f temp \<Rightarrow> ('f temp \<times> string) outcome" where
  "temp_thread f32_of local0 buffer0 p [] rs sent s = Ok (s, sent)"
| "temp_thread f32_of local0 buffer0 p ((w1, r1, w2, r2) # rounds) rs sent s =
     obind (readTemperatureAddr f32_of local0 buffer0 p w1 r1 rs sent 1) (\<lambda>(a, sent, rs).
     obind (readTemperatureAddr f32_of local0 buffer0 p w2 r2 rs sent 2) (\<lambda>(b, sent, rs).
       temp_thread f32_of local0 buffer0 p rounds rs sent (temp_round (a, b) s)))"

definition Temp_Init :: "'f temp \<Rightarrow> 'f temp" where
  "Temp_Init s = Temp_StartEventLoop s"

definition Temp_Terminate :: "'f temp \<Rightarrow> 'f temp" where
  "Temp_Terminate s = Temp_StopEventLoop s"

lemma temp_thread_pushes:
  assumes "temp_thread f32_of local0 buffer0 p rounds rs sent s = Ok (s', sent')"
  shows "\<exists>ds. length ds = length rounds \<and> s' = fold temp_round ds s"
  using assms
proof (induction rounds arbitrary: rs sent s)
  case (Cons r rounds)
  obtain w1 r1 w2 r2 where r: "r = (w1, r1, w2, r2)" by (cases r)
  obtain a sent1 rs1 b sent2 rs2 where "temp_thread f32_of local0 buffer0 p rounds rs2 sent2 (temp_round (a, b) s) = Ok (s', sent')"
    using Cons.prems by (auto simp: r elim!: obind_OkE split: prod.splits)
  then obtain ds where "length ds = length rounds" "s' = fold temp_round ds (temp_round (a, b) s)" using Cons.IH by blast
  then show ?case by (intro exI [of _ "(a, b) # ds"]) simp
qed simp

text \<open>The queue holds two numbers for every half second since the start.\<close>

lemma temp_thread_grows:
  "temp_thread f32_of local0 buffer0 p rounds rs sent s = Ok (s', sent') \<Longrightarrow> length (temp_data_queue s') = length (temp_data_queue s) + length rounds"
  using temp_thread_pushes queue_never_shrinks by metis

end
