(* ===== verification/Usb.thy ===== *)
theory Usb
  imports Prelude
begin

text \<open>
  The USB port of \<^verbatim>\<open>DCS_EngineControl/src/winusb.cpp\<close>: finding a device by its vendor and product number, its bulk
  pipes, and the transfers. What Windows enumerates and returns are arguments.
\<close>

section \<open>Finding the device\<close>

text \<open>
  An enumerated device is its identifier and the paths of its interfaces. \<^verbatim>\<open>std::string::at\<close> throws outside the string;
  the identifier is read by index.
\<close>

definition str_at :: "string \<Rightarrow> nat \<Rightarrow> char outcome" where
  "str_at s i = (if i < length s then Ok (s ! i) else Fault OutOfRange)"

definition same_char :: "string \<Rightarrow> nat \<Rightarrow> string \<Rightarrow> nat \<Rightarrow> bool outcome" where
  "same_char deviceID i s k = obind (read_at deviceID i) (\<lambda>a. obind (str_at s k) (\<lambda>b. Ok (a = b)))"

fun all_same :: "string \<Rightarrow> (nat \<times> string \<times> nat) list \<Rightarrow> bool outcome" where
  "all_same deviceID [] = Ok True"
| "all_same deviceID ((i, s, k) # cs) =
     obind (same_char deviceID i s k) (\<lambda>b. if b then all_same deviceID cs else Ok False)"

definition id_matches :: "string \<Rightarrow> string \<Rightarrow> string \<Rightarrow> bool outcome" where
  "id_matches deviceID vid pid =
     all_same deviceID [(8, vid, 0), (9, vid, 1), (10, vid, 2), (11, vid, 3), (17, pid, 0), (18, pid, 1), (19, pid, 2), (20, pid, 3)]"

text \<open>\<^verbatim>\<open>StringCbCopy\<close> cuts a path to 255 characters; \<open>path\<close> is what the array holds so far.\<close>

fun GetDeviceUSBPath :: "(string \<times> string list) list \<Rightarrow> string \<Rightarrow> string \<Rightarrow> string \<Rightarrow> string outcome" where
  "GetDeviceUSBPath [] vid pid path = Ok path"
| "GetDeviceUSBPath ((deviceID, ifaces) # devs) vid pid path =
     obind (id_matches deviceID vid pid) (\<lambda>m.
       GetDeviceUSBPath devs vid pid (if m then fold (\<lambda>p _. take 255 p) ifaces path else path))"

definition usb_id :: "string \<Rightarrow> string \<Rightarrow> string \<Rightarrow> string" where
  "usb_id vid pid rest = ''USB'' @ [CHR 0x5C] @ ''VID_'' @ vid @ ''&PID_'' @ pid @ rest"

lemma four_chars: "length v = 4 \<Longrightarrow> \<exists>a b c d. v = [a, b, c, d]"
  by (auto simp: eval_nat_numeral length_Suc_conv)

lemma id_matches_usb_id:
  assumes "length vid = 4" "length pid = 4" "length v = 4" "length p = 4"
  shows "id_matches (usb_id v p rest) vid pid = Ok (v = vid \<and> p = pid)"
proof -
  obtain a1 b1 c1 d1 where "vid = [a1, b1, c1, d1]" using four_chars [OF assms(1)] by blast
  moreover obtain a2 b2 c2 d2 where "pid = [a2, b2, c2, d2]" using four_chars [OF assms(2)] by blast
  moreover obtain a3 b3 c3 d3 where "v = [a3, b3, c3, d3]" using four_chars [OF assms(3)] by blast
  moreover obtain a4 b4 c4 d4 where "p = [a4, b4, c4, d4]" using four_chars [OF assms(4)] by blast
  ultimately show ?thesis
    by (auto simp: id_matches_def usb_id_def same_char_def str_at_def read_at_def)
qed

text \<open>Among devices with well-formed identifiers the last interface of the last match is chosen.\<close>

definition usb_ids_ok :: "(string \<times> string \<times> string \<times> string list) list \<Rightarrow> bool" where
  "usb_ids_ok devs = list_all (\<lambda>(v, p, _). length v = 4 \<and> length p = 4) devs"

definition matching_paths :: "string \<Rightarrow> string \<Rightarrow> (string \<times> string \<times> string \<times> string list) list \<Rightarrow> string list" where
  "matching_paths vid pid devs = concat (map (\<lambda>(v, p, r, ps). ps) (filter (\<lambda>(v, p, _). v = vid \<and> p = pid) devs))"

lemma fold_last: "fold (\<lambda>p _. f p) ps x = (if ps = [] then x else f (last ps))"
  by (induction ps arbitrary: x) auto

lemma usb_path_found:
  assumes "usb_ids_ok devs" "length vid = 4" "length pid = 4"
  shows "GetDeviceUSBPath (map (\<lambda>(v, p, r, ps). (usb_id v p r, ps)) devs) vid pid path =
    Ok (let ps = matching_paths vid pid devs in if ps = [] then path else take 255 (last ps))"
  using assms(1)
proof (induction devs arbitrary: path)
  case Nil
  then show ?case by (simp add: matching_paths_def)
next
  case (Cons d devs)
  obtain v p r ps where d: "d = (v, p, r, ps)" by (cases d)
  have "length v = 4" "length p = 4" "usb_ids_ok devs" using Cons.prems by (auto simp: usb_ids_ok_def d)
  then show ?case
    using Cons.IH assms(2,3) by (auto simp: d id_matches_usb_id matching_paths_def fold_last Let_def)
qed

section \<open>Pipes and handles\<close>

record PIPE_ID =
  PipeInId :: u8
  PipeOutId :: u8

record usb_pipe =
  pipe_ok :: bool
  pipe_bulk :: bool
  pipe_id :: u8

text \<open>
  The loop over the endpoints; a failed query skips the endpoint and its result is the result of the function when it
  is the last one. Bit 7 of a pipe number is its direction.
\<close>

fun endpoint_loop :: "usb_pipe list \<Rightarrow> bool \<Rightarrow> PIPE_ID \<Rightarrow> bool \<times> PIPE_ID" where
  "endpoint_loop [] bResult ids = (bResult, ids)"
| "endpoint_loop (p # ps) bResult ids =
     endpoint_loop ps (pipe_ok p)
       (if pipe_ok p \<and> pipe_bulk p
        then if bit (pipe_id p) 7 then ids\<lparr>PipeInId := pipe_id p\<rparr> else ids\<lparr>PipeOutId := pipe_id p\<rparr>
        else ids)"

definition QueryDeviceEndpoints :: "bool \<Rightarrow> usb_pipe list \<Rightarrow> PIPE_ID \<Rightarrow> bool \<times> PIPE_ID" where
  "QueryDeviceEndpoints settings_ok pipes ids = (if settings_ok then endpoint_loop pipes True ids else (False, ids))"

datatype usb_handle = UsbNull | UsbInvalid | UsbOpen nat

record USBIntHandle =
  usb_hnd :: usb_handle
  dev_hnd :: usb_handle
  hnd_pipes :: PIPE_ID

abbreviation no_pipes :: PIPE_ID where
  "no_pipes \<equiv> \<lparr>PipeInId = 0, PipeOutId = 0\<rparr>"

text \<open>
  \<^verbatim>\<open>init_usb_handle\<close>: \<open>ids0\<close> is the uninitialised pipe structure, \<open>dev\<close> is what opening the path returned, \<open>usb\<close> what initialising WinUSB did. The second result
  counts the handles that stay open.
\<close>

definition init_usb_handle :: "PIPE_ID \<Rightarrow> (string \<times> string list) list \<Rightarrow> string \<Rightarrow> string \<Rightarrow> nat option \<Rightarrow> nat option \<Rightarrow> bool \<Rightarrow> usb_pipe list \<Rightarrow> (USBIntHandle \<times> usb_handle list) outcome" where
  "init_usb_handle ids0 devs path0 VID_PID dev usb settings_ok pipes =
     (if length VID_PID < 5 then Fault OutOfRange
      else obind (GetDeviceUSBPath devs (take 4 VID_PID) (take 4 (drop 5 VID_PID)) path0) (\<lambda>_.
        case dev of
          None \<Rightarrow> Ok (\<lparr>usb_hnd = UsbNull, dev_hnd = UsbInvalid, hnd_pipes = no_pipes\<rparr>, [])
        | Some d \<Rightarrow> (case usb of
            None \<Rightarrow> Ok (\<lparr>usb_hnd = UsbInvalid, dev_hnd = UsbNull, hnd_pipes = no_pipes\<rparr>, [])
          | Some u \<Rightarrow>
              let (ok, ids) = QueryDeviceEndpoints settings_ok pipes ids0
              in if \<not> ok then Ok (\<lparr>usb_hnd = UsbNull, dev_hnd = UsbNull, hnd_pipes = no_pipes\<rparr>, [UsbOpen u])
                 else Ok (\<lparr>usb_hnd = UsbOpen u, dev_hnd = UsbOpen d, hnd_pipes = ids\<rparr>, [UsbOpen u, UsbOpen d]))))"

definition usb_usable :: "USBIntHandle \<Rightarrow> bool" where
  "usb_usable h = (case usb_hnd h of UsbOpen _ \<Rightarrow> True | _ \<Rightarrow> False)"

text \<open>\<open>sent\<close> is what the device has received; \<open>n\<close> the number of bytes the driver reports as written.\<close>

definition write_bulk_bytes :: "USBIntHandle \<Rightarrow> nat \<Rightarrow> string \<Rightarrow> string \<Rightarrow> nat \<times> string" where
  "write_bulk_bytes h n buf sent = (if usb_usable h then (min n (length buf), sent @ take n buf) else (0, sent))"

text \<open>\<open>got\<close> is what the device sends for this read; the last byte read is overwritten by the terminator.\<close>

definition read_bulk_bytes :: "USBIntHandle \<Rightarrow> string \<Rightarrow> string \<Rightarrow> nat \<times> string" where
  "read_bulk_bytes h got buf =
     (if usb_usable h then
        let got = take (length buf) got; buf = blit buf 0 got
        in (length got, if 0 < length got then buf[length got - 1 := NUL] else buf)
      else (0, buf))"

definition term_usb_handle :: "USBIntHandle \<Rightarrow> usb_handle list \<Rightarrow> usb_handle list" where
  "term_usb_handle h opened = filter (\<lambda>x. x \<noteq> usb_hnd h \<and> x \<noteq> dev_hnd h) opened"

text \<open>Opening and closing again leaves nothing open, except when the endpoints could not be queried.\<close>

lemma usb_handles_released:
  assumes "init_usb_handle ids0 devs path0 vp dev usb ok pipes = Ok (h, opened)"
  shows "term_usb_handle h opened =
    (case (dev, usb) of (Some d, Some u) \<Rightarrow> if fst (QueryDeviceEndpoints ok pipes ids0) then [] else [UsbOpen u] | _ \<Rightarrow> [])"
  using assms
  by (auto simp: init_usb_handle_def term_usb_handle_def split: if_splits option.splits prod.splits elim!: obind_OkE)

text \<open>A reply that ends in one terminator character is read as the text before it.\<close>

lemma usb_read_line:
  assumes "usb_usable h" "NUL \<notin> set line" "length line < length buf"
  shows "cstr (snd (read_bulk_bytes h (line @ [c]) buf)) = line \<and> fst (read_bulk_bytes h (line @ [c]) buf) = length line + 1"
proof -
  have "(blit buf 0 (line @ [c]))[length line := NUL] = line @ NUL # drop (length line + 1) buf" by (simp add: blit_def)
  then show ?thesis using assms by (simp add: read_bulk_bytes_def Let_def min_def)
qed

end
