(* ===== verification/Motion.thy ===== *)
theory Motion
  imports Serial Usb Sockets MsgQueue
begin

text \<open>
  Commands to the motion controllers: \<^verbatim>\<open>Command\<close> and \<^verbatim>\<open>CmdBuffer\<close> of \<^verbatim>\<open>DCS_EngineControl/include/internal.h\<close>
  and the service thread of \<^verbatim>\<open>control_service.cpp\<close>.
\<close>

section \<open>Commands\<close>

datatype UnitTarget = ESP301 | PMC8742 | XPSRLD4

record Command =
  full_cmd :: string
  cmd_id :: u64
  cmd_axis :: u16
  cmd_target :: UnitTarget
  wait_response :: bool

text \<open>The empty command does not set \<^verbatim>\<open>wait_response\<close>; \<open>w0\<close> is what it holds.\<close>

definition Command_empty :: "bool \<Rightarrow> Command" where
  "Command_empty w0 = \<lparr>full_cmd = [], cmd_id = 0, cmd_axis = 0, cmd_target = ESP301, wait_response = w0\<rparr>"

definition NextId :: "u64 \<Rightarrow> u64 \<times> u64" where
  "NextId nid = (nid, nid + 1)"

text \<open>
  The constructors, each with the counter of \<^verbatim>\<open>NextId\<close>; a numeric argument arrives as the text \<^verbatim>\<open>std::to_string\<close>
  makes of it. Reading the first character of an empty C string argument gives its terminator.
\<close>

definition Command_axis_num :: "UnitTarget \<Rightarrow> string \<Rightarrow> u16 \<Rightarrow> string \<Rightarrow> u64 \<Rightarrow> Command \<times> u64" where
  "Command_axis_num tgt cmd axis num nid =
     (let (i, nid) = NextId nid
      in (\<lparr>full_cmd = to_string (uint axis) @ cmd @ num @ '';'', cmd_id = i, cmd_axis = axis, cmd_target = tgt, wait_response = False\<rparr>, nid))"

definition Command_axis_str :: "UnitTarget \<Rightarrow> string \<Rightarrow> u16 \<Rightarrow> string \<Rightarrow> u64 \<Rightarrow> Command \<times> u64" where
  "Command_axis_str tgt cmd axis argument nid =
     (let (i, nid) = NextId nid
      in (\<lparr>full_cmd = to_string (uint axis) @ cmd @ argument @ '';'', cmd_id = i, cmd_axis = axis, cmd_target = tgt,
           wait_response = (take 1 argument = ''?'')\<rparr>, nid))"

definition Command_axis :: "UnitTarget \<Rightarrow> string \<Rightarrow> u16 \<Rightarrow> u64 \<Rightarrow> Command \<times> u64" where
  "Command_axis tgt cmd axis nid =
     (let (i, nid) = NextId nid
      in (\<lparr>full_cmd = (if 0 < axis then to_string (uint axis) else []) @ cmd @ '';'', cmd_id = i, cmd_axis = axis, cmd_target = tgt,
           wait_response = False\<rparr>, nid))"

definition Command_num :: "UnitTarget \<Rightarrow> string \<Rightarrow> string \<Rightarrow> u64 \<Rightarrow> Command \<times> u64" where
  "Command_num tgt cmd num nid =
     (let (i, nid) = NextId nid
      in (\<lparr>full_cmd = cmd @ num @ '';'', cmd_id = i, cmd_axis = 0, cmd_target = tgt, wait_response = False\<rparr>, nid))"

definition Command_str :: "UnitTarget \<Rightarrow> string \<Rightarrow> string \<Rightarrow> u64 \<Rightarrow> Command \<times> u64" where
  "Command_str tgt cmd argument nid =
     (let (i, nid) = NextId nid
      in (\<lparr>full_cmd = cmd @ argument @ '';'', cmd_id = i, cmd_axis = 0, cmd_target = tgt, wait_response = (take 1 argument = ''?'')\<rparr>, nid))"

definition Custom :: "UnitTarget \<Rightarrow> string \<Rightarrow> bool \<Rightarrow> u64 \<Rightarrow> Command \<times> u64" where
  "Custom tgt cmd response nid =
     (let (i, nid) = NextId nid
      in (\<lparr>full_cmd = cmd, cmd_id = i, cmd_axis = 0, cmd_target = tgt, wait_response = response\<rparr>, nid))"

definition Command_plus :: "bool \<Rightarrow> Command \<Rightarrow> Command \<Rightarrow> Command" where
  "Command_plus w0 lhs rhs =
     (if cmd_target lhs \<noteq> cmd_target rhs then Command_empty w0
      else (Command_empty w0)\<lparr>cmd_id := cmd_id rhs, cmd_axis := 0, wait_response := wait_response lhs \<or> wait_response rhs,
             full_cmd := full_cmd lhs @ full_cmd rhs\<rparr>)"

text \<open>Joining two commands keeps their text in order but forgets their target: the result goes to the first controller.\<close>

lemma joined_commands:
  "cmd_target a = cmd_target b \<Longrightarrow>
    full_cmd (Command_plus w a b) = full_cmd a @ full_cmd b \<and> wait_response (Command_plus w a b) = (wait_response a \<or> wait_response b)
    \<and> cmd_target (Command_plus w a b) = ESP301"
  by (simp add: Command_plus_def Command_empty_def)

lemma custom_ids_distinct:
  assumes "fst (Custom t1 c1 r1 nid) = a" "fst (Custom t2 c2 r2 (snd (Custom t1 c1 r1 nid))) = b"
  shows "cmd_id a \<noteq> cmd_id b"
  using assms by (auto simp: Custom_def NextId_def)

section \<open>The command buffer\<close>

text \<open>\<open>process\<close> and the two halves of \<open>schedule\<close>, before and after it sleeps for the response.\<close>

record CmdBuffer =
  cmd_q :: "Command smq"
  response_buffer :: string

definition process :: "bool \<Rightarrow> CmdBuffer \<Rightarrow> Command smq option \<Rightarrow> (Command \<times> CmdBuffer) outcome" where
  "process w0 b woken =
     obind (smq_pop (Command_empty w0) (cmd_q b) woken) (\<lambda>(c, q). Ok (c, b\<lparr>cmd_q := q\<rparr>))"

definition schedule_push :: "Command \<Rightarrow> CmdBuffer \<Rightarrow> CmdBuffer" where
  "schedule_push c b = b\<lparr>cmd_q := smq_push (cmd_q b) c\<rparr>"

definition schedule_no_response :: "CmdBuffer \<Rightarrow> string \<times> CmdBuffer" where
  "schedule_no_response b = ([], b\<lparr>response_buffer := []\<rparr>)"

definition reply :: "string \<Rightarrow> CmdBuffer \<Rightarrow> CmdBuffer" where
  "reply response b = b\<lparr>response_buffer := response\<rparr>"

definition cmd_size :: "CmdBuffer \<Rightarrow> i32" where
  "cmd_size b = word_of_nat (length (cmd_q b))"

definition try_process :: "bool \<Rightarrow> CmdBuffer \<Rightarrow> (Command \<times> CmdBuffer) option" where
  "try_process w0 b = (case process w0 b None of Ok r \<Rightarrow> Some r | _ \<Rightarrow> None)"

lemma process_nonempty [simp]: "cmd_q b = c # cs \<Longrightarrow> process w0 b w = Ok (c, b\<lparr>cmd_q := cs\<rparr>)"
  by (simp add: process_def)

interpretation cmdq: fifo cmd_q "\<lambda>b c. schedule_push c b" "try_process w0" for w0
proof
  show "cmd_q (schedule_push x q) = cmd_q q @ [x]" for q x by (simp add: schedule_push_def smq_push_def)
  show "cmd_q q = [] \<Longrightarrow> try_process w0 q = None" for q by (simp add: try_process_def process_def)
  show "cmd_q q = x # xs \<Longrightarrow> \<exists>q'. try_process w0 q = Some (x, q') \<and> cmd_q q' = xs" for q x xs by (simp add: try_process_def)
qed

section \<open>The service thread\<close>

text \<open>
  \<open>response\<close> is the local array of 256 characters, shared by all commands; the three \<open>sent\<close> fields are what the
  controllers have received.
\<close>

record service =
  esp301_handle :: "port option"
  pmc8742_handle :: USBIntHandle
  xps_rld4_socket :: sock
  svc_net :: net
  response :: string
  esp_sent :: string
  pmc_sent :: string
  xps_sent :: string

text \<open>What the outside does for one command.\<close>

record outside =
  out_write_ok :: bool
  out_ready :: bool
  out_rd :: "rd list"
  out_local :: string
  out_usb :: string
  out_ws :: winsock

text \<open>
  The body of the loop on a command that was taken, one case per controller; the result is the response that is passed
  to \<open>reply\<close>, if any. The terminator of the first controller is written as two bytes, the second one being the
  terminator of the literal. \<^verbatim>\<open>ReceiveData\<close> gives 0 at the end of the connection and -1 on an error.
\<close>

definition serve_esp301 :: "outside \<Rightarrow> Command \<Rightarrow> service \<Rightarrow> (string option \<times> service) outcome" where
  "serve_esp301 env c s =
     (let sent = snd (write_bytes (esp301_handle s) (out_write_ok env) (full_cmd c) (esp_sent s));
          sent = snd (write_bytes (esp301_handle s) (out_write_ok env) [CHR 0x0D, NUL] sent);
          s = s\<lparr>esp_sent := sent\<rparr>
      in if wait_response c then
           obind (read_bytes (out_local env) (esp301_handle s) (out_ready env) (out_rd env) (response s)) (\<lambda>(_, buf, _).
             Ok (Some (cstr buf), s\<lparr>response := buf\<rparr>))
         else Ok (None, s))"

definition serve_pmc8742 :: "outside \<Rightarrow> Command \<Rightarrow> service \<Rightarrow> (string option \<times> service) outcome" where
  "serve_pmc8742 env c s =
     (let sent = snd (write_bulk_bytes (pmc8742_handle s) (length (full_cmd c)) (full_cmd c) (pmc_sent s));
          sent = snd (write_bulk_bytes (pmc8742_handle s) 1 [CHR 0x0D] sent);
          s = s\<lparr>pmc_sent := sent\<rparr>
      in if wait_response c then
           let buf = snd (read_bulk_bytes (pmc8742_handle s) (out_usb env) (response s))
           in Ok (Some (cstr buf), s\<lparr>response := buf\<rparr>)
         else Ok (None, s))"

definition serve_xpsrld4 :: "outside \<Rightarrow> Command \<Rightarrow> service \<Rightarrow> (string option \<times> service) outcome" where
  "serve_xpsrld4 env c s =
     (let (r, n) = SendGenericData (out_ws env) (xps_rld4_socket s) (map char_byte (full_cmd c)) (svc_net s);
          s = s\<lparr>svc_net := n, xps_sent := (if 0 < r then xps_sent s @ take (nat r) (full_cmd c) else xps_sent s)\<rparr>
      in if wait_response c then
           let (recv_sz, d, n) = ReceiveData (out_ws env) (xps_rld4_socket s) 255 (svc_net s);
               s = s\<lparr>svc_net := n\<rparr>
           in if recv_sz < 0 then Fault OutOfBounds
              else obind (memcpy_to (response s) 0 (map byte_char (take (nat recv_sz) d))) (\<lambda>buf.
                   obind (memcpy_to buf (nat recv_sz) [NUL]) (\<lambda>buf.
                     Ok (Some (cstr buf), s\<lparr>response := buf\<rparr>)))
         else Ok (None, s))"

definition serve :: "outside \<Rightarrow> Command \<Rightarrow> service \<Rightarrow> (string option \<times> service) outcome" where
  "serve env c s =
     (if full_cmd c = [] then Ok (None, s)
      else case cmd_target c of
             ESP301 \<Rightarrow> serve_esp301 env c s
           | PMC8742 \<Rightarrow> serve_pmc8742 env c s
           | XPSRLD4 \<Rightarrow> serve_xpsrld4 env c s)"


definition sample_service :: service where
  "sample_service = \<lparr>esp301_handle = Some sample_port, pmc8742_handle = \<lparr>usb_hnd = UsbNull, dev_hnd = UsbNull, hnd_pipes = no_pipes\<rparr>,
     xps_rld4_socket = 1, svc_net = net_init, response = replicate 256 NUL, esp_sent = [], pmc_sent = [], xps_sent = []\<rparr>"

definition sample_outside :: "string \<Rightarrow> winsock \<Rightarrow> outside" where
  "sample_outside line ws = \<lparr>out_write_ok = True, out_ready = True, out_rd = map RChar (line @ [CHR 0x0D]) @ RChar RX_EOF # [],
     out_local = replicate 256 NUL, out_usb = [], out_ws = ws\<rparr>"

definition query_position :: Command where
  "query_position = fst (Command_axis_str ESP301 ''TP'' 1 ''?'' 0)"


section \<open>Starting and stopping the service\<close>

datatype svc_thread = SvcNone | SvcRunning | SvcDeleted

record control =
  control_service_thread :: svc_thread
  control_service_running :: bool

definition control_init :: control where
  "control_init = \<lparr>control_service_thread = SvcNone, control_service_running = False\<rparr>"

definition StartServices :: "control \<Rightarrow> control" where
  "StartServices k =
     (if control_service_thread k = SvcNone
      then k\<lparr>control_service_running := True, control_service_thread := SvcRunning\<rparr> else k)"

text \<open>\<^verbatim>\<open>StopServices\<close> joins and deletes the thread and leaves the pointer as it is.\<close>

definition StopServices :: "control \<Rightarrow> control outcome" where
  "StopServices k =
     (case control_service_thread k of
        SvcNone \<Rightarrow> Fault NullPointer
      | SvcDeleted \<Rightarrow> Fault Dangling
      | SvcRunning \<Rightarrow> Ok (k\<lparr>control_service_running := False, control_service_thread := SvcDeleted\<rparr>))"

lemma services_start_once:
  assumes "StopServices (StartServices control_init) = Ok k"
  shows "StartServices k = k \<and> \<not> control_service_running k \<and> StopServices k = Fault Dangling"
  using assms by (auto simp: StopServices_def StartServices_def control_init_def)

end
