(* ===== verification/CmdFlow.thy ===== *)
theory CmdFlow
  imports Motion Systems
begin

text \<open>
  Callers of \<^verbatim>\<open>CmdBuffer::schedule\<close> and the service thread, interleaved. A caller that wants a response pushes its
  command under one mutex and then sleeps under another; the service stores a response and notifies one sleeper.
\<close>

section \<open>Steps\<close>

datatype caller = CIdle | CPushed Command | CAsleep Command | CWoken Command | CDone Command string

datatype svc_pc = SvIdle | SvServing Command | SvNotify

record flow_state =
  buf :: CmdBuffer
  svc :: svc_pc
  callers :: "nat \<Rightarrow> caller"
  issued :: "Command list"
  taken :: "Command list"

datatype flow_act = Issue | Other

definition wants_reply :: "Command \<Rightarrow> bool" where
  "wants_reply c \<longleftrightarrow> wait_response c \<and> full_cmd c \<noteq> []"

text \<open>\<open>dev c\<close> is the response of the controller to the command, as \<open>serve\<close> gives it.\<close>

inductive flow_step :: "(Command \<Rightarrow> string) \<Rightarrow> flow_act \<Rightarrow> flow_state \<Rightarrow> flow_state \<Rightarrow> bool" for dev where
  issue: "callers s i = CIdle \<Longrightarrow>
    flow_step dev Issue s (s\<lparr>buf := schedule_push c (buf s), callers := (callers s)(i := CPushed c), issued := issued s @ [c]\<rparr>)"
| return_now: "callers s i = CPushed c \<Longrightarrow> \<not> wait_response c \<Longrightarrow> schedule_no_response (buf s) = (r, b) \<Longrightarrow>
    flow_step dev Other s (s\<lparr>buf := b, callers := (callers s)(i := CDone c r)\<rparr>)"
| sleep: "callers s i = CPushed c \<Longrightarrow> wait_response c \<Longrightarrow>
    flow_step dev Other s (s\<lparr>callers := (callers s)(i := CAsleep c)\<rparr>)"
| take_cmd: "svc s = SvIdle \<Longrightarrow> process w0 (buf s) None = Ok (c, b) \<Longrightarrow>
    flow_step dev Other s (s\<lparr>buf := b, svc := SvServing c, taken := taken s @ [c]\<rparr>)"
| serve_silent: "svc s = SvServing c \<Longrightarrow> \<not> wants_reply c \<Longrightarrow> flow_step dev Other s (s\<lparr>svc := SvIdle\<rparr>)"
| set_reply: "svc s = SvServing c \<Longrightarrow> wants_reply c \<Longrightarrow>
    flow_step dev Other s (s\<lparr>buf := reply (dev c) (buf s), svc := SvNotify\<rparr>)"
| notify_one: "svc s = SvNotify \<Longrightarrow> callers s i = CAsleep c \<Longrightarrow>
    flow_step dev Other s (s\<lparr>callers := (callers s)(i := CWoken c), svc := SvIdle\<rparr>)"
| notify_none: "svc s = SvNotify \<Longrightarrow> (\<forall>i c. callers s i \<noteq> CAsleep c) \<Longrightarrow> flow_step dev Other s (s\<lparr>svc := SvIdle\<rparr>)"
| wake: "callers s i = CWoken c \<Longrightarrow>
    flow_step dev Other s (s\<lparr>callers := (callers s)(i := CDone c (response_buffer (buf s)))\<rparr>)"

definition any_step :: "(Command \<Rightarrow> string) \<Rightarrow> flow_state \<Rightarrow> flow_state \<Rightarrow> bool" where
  "any_step dev s s' \<longleftrightarrow> (\<exists>a. flow_step dev a s s')"

definition flow_init :: flow_state where
  "flow_init = \<lparr>buf = \<lparr>cmd_q = [], response_buffer = []\<rparr>, svc = SvIdle, callers = (\<lambda>_. CIdle), issued = [], taken = []\<rparr>"

lemma process_None: "process w0 b None = Ok (c, b') \<longleftrightarrow> (\<exists>cs. cmd_q b = c # cs \<and> b' = b\<lparr>cmd_q := cs\<rparr>)"
  by (cases "cmd_q b") (auto simp: process_def)

section \<open>Order\<close>

definition in_order :: "flow_state \<Rightarrow> bool" where
  "in_order s \<longleftrightarrow> issued s = taken s @ cmd_q (buf s)"

lemma in_order_step: "flow_step dev a s s' \<Longrightarrow> in_order s \<Longrightarrow> in_order s'"
  by (induction rule: flow_step.induct)
    (auto simp: in_order_def schedule_push_def smq_push_def schedule_no_response_def reply_def process_None)

interpretation order: invariant_system "any_step dev" in_order for dev
  by unfold_locales (auto simp: any_step_def intro: in_order_step)


definition sample_query :: Command where
  "sample_query = fst (Custom XPSRLD4 ''GroupStatusGet(Table)'' True 0)"

lemma sample_query_wants [simp]: "wants_reply sample_query" "wait_response sample_query"
  by (simp_all add: sample_query_def Custom_def NextId_def wants_reply_def)


section \<open>A caller that sleeps in time\<close>

text \<open>Caller \<open>i\<close> waits for the command in service and nobody else is active.\<close>

definition quiet :: "nat \<Rightarrow> flow_state \<Rightarrow> bool" where
  "quiet i s \<longleftrightarrow> cmd_q (buf s) = [] \<and> (\<forall>j. j \<noteq> i \<longrightarrow> (callers s j = CIdle \<or> (\<exists>c r. callers s j = CDone c r)))"

definition attended :: "(Command \<Rightarrow> string) \<Rightarrow> nat \<Rightarrow> Command \<Rightarrow> flow_state \<Rightarrow> bool" where
  "attended dev i c s \<longleftrightarrow> quiet i s \<and> wants_reply c \<and>
     (callers s i = CAsleep c \<and> svc s = SvServing c
      \<or> callers s i = CAsleep c \<and> svc s = SvNotify \<and> response_buffer (buf s) = dev c
      \<or> callers s i = CWoken c \<and> svc s = SvIdle \<and> response_buffer (buf s) = dev c
      \<or> callers s i = CDone c (dev c) \<and> svc s = SvIdle)"

fun attended_rank :: "caller \<Rightarrow> svc_pc \<Rightarrow> nat" where
  "attended_rank (CAsleep c) (SvServing d) = 3"
| "attended_rank (CAsleep c) SvNotify = 2"
| "attended_rank (CWoken c) p = 1"
| "attended_rank _ p = 0"

lemma attended_step:
  assumes "flow_step dev Other s s'" "attended dev i c s"
  shows "attended dev i c s' \<and> attended_rank (callers s' i) (svc s') < attended_rank (callers s i) (svc s)"
  using assms(1)
proof (cases rule: flow_step.cases)
  case (notify_one j d)
  then have "j = i" using assms(2) by (cases "j = i") (auto simp: attended_def quiet_def)
  then show ?thesis using notify_one assms(2) by (auto simp: attended_def quiet_def)
next
  case (wake j d)
  then have "j = i" using assms(2) by (cases "j = i") (auto simp: attended_def quiet_def)
  then show ?thesis using wake assms(2) by (auto simp: attended_def quiet_def)
next
  case (return_now j d r b)
  then show ?thesis using assms(2) by (cases "j = i") (auto simp: attended_def quiet_def)
next
  case (sleep j d)
  then show ?thesis using assms(2) by (cases "j = i") (auto simp: attended_def quiet_def)
qed (use assms(2) in \<open>auto simp: attended_def quiet_def process_None reply_def\<close>)

lemma attended_progress:
  assumes "attended dev i c s" "callers s i \<noteq> CDone c (dev c)"
  shows "\<exists>s'. flow_step dev Other s s'"
  using assms set_reply [of s c dev] notify_one [of s i c dev] wake [of s i c dev] by (auto simp: attended_def)

interpretation attend: ranked_system "flow_step dev Other" "attended dev i c" "\<lambda>s. attended_rank (callers s i) (svc s)"
    "\<lambda>s. callers s i = CDone c (dev c)" for dev i c
  by unfold_locales (use attended_step attended_progress in blast)+



section \<open>Races\<close>

text \<open>The state after some callers have pushed and some have gone to sleep.\<close>

definition flow_at :: "Command list \<Rightarrow> string \<Rightarrow> svc_pc \<Rightarrow> (nat \<Rightarrow> caller) \<Rightarrow> Command list \<Rightarrow> Command list \<Rightarrow> flow_state" where
  "flow_at q r p cs is ts = \<lparr>buf = \<lparr>cmd_q = q, response_buffer = r\<rparr>, svc = p, callers = cs, issued = is, taken = ts\<rparr>"

lemma flow_at_steps:
  "cs i = CIdle \<Longrightarrow> any_step dev (flow_at q r p cs is ts) (flow_at (q @ [c]) r p (cs(i := CPushed c)) (is @ [c]) ts)"
  "cs i = CPushed c \<Longrightarrow> wait_response c \<Longrightarrow> any_step dev (flow_at q r p cs is ts) (flow_at q r p (cs(i := CAsleep c)) is ts)"
  "any_step dev (flow_at (c # q) r SvIdle cs is ts) (flow_at q r (SvServing c) cs is (ts @ [c]))"
  "wants_reply c \<Longrightarrow> any_step dev (flow_at q r (SvServing c) cs is ts) (flow_at q (dev c) SvNotify cs is ts)"
  "cs i = CAsleep c \<Longrightarrow> any_step dev (flow_at q r SvNotify cs is ts) (flow_at q r SvIdle (cs(i := CWoken c)) is ts)"
  "\<forall>i c. cs i \<noteq> CAsleep c \<Longrightarrow> any_step dev (flow_at q r SvNotify cs is ts) (flow_at q r SvIdle cs is ts)"
  "cs i = CWoken c \<Longrightarrow> any_step dev (flow_at q r p cs is ts) (flow_at q r p (cs(i := CDone c r)) is ts)"
proof -
  let ?s = "flow_at q r p cs is ts"
  show "cs i = CIdle \<Longrightarrow> any_step dev ?s (flow_at (q @ [c]) r p (cs(i := CPushed c)) (is @ [c]) ts)"
    using issue [of ?s i dev c] by (auto simp: any_step_def flow_at_def schedule_push_def smq_push_def)
  show "cs i = CPushed c \<Longrightarrow> wait_response c \<Longrightarrow> any_step dev ?s (flow_at q r p (cs(i := CAsleep c)) is ts)"
    using sleep [of ?s i c dev] by (auto simp: any_step_def flow_at_def)
  show "any_step dev (flow_at (c # q) r SvIdle cs is ts) (flow_at q r (SvServing c) cs is (ts @ [c]))"
    using take_cmd [of "flow_at (c # q) r SvIdle cs is ts" _ c _ dev] by (auto simp: any_step_def flow_at_def process_None)
  show "wants_reply c \<Longrightarrow> any_step dev (flow_at q r (SvServing c) cs is ts) (flow_at q (dev c) SvNotify cs is ts)"
    using set_reply [of "flow_at q r (SvServing c) cs is ts" c dev] by (auto simp: any_step_def flow_at_def reply_def)
  show "cs i = CAsleep c \<Longrightarrow> any_step dev (flow_at q r SvNotify cs is ts) (flow_at q r SvIdle (cs(i := CWoken c)) is ts)"
    using notify_one [of "flow_at q r SvNotify cs is ts" i c dev] by (auto simp: any_step_def flow_at_def)
  show "\<forall>i c. cs i \<noteq> CAsleep c \<Longrightarrow> any_step dev (flow_at q r SvNotify cs is ts) (flow_at q r SvIdle cs is ts)"
    using notify_none [of "flow_at q r SvNotify cs is ts" dev] by (auto simp: any_step_def flow_at_def)
  show "cs i = CWoken c \<Longrightarrow> any_step dev ?s (flow_at q r p (cs(i := CDone c r)) is ts)"
    using wake [of ?s i c dev] by (auto simp: any_step_def flow_at_def)
qed

lemma stuck_caller:
  "callers s i = CAsleep c \<Longrightarrow> svc s = SvIdle \<Longrightarrow> cmd_q (buf s) = [] \<Longrightarrow> \<forall>j. j \<noteq> i \<longrightarrow> callers s j = CIdle
    \<Longrightarrow> \<not> flow_step dev Other s s'"
  by (auto elim!: flow_step.cases simp: process_None) (metis caller.distinct)+

text \<open>
  Two races of \<^verbatim>\<open>schedule\<close>. A service that answers before the caller has gone to sleep notifies nobody, and the caller
  then sleeps with nothing left to wake it. With two callers asleep the notification may wake the wrong one, which
  returns the response to the other's command.
\<close>

theorem responses_lost_or_swapped:
  assumes "wants_reply a" and "wants_reply b"
  shows "(\<exists>s. (any_step dev)\<^sup>*\<^sup>* flow_init s \<and> callers s 0 = CAsleep a \<and> taken s = [a] \<and> (\<forall>s'. \<not> flow_step dev Other s s'))
    \<and> (\<exists>s. (any_step dev)\<^sup>*\<^sup>* flow_init s \<and> callers s 1 = CDone b (dev a))"
proof
  let ?R = "(any_step dev)\<^sup>*\<^sup>* flow_init" and ?z = "\<lambda>_. CIdle"
  have w: "wait_response a" "wait_response b" using assms by (simp_all add: wants_reply_def)
  have init: "?R (flow_at [] [] SvIdle ?z [] [])" by (simp add: flow_init_def flow_at_def)
  note next_step = rtranclp.rtrancl_into_rtrancl [of "any_step dev" flow_init]
  let ?z1 = "?z(0 := CPushed a)"
  have "?R (flow_at [a] [] SvIdle ?z1 [a] [])" using next_step [OF init flow_at_steps(1)] by simp
  then have "?R (flow_at [] [] (SvServing a) ?z1 [a] [a])" using next_step flow_at_steps(3) [of dev a "[]"] by fastforce
  then have "?R (flow_at [] (dev a) SvNotify ?z1 [a] [a])" using next_step flow_at_steps(4) [OF assms(1)] by blast
  then have "?R (flow_at [] (dev a) SvIdle ?z1 [a] [a])" using next_step flow_at_steps(6) [of ?z1] by fastforce
  then have r: "?R (flow_at [] (dev a) SvIdle (?z1(0 := CAsleep a)) [a] [a])"
    using next_step flow_at_steps(2) [of ?z1 0 a] w by (metis fun_upd_same)
  show "\<exists>s. ?R s \<and> callers s 0 = CAsleep a \<and> taken s = [a] \<and> (\<forall>s'. \<not> flow_step dev Other s s')"
    using r by (intro exI conjI allI stuck_caller [where i = 0 and c = a]) (auto simp: flow_at_def)
  let ?c1 = "?z1(0 := CAsleep a)" and ?c2 = "?z1(0 := CAsleep a, 1 := CPushed b)"
  let ?c3 = "?z1(0 := CAsleep a, 1 := CPushed b, 1 := CAsleep b)"
  have "?R (flow_at [a] [] SvIdle ?z1 [a] [])" using next_step [OF init flow_at_steps(1)] by simp
  then have "?R (flow_at [a] [] SvIdle ?c1 [a] [])" using next_step flow_at_steps(2) [of ?z1 0 a] w by (metis fun_upd_same)
  then have "?R (flow_at ([a] @ [b]) [] SvIdle ?c2 ([a] @ [b]) [])" 
    by (rule next_step) (rule flow_at_steps(1) [of ?c1 1], simp)
  then have "?R (flow_at [a, b] [] SvIdle ?c2 [a, b] [])" by simp
  then have "?R (flow_at [a, b] [] SvIdle ?c3 [a, b] [])" 
    by (rule next_step [OF _ flow_at_steps(2) [of ?c2 1 b]]) (use w in simp_all)
  then have "?R (flow_at [b] [] (SvServing a) ?c3 [a, b] [a])" using next_step flow_at_steps(3) [of dev a "[b]"] by fastforce
  then have "?R (flow_at [b] (dev a) SvNotify ?c3 [a, b] [a])" using next_step flow_at_steps(4) [OF assms(1)] by blast
  then have "?R (flow_at [b] (dev a) SvIdle (?c3(1 := CWoken b)) [a, b] [a])" 
    by (rule next_step [OF _ flow_at_steps(5) [of ?c3 1 b]]) simp
  then have "?R (flow_at [b] (dev a) SvIdle (?c3(1 := CWoken b, 1 := CDone b (dev a))) [a, b] [a])"
    by (rule next_step [OF _ flow_at_steps(7) [of "?c3(1 := CWoken b)" 1 b]]) simp
  then show "\<exists>s. ?R s \<and> callers s 1 = CDone b (dev a)" by (intro exI conjI) (auto simp: flow_at_def)
qed

theorem responses_lost_or_swapped_witness:
  "\<exists>s. (any_step full_cmd)\<^sup>*\<^sup>* flow_init s \<and> callers s 1 = CDone sample_query ''2TP?;''"
proof -
  let ?q = "fst (Command_axis_str ESP301 ''TP'' 2 ''?'' 0)"
  have f: "full_cmd ?q = ''2TP?;''" "wait_response ?q"
    by (simp_all add: Command_axis_str_def NextId_def to_string_def dec_nat.simps digit_char_def char_of_def bit_iff_odd)
  then have "wants_reply ?q" by (simp add: wants_reply_def)
  from responses_lost_or_swapped [OF this sample_query_wants(1), of full_cmd] f(1) show ?thesis by metis
qed

end
