(* ===== verification/Encoder.thy ===== *)
theory Encoder
  imports MsgQueue Database Pid
begin

text \<open>
  The angular encoder of \<^verbatim>\<open>DCS_Acquisition/src/encoder.cpp\<close>: the set-up of the device, the run that looks for the
  reference marks, and the loop that turns data packets into calibrated positions. The driver library of the device is a
  parameter: where a field stands in a packet, how a position is converted, which calls fail.
\<close>

section \<open>Data\<close>

datatype DataRegion = DR_Global | DR_Encoder1 | DR_Encoder2 | DR_Encoder3 | DR_Encoder4

datatype PacketField = PDF_TriggerCounter | PDF_Timestamp | PDF_PositionData | PDF_StatusWord | PDF_ReferencePos

definition regions :: "DataRegion list" where
  "regions = [DR_Encoder1, DR_Encoder2, DR_Encoder3, DR_Encoder4]"

abbreviation NUM_OF_AXIS :: nat where
  "NUM_OF_AXIS \<equiv> 4"

record 'f EncoderAxisData =
  axis_no :: i8
  position :: i64
  calpos :: 'f
  axis_status :: u16
  triggerCounter :: u16
  axis_timestamp :: u32
  axis_ref :: "i64 \<times> i64"

record 'f EncoderData =
  numAxis :: i8
  axis_data :: "'f EncoderAxisData list"

text \<open>
  \<open>e_field\<close> is \<^verbatim>\<open>EIB7GetDataFieldPtr\<close> as an offset into the packet, \<open>None\<close> an error; \<open>e_double\<close> is
  \<^verbatim>\<open>EIB7IncrPosToDouble\<close>. A call that fails leaves its result variable as it was.
\<close>

record 'f eib7 =
  e_field :: "DataRegion \<Rightarrow> PacketField \<Rightarrow> nat option"
  e_double :: "i64 \<Rightarrow> 'f option"

text \<open>What \<^verbatim>\<open>EIB7ReadFIFOData\<close> gives in one round of a loop; \<open>fr_data\<close> is the buffer of 200 bytes after the call.\<close>

record fifo_read =
  fr_overflow :: bool
  fr_entries :: u32
  fr_data :: bytes

definition enabled :: "i8 \<Rightarrow> nat \<Rightarrow> bool" where
  "enabled axes i \<longleftrightarrow> axes AND push_bit i 1 \<noteq> 0"

definition get_ptr :: "'f eib7 \<Rightarrow> DataRegion \<Rightarrow> PacketField \<Rightarrow> nat option \<Rightarrow> nat option" where
  "get_ptr e reg pdf field = (case e_field e reg pdf of None \<Rightarrow> field | Some off \<Rightarrow> Some off)"

definition deref :: "nat \<Rightarrow> bytes \<Rightarrow> nat option \<Rightarrow> nat outcome" where
  "deref n udp field =
     (case field of None \<Rightarrow> Fault Uninitialised | Some off \<Rightarrow> obind (memcpy_from udp off n) (\<lambda>b. Ok (le_nat b)))"

section \<open>The reference run\<close>

fun ref_axes :: "'f eib7 \<Rightarrow> i8 \<Rightarrow> bytes \<Rightarrow> nat list \<Rightarrow> bool list \<Rightarrow> nat option \<Rightarrow> (bool list \<times> nat option) outcome" where
  "ref_axes e axes udp [] refg field = Ok (refg, field)"
| "ref_axes e axes udp (i # is) refg field =
     (if \<not> enabled axes i then ref_axes e axes udp is (refg[i := False]) field
      else
        let field = get_ptr e (regions ! i) PDF_StatusWord field in
        obind (deref 2 udp field) (\<lambda>st.
          if bit st 8 then
            if refg ! i then
              let field = get_ptr e (regions ! i) PDF_ReferencePos field in
              obind (deref 8 udp field) (\<lambda>_. ref_axes e axes udp is (refg[i := False]) field)
            else ref_axes e axes udp is (refg[i := False]) field
          else ref_axes e axes udp is refg field))"

text \<open>The end of the list of reads is the cleared flag \<^verbatim>\<open>eib_loop_running\<close>.\<close>

fun ref_loop :: "'f eib7 \<Rightarrow> i8 \<Rightarrow> fifo_read list \<Rightarrow> bool list \<Rightarrow> nat option \<Rightarrow> (bool list \<times> nat option \<times> fifo_read list) outcome" where
  "ref_loop e axes [] refg field = Ok (refg, field, [])"
| "ref_loop e axes (r # rs) refg field =
     (if 0 < fr_entries r then
        obind (ref_axes e axes (fr_data r) [0..<NUM_OF_AXIS] refg field) (\<lambda>(refg, field).
          if list_ex (\<lambda>b. b) refg then ref_loop e axes rs refg field else Ok (refg, field, rs))
      else ref_loop e axes rs refg field)"

section \<open>The data loop\<close>

definition enc_axis :: "'f::linordered_field eib7 \<Rightarrow> 'f list \<Rightarrow> bytes \<Rightarrow> nat \<Rightarrow> 'f EncoderAxisData \<Rightarrow> nat option \<Rightarrow> ('f EncoderAxisData \<times> nat option) outcome" where
  "enc_axis e isigperiods udp i ea field =
     (let reg = regions ! i; field = get_ptr e DR_Global PDF_TriggerCounter field in
      obind (deref 2 udp field) (\<lambda>tc. let field = get_ptr e reg PDF_Timestamp field in
      obind (deref 2 udp field) (\<lambda>ts. let field = get_ptr e reg PDF_PositionData field in
      obind (deref 8 udp field) (\<lambda>pos. let field = get_ptr e reg PDF_StatusWord field in
      obind (deref 2 udp field) (\<lambda>st. let field = get_ptr e reg PDF_ReferencePos field in
      obind (deref 8 udp field) (\<lambda>ref0.
      obind (deref 8 udp (map_option (\<lambda>off. off + 8) field)) (\<lambda>ref1.
        let p = word_of_nat pos - word_of_nat ref0;
            c = (case e_double e p of None \<Rightarrow> calpos ea | Some x \<Rightarrow> x)
        in if isigperiods ! i = 0 then Fault DivisionByZero
           else Ok (ea\<lparr>triggerCounter := word_of_nat tc, axis_timestamp := word_of_nat ts, position := p, axis_status := word_of_nat st,
                       axis_ref := (word_of_nat ref0, word_of_nat ref1), calpos := c * (360 / isigperiods ! i),
                       axis_no := word_of_nat i + 1\<rparr>, field))))))))"

fun enc_axes :: "'f::linordered_field eib7 \<Rightarrow> i8 \<Rightarrow> 'f list \<Rightarrow> bytes \<Rightarrow> nat list \<Rightarrow> 'f EncoderAxisData \<Rightarrow> 'f EncoderData \<Rightarrow> nat option \<Rightarrow> ('f EncoderData \<times> nat option) outcome" where
  "enc_axes e axes isigperiods udp [] ea ed field = Ok (ed, field)"
| "enc_axes e axes isigperiods udp (i # is) ea ed field =
     (if \<not> enabled axes i then enc_axes e axes isigperiods udp is ea ed field
      else obind (enc_axis e isigperiods udp i ea field) (\<lambda>(ea, field).
             enc_axes e axes isigperiods udp is ea (ed\<lparr>numAxis := numAxis ed + 1, axis_data := (axis_data ed)[i := ea]\<rparr>) field))"

text \<open>
  The positions of the two crystals go to the database and are moved by the offsets found there. \<open>fmt\<close> and \<open>atof\<close>
  are the conversions of the database layer.
\<close>

record ('f, 'd) enc_env =
  env_eib :: "'f eib7"
  env_sq :: "'d sqlite"
  env_fmt :: "'f \<Rightarrow> string"
  env_atof :: "string \<Rightarrow> 'f"

record ('f, 'd) encoder =
  inited_axes :: i8
  eib_loop :: bool
  eib_loop_running :: bool
  waiting_for_ref :: bool
  enc_queue :: "'f EncoderData smq"
  enc_rdb :: "'d rdb"
  fifo_clears :: nat

definition add_offset :: "nat \<Rightarrow> 'f::linordered_field \<Rightarrow> 'f EncoderData \<Rightarrow> 'f EncoderData" where
  "add_offset i v ed = ed\<lparr>axis_data := (axis_data ed)[i := (axis_data ed ! i)\<lparr>calpos := calpos (axis_data ed ! i) + v\<rparr>]\<rparr>"

definition enc_publish :: "('f::linordered_field, 'd) enc_env \<Rightarrow> 'f EncoderData \<Rightarrow> ('f, 'd) encoder \<Rightarrow> ('f, 'd) encoder outcome" where
  "enc_publish env ed s =
     obind (WriteValuef64 (env_fmt env) SYS (env_sq env) ''Geometric_LastKnownPosC1'' (calpos (axis_data ed ! 1))
             ''The last known position for Crystal 1.'' (enc_rdb s)) (\<lambda>db.
     obind (WriteValuef64 (env_fmt env) SYS (env_sq env) ''Geometric_LastKnownPosC2'' (calpos (axis_data ed ! 3))
             ''The last known position for Crystal 2.'' db) (\<lambda>db.
     obind (ReadValuef64 (env_atof env) 0 (env_sq env) ''Geometric_AngleOffsetC1'' db) (\<lambda>(o1, db).
     obind (ReadValuef64 (env_atof env) 0 (env_sq env) ''Geometric_AngleOffsetC2'' db) (\<lambda>(o2, db).
       let ed = add_offset 3 o2 (add_offset 1 o1 ed); s = s\<lparr>enc_rdb := db\<rparr>
       in Ok (if 0 <s numAxis ed then s\<lparr>enc_queue := smq_push (enc_queue s) ed\<rparr> else s)))))"

text \<open>\<open>ea0\<close> and \<open>ed0\<close> are the uninitialised local variables of a round.\<close>

definition enc_packet :: "('f::linordered_field, 'd) enc_env \<Rightarrow> 'f EncoderAxisData \<Rightarrow> 'f EncoderData \<Rightarrow> 'f list \<Rightarrow> bytes \<Rightarrow> nat option \<Rightarrow> ('f, 'd) encoder \<Rightarrow> (('f, 'd) encoder \<times> nat option) outcome" where
  "enc_packet env ea0 ed0 isigperiods udp field s =
     obind (enc_axes (env_eib env) (inited_axes s) isigperiods udp [0..<NUM_OF_AXIS] ea0 (ed0\<lparr>numAxis := 0\<rparr>) field) (\<lambda>(ed, field).
     obind (enc_publish env ed s) (\<lambda>s. Ok (s, field)))"

definition fifo_overflow :: "fifo_read \<Rightarrow> ('f, 'd) encoder \<Rightarrow> ('f, 'd) encoder" where
  "fifo_overflow r s = (if fr_overflow r then s\<lparr>fifo_clears := fifo_clears s + 1\<rparr> else s)"

fun enc_loop :: "('f::linordered_field, 'd) enc_env \<Rightarrow> 'f EncoderAxisData \<Rightarrow> 'f EncoderData \<Rightarrow> 'f list \<Rightarrow> fifo_read list \<Rightarrow> nat option \<Rightarrow> ('f, 'd) encoder \<Rightarrow> ('f, 'd) encoder outcome" where
  "enc_loop env ea0 ed0 isigperiods [] field s = Ok s"
| "enc_loop env ea0 ed0 isigperiods (r # rs) field s =
     (let s = fifo_overflow r s in
      if 0 < fr_entries r
      then obind (enc_packet env ea0 ed0 isigperiods (fr_data r) field s) (\<lambda>(s, field). enc_loop env ea0 ed0 isigperiods rs field s)
      else enc_loop env ea0 ed0 isigperiods rs field s)"

text \<open>The thread; it receives the periods in the reverse order of the caller's array.\<close>

definition enc_thread :: "('f::linordered_field, 'd) enc_env \<Rightarrow> 'f EncoderAxisData \<Rightarrow> 'f EncoderData \<Rightarrow> 'f list \<Rightarrow> fifo_read list \<Rightarrow> ('f, 'd) encoder \<Rightarrow> ('f, 'd) encoder outcome" where
  "enc_thread env ea0 ed0 sigperiods rs s =
     obind (ref_loop (env_eib env) (inited_axes s) rs (replicate NUM_OF_AXIS True) None) (\<lambda>(refg, field, rest).
       let s = fold fifo_overflow (take (length rs - length rest) rs) (s\<lparr>waiting_for_ref := True\<rparr>)
       in enc_loop env ea0 ed0 (rev sigperiods) rest field (s\<lparr>waiting_for_ref := False\<rparr>))"

definition EIB7SoftModeLoopStart :: "('f, 'd) encoder \<Rightarrow> ('f, 'd) encoder" where
  "EIB7SoftModeLoopStart s =
     (if \<not> eib_loop s then s\<lparr>eib_loop_running := True, eib_loop := True\<rparr> else s)"

definition EIB7SoftModeLoopStop :: "('f, 'd) encoder \<Rightarrow> ('f, 'd) encoder" where
  "EIB7SoftModeLoopStop s = (if eib_loop s then s\<lparr>eib_loop_running := False, eib_loop := False\<rparr> else s)"

definition EncoderNeedsRefRun :: "('f, 'd) encoder \<Rightarrow> u8" where
  "EncoderNeedsRefRun s = (if waiting_for_ref s then 1 else 0)"

definition GetTriggerPeriod :: u32 where
  "GetTriggerPeriod = 100000"

text \<open>\<open>junk\<close> is the uninitialised result and \<open>zero\<close> the value-initialised one of \<^verbatim>\<open>peekBack\<close>.\<close>

definition InspectLastEncoderValues :: "'f EncoderData \<Rightarrow> 'f EncoderData \<Rightarrow> ('f, 'd) encoder \<Rightarrow> 'f EncoderData outcome" where
  "InspectLastEncoderValues junk zero s =
     (if 0 < sint (smq_size (enc_queue s))
      then obind (smq_peekBack zero (enc_queue s) None) (\<lambda>(d, _). Ok d)
      else Ok (junk\<lparr>numAxis := 0\<rparr>))"

section \<open>Setting the device up\<close>

text \<open>
  The calls to the driver, in order; \<open>err\<close> says which ones fail. A failed call leaves \<^verbatim>\<open>InitEIB7Encoder\<close>, and the
  caller is not told. An axis handle or a packet section outside its array is a fault.
\<close>

datatype eib_call =
    GetHostIP | Open | GetAxis | GetTimestampTicks | SetTimestampPeriod u32 | AddGlobalSection
  | GetTimerTriggerTicks | SetTimerTriggerPeriod u32 | MasterTriggerSource
  | InitAxis nat | SetTimestamp nat | AddAxisSection nat DataRegion | AxisTriggerSource nat
  | ConfigDataPacket nat | SelectMode_SoftRealtime | SelectMode_Polling | TriggerEnable | TriggerDisable | Close
  | ClearRefStatus nat | StartRef nat

record eib_state =
  eib_calls :: "eib_call list"
  eib_axes :: i8

definition do_call :: "(eib_call \<Rightarrow> bool) \<Rightarrow> eib_call \<Rightarrow> eib_state \<Rightarrow> bool \<times> eib_state" where
  "do_call err c s = (\<not> err c, s\<lparr>eib_calls := eib_calls s @ [c]\<rparr>)"

fun do_calls :: "(eib_call \<Rightarrow> bool) \<Rightarrow> eib_call list \<Rightarrow> eib_state \<Rightarrow> bool \<times> eib_state" where
  "do_calls err [] s = (True, s)"
| "do_calls err (c # cs) s = (let (ok, s) = do_call err c s in if ok then do_calls err cs s else (False, s))"

fun setup_axes :: "(eib_call \<Rightarrow> bool) \<Rightarrow> i8 \<Rightarrow> nat list \<Rightarrow> nat \<Rightarrow> eib_state \<Rightarrow> (bool \<times> nat \<times> eib_state) outcome" where
  "setup_axes err axes [] idx s = Ok (True, idx, s)"
| "setup_axes err axes (i # is) idx s =
     (if \<not> enabled axes i then setup_axes err axes is idx s
      else if NUM_OF_AXIS \<le> i \<or> 5 \<le> idx then Fault OutOfBounds
      else let (ok, s) = do_calls err [InitAxis i, SetTimestamp i, AddAxisSection idx (regions ! i), AxisTriggerSource i] s
           in if ok then setup_axes err axes is (idx + 1) s else Ok (False, idx, s))"

definition InitEIB7Encoder :: "(eib_call \<Rightarrow> bool) \<Rightarrow> u32 \<Rightarrow> u32 \<Rightarrow> u32 \<Rightarrow> i8 \<Rightarrow> eib_state \<Rightarrow> eib_state outcome" where
  "InitEIB7Encoder err numAxes timestampTicks timerTicks axes s =
     (let (ok, s) = do_calls err [GetHostIP, Open, GetAxis, GetTimestampTicks, SetTimestampPeriod (1000 * timestampTicks), AddGlobalSection,
            GetTimerTriggerTicks, SetTimerTriggerPeriod (GetTriggerPeriod * timerTicks), MasterTriggerSource] s
      in if \<not> ok then Ok s
         else obind (setup_axes err axes [0..<nat (sint numAxes)] 1 s) (\<lambda>(ok, idx, s).
           if \<not> ok then Ok s
           else Ok (snd (do_calls err [ConfigDataPacket idx, SelectMode_SoftRealtime] (s\<lparr>eib_axes := axes\<rparr>)))))"

definition StartEIB7SoftModeTrigger :: "eib_state \<Rightarrow> eib_state" where
  "StartEIB7SoftModeTrigger s = s\<lparr>eib_calls := eib_calls s @ [TriggerEnable]\<rparr>"

definition StopEIB7SoftModeTrigger :: "eib_state \<Rightarrow> eib_state" where
  "StopEIB7SoftModeTrigger s = s\<lparr>eib_calls := eib_calls s @ [TriggerDisable]\<rparr>"

definition DeleteEIB7Encoder :: "eib_state \<Rightarrow> eib_state" where
  "DeleteEIB7Encoder s = s\<lparr>eib_calls := eib_calls s @ [TriggerDisable, SelectMode_Polling, Close]\<rparr>"

definition ENC_Init :: "(eib_call \<Rightarrow> bool) \<Rightarrow> u32 \<Rightarrow> u32 \<Rightarrow> u32 \<Rightarrow> i8 \<Rightarrow> eib_state \<times> ('f, 'd) encoder \<Rightarrow> (eib_state \<times> ('f, 'd) encoder) outcome" where
  "ENC_Init err numAxes timestampTicks timerTicks axes = (\<lambda>(d, s).
     obind (InitEIB7Encoder err numAxes timestampTicks timerTicks axes d) (\<lambda>d.
       Ok (StartEIB7SoftModeTrigger d, EIB7SoftModeLoopStart (s\<lparr>inited_axes := eib_axes d\<rparr>))))"

definition ENC_Terminate :: "eib_state \<times> ('f, 'd) encoder \<Rightarrow> eib_state \<times> ('f, 'd) encoder" where
  "ENC_Terminate = (\<lambda>(d, s). (DeleteEIB7Encoder (StopEIB7SoftModeTrigger d), EIB7SoftModeLoopStop s))"

text \<open>The calls with which the thread starts the reference run.\<close>

definition start_references :: "eib_state \<Rightarrow> eib_state" where
  "start_references s =
     s\<lparr>eib_calls := eib_calls s @ concat (map (\<lambda>i. [ClearRefStatus i, StartRef i]) (filter (enabled (eib_axes s)) [0..<NUM_OF_AXIS]))\<rparr>"

definition axis_calls :: "i8 \<Rightarrow> nat list \<Rightarrow> nat \<Rightarrow> eib_call list" where
  "axis_calls axes is idx =
     concat (map (\<lambda>(i, k). [InitAxis i, SetTimestamp i, AddAxisSection (idx + k) (regions ! i), AxisTriggerSource i])
       (zip (filter (enabled axes) is) [0..<length (filter (enabled axes) is)]))"

lemma do_calls_ok: "(\<And>c. \<not> err c) \<Longrightarrow> do_calls err cs s = (True, s\<lparr>eib_calls := eib_calls s @ cs\<rparr>)"
  by (induction cs arbitrary: s) (simp_all add: do_call_def)

lemma do_calls_error:
  "do_calls err (as @ c # bs) s = (False, s\<lparr>eib_calls := eib_calls s @ as @ [c]\<rparr>)" if "err c" "\<forall>a \<in> set as. \<not> err a"
  using that by (induction as arbitrary: s) (simp_all add: do_call_def)

lemma axis_calls_Cons:
  "axis_calls axes (i # is) idx =
     (if enabled axes i then [InitAxis i, SetTimestamp i, AddAxisSection idx (regions ! i), AxisTriggerSource i] @ axis_calls axes is (idx + 1)
      else axis_calls axes is idx)"
proof -
  have "zip xs [Suc 0..<Suc n] = map (\<lambda>(i, k). (i, Suc k)) (zip xs [0..<n])" for xs :: "nat list" and n
    by (simp only: map_Suc_upt [symmetric] zip_map2)
  then show ?thesis by (simp add: axis_calls_def upt_conv_Cons comp_def case_prod_unfold del: upt_Suc)
qed

lemma setup_axes_ok:
  assumes "\<And>c. \<not> err c" "\<forall>i \<in> set is. i < NUM_OF_AXIS" "idx + length is \<le> 5"
  shows "setup_axes err axes is idx s =
    Ok (True, idx + length (filter (enabled axes) is), s\<lparr>eib_calls := eib_calls s @ axis_calls axes is idx\<rparr>)"
  using assms(2,3) by (induction "is" arbitrary: idx s) (auto simp: do_calls_ok [OF assms(1)] axis_calls_Cons, simp add: axis_calls_def)

text \<open>
  When no call fails, the packet gets the trigger counter and one section per enabled axis, in order, and is configured
  with that many sections.
\<close>

lemma encoder_setup:
  assumes "\<And>c. \<not> err c"
  shows "InitEIB7Encoder err 4 tst tit axes s = Ok \<lparr>eib_calls = eib_calls s @ [GetHostIP, Open, GetAxis, GetTimestampTicks,
      SetTimestampPeriod (1000 * tst), AddGlobalSection, GetTimerTriggerTicks, SetTimerTriggerPeriod (GetTriggerPeriod * tit), MasterTriggerSource]
      @ axis_calls axes [0..<NUM_OF_AXIS] 1
      @ [ConfigDataPacket (1 + length (filter (enabled axes) [0..<NUM_OF_AXIS])), SelectMode_SoftRealtime], eib_axes = axes, \<dots> = eib_state.more s\<rparr>"
proof -
  have "setup_axes err axes [0..<NUM_OF_AXIS] 1 s' =
      Ok (True, 1 + length (filter (enabled axes) [0..<NUM_OF_AXIS]), s'\<lparr>eib_calls := eib_calls s' @ axis_calls axes [0..<NUM_OF_AXIS] 1\<rparr>)" for s'
    using assms by (intro setup_axes_ok) auto
  then show ?thesis by (simp add: InitEIB7Encoder_def do_calls_ok [OF assms] Let_def)
qed

text \<open>
  A device that cannot be opened is not noticed: after the failed call the trigger is enabled on the unopened handle and
  the thread is started.
\<close>

lemma encoder_started_without_device:
  assumes "err Open" "\<not> err GetHostIP" "\<not> eib_loop s"
  shows "ENC_Init err n tst tit axes (d, s) = Ok (d\<lparr>eib_calls := eib_calls d @ [GetHostIP, Open, TriggerEnable]\<rparr>,
    s\<lparr>inited_axes := eib_axes d, eib_loop_running := True, eib_loop := True\<rparr>)"
  using assms by (simp add: ENC_Init_def InitEIB7Encoder_def do_call_def Let_def StartEIB7SoftModeTrigger_def EIB7SoftModeLoopStart_def)

section \<open>What the thread publishes\<close>

text \<open>The layout the device promises for the enabled axes once the packet is configured.\<close>

definition field_ok :: "'f eib7 \<Rightarrow> DataRegion \<Rightarrow> PacketField \<Rightarrow> nat \<Rightarrow> bool" where
  "field_ok e reg pdf n \<longleftrightarrow> (case e_field e reg pdf of None \<Rightarrow> False | Some off \<Rightarrow> off + n \<le> 200)"

definition eib_fields :: "'f eib7 \<Rightarrow> i8 \<Rightarrow> bool" where
  "eib_fields e axes \<longleftrightarrow> field_ok e DR_Global PDF_TriggerCounter 2
     \<and> (\<forall>i < NUM_OF_AXIS. enabled axes i \<longrightarrow> field_ok e (regions ! i) PDF_Timestamp 2 \<and> field_ok e (regions ! i) PDF_PositionData 8
          \<and> field_ok e (regions ! i) PDF_StatusWord 2 \<and> field_ok e (regions ! i) PDF_ReferencePos 16)"

definition field_val :: "'f eib7 \<Rightarrow> DataRegion \<Rightarrow> PacketField \<Rightarrow> nat \<Rightarrow> bytes \<Rightarrow> nat" where
  "field_val e reg pdf n udp = le_nat (take n (drop (the (e_field e reg pdf)) udp))"

lemma deref_field [simp]:
  assumes "field_ok e reg pdf n'" "n \<le> n'" "length udp = 200"
  shows "deref n udp (get_ptr e reg pdf field) = Ok (field_val e reg pdf n udp)"
  using assms by (auto simp: field_ok_def deref_def get_ptr_def memcpy_from_def field_val_def split: option.splits)

lemma deref_field_second [simp]:
  assumes "field_ok e reg pdf 16" "length udp = 200"
  shows "\<exists>v. deref 8 udp (map_option (\<lambda>off. off + 8) (get_ptr e reg pdf field)) = Ok v"
  using assms by (auto simp: field_ok_def deref_def get_ptr_def memcpy_from_def split: option.splits)

definition ref_seen :: "'f eib7 \<Rightarrow> nat \<Rightarrow> fifo_read \<Rightarrow> bool" where
  "ref_seen e i r \<longleftrightarrow> 0 < fr_entries r \<and> bit (field_val e (regions ! i) PDF_StatusWord 2 (fr_data r)) 8"

lemma ref_axes_result:
  assumes "eib_fields e axes" "length udp = 200" "set is \<subseteq> {..<4}" "distinct is" "length refg = 4"
  shows "\<exists>refg' field'. ref_axes e axes udp is refg field = Ok (refg', field') \<and> length refg' = 4
    \<and> (\<forall>i<4. refg' ! i \<longleftrightarrow> refg ! i \<and> (i \<in> set is \<longrightarrow> enabled axes i \<and> \<not> bit (field_val e (regions ! i) PDF_StatusWord 2 udp) 8))"
  using assms(3-5)
proof (induction "is" arbitrary: refg field)
  case Nil
  then show ?case by simp
next
  case (Cons i "is")
  let ?b = "enabled axes i \<and> \<not> bit (field_val e (regions ! i) PDF_StatusWord 2 udp) 8"
  define refg1 where "refg1 = (if ?b then refg else refg[i := False])"
  have "\<exists>field1. ref_axes e axes udp (i # is) refg field = ref_axes e axes udp is refg1 field1"
  proof (cases "enabled axes i")
    case True
    then have f: "field_ok e (regions ! i) PDF_StatusWord 2" "field_ok e (regions ! i) PDF_ReferencePos 16"
      using assms(1) Cons.prems by (auto simp: eib_fields_def)
    show ?thesis
      using True deref_field [OF f(1) order_refl assms(2)] deref_field [OF f(2), of 8, OF _ assms(2)]
      by (auto simp: refg1_def Let_def)
  qed (auto simp: refg1_def)
  then obtain field1 where st: "ref_axes e axes udp (i # is) refg field = ref_axes e axes udp is refg1 field1" by blast
  have "length refg1 = 4" using Cons.prems by (simp add: refg1_def)
  then obtain refg' field' where r: "ref_axes e axes udp is refg1 field1 = Ok (refg', field')" "length refg' = 4"
    "\<forall>j<4. refg' ! j \<longleftrightarrow> refg1 ! j \<and> (j \<in> set is \<longrightarrow> enabled axes j \<and> \<not> bit (field_val e (regions ! j) PDF_StatusWord 2 udp) 8)"
    using Cons.IH [of refg1 field1] Cons.prems by auto
  have "refg1 ! j \<longleftrightarrow> refg ! j \<and> (j = i \<longrightarrow> ?b)" if "j < 4" for j
    using that Cons.prems by (auto simp: refg1_def nth_list_update)
  then show ?case using st r by auto
qed

definition ref_post :: "'f eib7 \<Rightarrow> i8 \<Rightarrow> fifo_read list \<Rightarrow> bool list \<Rightarrow> bool list \<Rightarrow> bool" where
  "ref_post e axes used refg refg' \<longleftrightarrow> length refg' = 4
     \<and> (\<forall>i<4. refg' ! i \<longleftrightarrow> refg ! i \<and> (\<forall>r \<in> set used. 0 < fr_entries r \<longrightarrow> enabled axes i \<and> \<not> ref_seen e i r))"

lemma ref_post_Cons:
  "ref_post e axes [r] refg refg1 \<Longrightarrow> ref_post e axes used refg1 refg' \<Longrightarrow> ref_post e axes (r # used) refg refg'"
  by (auto simp: ref_post_def)

lemma ref_loop_result:
  assumes "eib_fields e axes" "\<forall>r \<in> set rs. length (fr_data r) = 200" "length refg = 4"
  shows "\<exists>used refg' field' rest. ref_loop e axes rs refg field = Ok (refg', field', rest) \<and> rs = used @ rest
    \<and> ref_post e axes used refg refg' \<and> (rest \<noteq> [] \<longrightarrow> \<not> list_ex (\<lambda>b. b) refg')"
  using assms(2,3)
proof (induction rs arbitrary: refg field)
  case Nil
  then show ?case by (intro exI [of _ "[] :: fifo_read list"]) (simp add: ref_post_def)
next
  case (Cons r rs)
  show ?case
  proof (cases "0 < fr_entries r")
    case False
    then have "ref_post e axes [r] refg refg" using Cons.prems by (simp add: ref_post_def)
    moreover obtain used refg' field' rest where "ref_loop e axes rs refg field = Ok (refg', field', rest)" "rs = used @ rest"
      "ref_post e axes used refg refg'" "rest \<noteq> [] \<longrightarrow> \<not> list_ex (\<lambda>b. b) refg'"
      using Cons.IH [of refg field] Cons.prems by auto
    ultimately show ?thesis using False by (intro exI [of _ "r # used"]) (auto intro: ref_post_Cons)
  next
    case True
    obtain refg1 field1 where r1: "ref_axes e axes (fr_data r) [0..<4] refg field = Ok (refg1, field1)" "ref_post e axes [r] refg refg1"
      using ref_axes_result [OF assms(1), of "fr_data r" "[0..<4]" refg field] Cons.prems True
      by (auto simp: ref_seen_def ref_post_def atLeast0LessThan)
    show ?thesis
    proof (cases "list_ex (\<lambda>b. b) refg1")
      case False
      then show ?thesis using True r1 by (intro exI [of _ "[r]"]) auto
    next
      case ex: True
      have "length refg1 = 4" using r1(2) by (simp add: ref_post_def)
      then obtain used refg' field' rest where "ref_loop e axes rs refg1 field1 = Ok (refg', field', rest)" "rs = used @ rest"
        "ref_post e axes used refg1 refg'" "rest \<noteq> [] \<longrightarrow> \<not> list_ex (\<lambda>b. b) refg'"
        using Cons.IH [of refg1 field1] Cons.prems by auto
      then show ?thesis using True r1 ex by (intro exI [of _ "r # used"]) (auto intro: ref_post_Cons)
    qed
  qed
qed

text \<open>
  C22. The reference run ends as it should. It never faults on packets of the promised layout; it goes on to the data
  loop only when every enabled axis has shown the reference bit in some packet, and it does so once every enabled axis
  has shown it and a packet has arrived.
\<close>

theorem reference_run:
  assumes "eib_fields e axes" and "\<forall>r \<in> set rs. length (fr_data r) = 200"
  shows "\<exists>used refg field rest. ref_loop e axes rs (replicate NUM_OF_AXIS True) None = Ok (refg, field, rest) \<and> rs = used @ rest
    \<and> (rest \<noteq> [] \<longrightarrow> (\<forall>i<NUM_OF_AXIS. enabled axes i \<longrightarrow> (\<exists>r \<in> set used. ref_seen e i r)))
    \<and> ((\<exists>r \<in> set rs. 0 < fr_entries r) \<and> (\<forall>i<NUM_OF_AXIS. enabled axes i \<longrightarrow> (\<exists>r \<in> set rs. ref_seen e i r))
        \<longrightarrow> \<not> list_ex (\<lambda>b. b) refg)"
proof -
  obtain used refg field rest where r: "ref_loop e axes rs (replicate NUM_OF_AXIS True) None = Ok (refg, field, rest)" "rs = used @ rest"
    "ref_post e axes used (replicate NUM_OF_AXIS True) refg" "rest \<noteq> [] \<longrightarrow> \<not> list_ex (\<lambda>b. b) refg"
    using ref_loop_result [OF assms, of "replicate NUM_OF_AXIS True" None] by auto
  have ex: "list_ex (\<lambda>b. b) refg \<longleftrightarrow> (\<exists>i<4. \<forall>r \<in> set used. 0 < fr_entries r \<longrightarrow> enabled axes i \<and> \<not> ref_seen e i r)"
    using r(3) by (auto simp: ref_post_def list_ex_length)
  have "\<exists>r \<in> set used. ref_seen e i r" if "rest \<noteq> []" "i < 4" "enabled axes i" for i
    using r(4) ex that by auto
  moreover have "\<not> list_ex (\<lambda>b. b) refg"
    if "\<exists>r \<in> set rs. 0 < fr_entries r" "\<forall>i<4. enabled axes i \<longrightarrow> (\<exists>r \<in> set rs. ref_seen e i r)"
  proof (cases "rest = []")
    case True
    then show ?thesis using ex r(2) that by (auto simp: ref_seen_def)
  next
    case False
    then show ?thesis using r(4) by simp
  qed
  ultimately show ?thesis using r(1,2) by blast
qed

definition axis_pos_raw :: "'f eib7 \<Rightarrow> bytes \<Rightarrow> nat \<Rightarrow> i64" where
  "axis_pos_raw e udp i =
     word_of_nat (field_val e (regions ! i) PDF_PositionData 8 udp) - word_of_nat (field_val e (regions ! i) PDF_ReferencePos 8 udp)"

definition axis_good :: "'f::linordered_field eib7 \<Rightarrow> 'f list \<Rightarrow> bytes \<Rightarrow> nat \<Rightarrow> 'f EncoderAxisData \<Rightarrow> bool" where
  "axis_good e isigperiods udp i a \<longleftrightarrow> axis_no a = word_of_nat i + 1 \<and> position a = axis_pos_raw e udp i
     \<and> (\<forall>x. e_double e (axis_pos_raw e udp i) = Some x \<longrightarrow> calpos a = x * (360 / isigperiods ! i))"

lemma enc_axis_result:
  assumes "eib_fields e axes" "length udp = 200" "i < NUM_OF_AXIS" "enabled axes i" "isigperiods ! i \<noteq> 0"
  shows "\<exists>ea' field'. enc_axis e isigperiods udp i ea field = Ok (ea', field')
    \<and> axis_good e isigperiods udp i ea'"
proof -
  have g: "field_ok e DR_Global PDF_TriggerCounter 2" and f: "field_ok e (regions ! i) PDF_Timestamp 2"
    "field_ok e (regions ! i) PDF_PositionData 8" "field_ok e (regions ! i) PDF_StatusWord 2" "field_ok e (regions ! i) PDF_ReferencePos 16"
    using assms by (auto simp: eib_fields_def)
  have ref0: "deref 8 udp (get_ptr e (regions ! i) PDF_ReferencePos fd) = Ok (field_val e (regions ! i) PDF_ReferencePos 8 udp)" for fd
    using f(4) assms(2) by (auto intro: deref_field)
  note d = deref_field [OF g order_refl assms(2)] deref_field [OF f(1) order_refl assms(2)] deref_field [OF f(2) order_refl assms(2)]
    deref_field [OF f(3) order_refl assms(2)] ref0
  obtain v where v: "\<And>fd. deref 8 udp (map_option (\<lambda>off. off + 8) (get_ptr e (regions ! i) PDF_ReferencePos fd)) = Ok v"
    using f(4) assms(2) by (auto simp: field_ok_def deref_def get_ptr_def memcpy_from_def split: option.splits)
  show ?thesis using assms(5) by (auto simp: enc_axis_def axis_good_def axis_pos_raw_def Let_def d v)
qed

lemma enc_axes_result:
  assumes "eib_fields e axes" "length udp = 200" "\<forall>i<NUM_OF_AXIS. enabled axes i \<longrightarrow> isigperiods ! i \<noteq> 0"
    and "\<forall>i \<in> set is. i < NUM_OF_AXIS" "distinct is" "length (axis_data ed) = NUM_OF_AXIS"
  shows "\<exists>ed' field'. enc_axes e axes isigperiods udp is ea ed field = Ok (ed', field') \<and> length (axis_data ed') = NUM_OF_AXIS
    \<and> numAxis ed' = numAxis ed + word_of_nat (length (filter (enabled axes) is))
    \<and> (\<forall>i<NUM_OF_AXIS. if i \<in> set is \<and> enabled axes i then axis_good e isigperiods udp i (axis_data ed' ! i)
          else axis_data ed' ! i = axis_data ed ! i)"
  using assms(4-6)
proof (induction "is" arbitrary: ea ed field)
  case Nil
  then show ?case by simp
next
  case (Cons i "is")
  show ?case
  proof (cases "enabled axes i")
    case False
    then show ?thesis using Cons.IH [of ed ea field] Cons.prems by auto
  next
    case True
    obtain ea1 field1 where a: "enc_axis e isigperiods udp i ea field = Ok (ea1, field1)" "axis_good e isigperiods udp i ea1"
      using enc_axis_result [OF assms(1,2), of i isigperiods ea field] True Cons.prems assms(3) by auto
    let ?ed = "ed\<lparr>numAxis := numAxis ed + 1, axis_data := (axis_data ed)[i := ea1]\<rparr>"
    obtain ed' field' where r: "enc_axes e axes isigperiods udp is ea1 ?ed field1 = Ok (ed', field')" "length (axis_data ed') = NUM_OF_AXIS"
      "numAxis ed' = numAxis ?ed + word_of_nat (length (filter (enabled axes) is))"
      "\<forall>j<NUM_OF_AXIS. if j \<in> set is \<and> enabled axes j then axis_good e isigperiods udp j (axis_data ed' ! j)
          else axis_data ed' ! j = axis_data ?ed ! j"
      using Cons.IH [of ?ed ea1 field1] Cons.prems by auto
    have i: "axis_data ed' ! i = ea1" using r(4) Cons.prems by auto
    have "if j \<in> set (i # is) \<and> enabled axes j then axis_good e isigperiods udp j (axis_data ed' ! j)
          else axis_data ed' ! j = axis_data ed ! j" if "j < NUM_OF_AXIS" for j
      using r(4) that a(2) True i by (cases "j = i") auto
    then show ?thesis using True a(1) r(1-3) by simp
  qed
qed

section \<open>The database side of a packet\<close>

lemma offset_names_plain: "plain_name ''Geometric_AngleOffsetC1''" "plain_name ''Geometric_AngleOffsetC2''"
  "plain_name ''Geometric_LastKnownPosC1''" "plain_name ''Geometric_LastKnownPosC2''"
  by (simp_all add: plain_name_def upcase_def)

lemma offset_names_cstr: "cstr ''Geometric_AngleOffsetC1'' = ''Geometric_AngleOffsetC1''" "cstr ''Geometric_AngleOffsetC2'' = ''Geometric_AngleOffsetC2''"
  "cstr ''Geometric_LastKnownPosC1'' = ''Geometric_LastKnownPosC1''" "cstr ''Geometric_LastKnownPosC2'' = ''Geometric_LastKnownPosC2''"
  by (simp_all add: cstr_def)

definition db_value :: "('f::zero, 'd) enc_env \<Rightarrow> ('d \<Rightarrow> string \<Rightarrow> string option) \<Rightarrow> string \<Rightarrow> 'd rdb \<Rightarrow> 'f" where
  "db_value env vars n db = (case present (vars (realtime_db db) n) of None \<Rightarrow> 0 | Some v \<Rightarrow> env_atof env v)"

lemma ReadValuef64_keeps:
  assumes "sqlite_vars (env_sq env) vars" "plain_name n" "cstr n = n" "cache_ok vars db"
  shows "\<exists>db'. ReadValuef64 (env_atof env) 0 (env_sq env) n db = Ok (db_value env vars n db, db') \<and> cache_ok vars db' \<and> realtime_db db' = realtime_db db"
  using read_cached_current [OF assms(1,2,4)] assms(3) by (auto simp: ReadValuef64_def db_value_def)

lemma WriteValuef64_other:
  assumes "sqlite_vars (env_sq env) vars" "plain_name n" "cstr n = n" "cache_ok vars db"
  shows "\<exists>db'. WriteValuef64 (env_fmt env) SYS (env_sq env) n v descr db = Ok db' \<and> cache_ok vars db'
    \<and> (\<forall>m. m \<noteq> n \<longrightarrow> vars (realtime_db db') m = vars (realtime_db db) m)"
  using WriteValueText_effect [OF assms(1,2,4), of SYS "env_fmt env v" "cstr descr"] assms(3) by (auto simp: WriteValuef64_def)

lemma enc_publish_result:
  assumes c: "sqlite_vars (env_sq env) vars" and k: "cache_ok vars (enc_rdb s)"
  shows "\<exists>s'. enc_publish env ed s = Ok s' \<and> cache_ok vars (enc_rdb s') \<and> enc_queue s' =
    (let ed' = add_offset 3 (db_value env vars ''Geometric_AngleOffsetC2'' (enc_rdb s))
                 (add_offset 1 (db_value env vars ''Geometric_AngleOffsetC1'' (enc_rdb s)) ed)
     in if 0 <s numAxis ed then enc_queue s @ [ed'] else enc_queue s)"
proof -
  note n = offset_names_plain offset_names_cstr
  obtain db1 where w1: "WriteValuef64 (env_fmt env) SYS (env_sq env) ''Geometric_LastKnownPosC1'' (calpos (axis_data ed ! 1))
      ''The last known position for Crystal 1.'' (enc_rdb s) = Ok db1" "cache_ok vars db1"
    "\<forall>m. m \<noteq> ''Geometric_LastKnownPosC1'' \<longrightarrow> vars (realtime_db db1) m = vars (realtime_db (enc_rdb s)) m"
    using WriteValuef64_other [OF c n(3) n(7) k] by blast
  obtain db2 where w2: "WriteValuef64 (env_fmt env) SYS (env_sq env) ''Geometric_LastKnownPosC2'' (calpos (axis_data ed ! 3))
      ''The last known position for Crystal 2.'' db1 = Ok db2" "cache_ok vars db2"
    "\<forall>m. m \<noteq> ''Geometric_LastKnownPosC2'' \<longrightarrow> vars (realtime_db db2) m = vars (realtime_db db1) m"
    using WriteValuef64_other [OF c n(4) n(8) w1(2)] by blast
  obtain db3 where r1: "ReadValuef64 (env_atof env) 0 (env_sq env) ''Geometric_AngleOffsetC1'' db2 =
      Ok (db_value env vars ''Geometric_AngleOffsetC1'' db2, db3)" "cache_ok vars db3" "realtime_db db3 = realtime_db db2"
    using ReadValuef64_keeps [OF c n(1) n(5) w2(2)] by blast
  obtain db4 where r2: "ReadValuef64 (env_atof env) 0 (env_sq env) ''Geometric_AngleOffsetC2'' db3 =
      Ok (db_value env vars ''Geometric_AngleOffsetC2'' db3, db4)" "cache_ok vars db4"
    using ReadValuef64_keeps [OF c n(2) n(6) r1(2)] by blast
  have "db_value env vars m db2 = db_value env vars m (enc_rdb s)"
    if "m \<noteq> ''Geometric_LastKnownPosC1''" "m \<noteq> ''Geometric_LastKnownPosC2''" for m
    using w1(3) w2(3) that by (simp add: db_value_def)
  then have "db_value env vars ''Geometric_AngleOffsetC1'' db2 = db_value env vars ''Geometric_AngleOffsetC1'' (enc_rdb s)"
    "db_value env vars ''Geometric_AngleOffsetC2'' db3 = db_value env vars ''Geometric_AngleOffsetC2'' (enc_rdb s)"
    using r1(3) by (simp_all add: db_value_def)
  then show ?thesis
    using w1(1) w2(1) r1(1) r2 by (simp add: enc_publish_def Let_def smq_push_def add_offset_def)
qed

lemma enabled_count_signed:
  assumes "i < NUM_OF_AXIS" "enabled axes i"
  shows "(0 :: i8) <s word_of_nat (length (filter (enabled axes) [0..<NUM_OF_AXIS]))"
proof -
  let ?n = "length (filter (enabled axes) [0..<NUM_OF_AXIS])"
  have "i \<in> set (filter (enabled axes) [0..<NUM_OF_AXIS])" using assms by simp
  then have "0 < ?n" by (metis length_pos_if_in_set)
  moreover have "?n \<le> 4" using length_filter_le [of "enabled axes" "[0..<NUM_OF_AXIS]"] by simp
  moreover have "n \<in> {1, 2, 3, 4}" if "0 < n" "n \<le> 4" for n :: nat using that by auto
  ultimately have "?n \<in> {1, 2, 3, 4}" by blast
  then show ?thesis by (auto simp: word_sless_alt)
qed

definition crystal_offset :: "('f::zero, 'd) enc_env \<Rightarrow> ('d \<Rightarrow> string \<Rightarrow> string option) \<Rightarrow> 'd rdb \<Rightarrow> nat \<Rightarrow> 'f" where
  "crystal_offset env vars db i =
     (if i = 1 then db_value env vars ''Geometric_AngleOffsetC1'' db else if i = 3 then db_value env vars ''Geometric_AngleOffsetC2'' db else 0)"

text \<open>
  C12. After every data packet the call \<^verbatim>\<open>InspectLastEncoderValues\<close> gives the calibrated state of exactly the enabled axes:
  their number, for each one its index from 1, its position relative to its own reference mark, and its angle, 360 degrees
  per signal periods of the axis, moved for the two crystal axes by the offset the database holds at that moment.
\<close>

theorem encoder_values:
  assumes "eib_fields (env_eib env) (inited_axes s)" and "length udp = 200" and "length (axis_data ed0) = NUM_OF_AXIS"
    and "\<forall>i<NUM_OF_AXIS. enabled (inited_axes s) i \<longrightarrow> isigperiods ! i \<noteq> 0" and "i0 < NUM_OF_AXIS" and "enabled (inited_axes s) i0"
    and "sqlite_vars (env_sq env) vars" and "cache_ok vars (enc_rdb s)" and "length (enc_queue s) < 2 ^ 31 - 1"
  shows "\<exists>s' field' d. enc_packet env ea0 ed0 isigperiods udp field s = Ok (s', field') \<and> InspectLastEncoderValues junk zero s' = Ok d
    \<and> numAxis d = word_of_nat (length (filter (enabled (inited_axes s)) [0..<NUM_OF_AXIS]))
    \<and> (\<forall>i<NUM_OF_AXIS. enabled (inited_axes s) i \<longrightarrow> axis_no (axis_data d ! i) = word_of_nat i + 1
        \<and> position (axis_data d ! i) = axis_pos_raw (env_eib env) udp i
        \<and> (\<forall>x. e_double (env_eib env) (axis_pos_raw (env_eib env) udp i) = Some x \<longrightarrow>
             calpos (axis_data d ! i) = x * (360 / isigperiods ! i) + crystal_offset env vars (enc_rdb s) i))"
proof -
  let ?axes = "inited_axes s" and ?e = "env_eib env"
  obtain ed field' where a: "enc_axes ?e ?axes isigperiods udp [0..<NUM_OF_AXIS] ea0 (ed0\<lparr>numAxis := 0\<rparr>) field = Ok (ed, field')"
    "length (axis_data ed) = NUM_OF_AXIS" "numAxis ed = word_of_nat (length (filter (enabled ?axes) [0..<NUM_OF_AXIS]))"
    "\<forall>i<NUM_OF_AXIS. enabled ?axes i \<longrightarrow> axis_good ?e isigperiods udp i (axis_data ed ! i)"
    using enc_axes_result [OF assms(1,2,4), of "[0..<NUM_OF_AXIS]" "ed0\<lparr>numAxis := 0\<rparr>" ea0 field] assms(3)
    by (auto simp: del: upt_Suc)
  define d where "d = add_offset 3 (crystal_offset env vars (enc_rdb s) 3) (add_offset 1 (crystal_offset env vars (enc_rdb s) 1) ed)"
  obtain s' where p: "enc_publish env ed s = Ok s'" "enc_queue s' = enc_queue s @ [d]"
    using enc_publish_result [OF assms(7,8), of ed] enabled_count_signed [OF assms(5,6)] a(3)
    by (auto simp: d_def crystal_offset_def)
  have "sint (smq_size (enc_queue s')) = int (length (enc_queue s) + 1)"
    using assms(9) unfolding smq_size_def p(2) by (subst sint_of_small_nat) simp_all
  then have l: "InspectLastEncoderValues junk zero s' = Ok d"
    by (simp add: InspectLastEncoderValues_def p(2) flip: smq_push_def)
  have n: "numAxis d = numAxis ed" by (simp add: d_def add_offset_def)
  have "axis_data d ! i = (axis_data ed ! i)\<lparr>calpos := calpos (axis_data ed ! i) + crystal_offset env vars (enc_rdb s) i\<rparr>"
    if "i < NUM_OF_AXIS" for i
    using that a(2) by (auto simp: d_def add_offset_def nth_list_update crystal_offset_def)
  then show ?thesis
    using a p(1) l n by (auto simp: enc_packet_def axis_good_def)
qed

section \<open>A device\<close>

fun sample_base :: "DataRegion \<Rightarrow> nat" where
  "sample_base DR_Global = 0"
| "sample_base DR_Encoder1 = 2"
| "sample_base DR_Encoder2 = 30"
| "sample_base DR_Encoder3 = 58"
| "sample_base DR_Encoder4 = 86"

fun sample_off :: "PacketField \<Rightarrow> nat" where
  "sample_off PDF_StatusWord = 0"
| "sample_off PDF_PositionData = 2"
| "sample_off PDF_Timestamp = 10"
| "sample_off PDF_ReferencePos = 12"
| "sample_off PDF_TriggerCounter = 0"

definition sample_eib :: "rat eib7" where
  "sample_eib = \<lparr>e_field = (\<lambda>reg pdf. Some (sample_base reg + sample_off pdf)), e_double = (\<lambda>p. Some (of_int (sint p)))\<rparr>"

lemma sample_fields: "eib_fields sample_eib axes"
proof -
  have b: "sample_base reg \<le> 86" for reg by (cases reg) auto
  have "sample_base reg \<le> 188" "sample_base reg \<le> 190" "sample_base reg \<le> 198" "sample_base reg \<le> 172" for reg
    by (rule order_trans [OF b], simp)+
  then show ?thesis by (simp add: eib_fields_def field_ok_def sample_eib_def)
qed

text \<open>One packet of a device with the second axis: the reference bit is set, the position is 25 and the reference mark at 5.\<close>

definition sample_packet :: bytes where
  "sample_packet = replicate 30 0 @ [0, 1, 25, 0, 0, 0, 0, 0, 0, 0, 0, 0, 5, 0, 0, 0, 0, 0, 0, 0] @ replicate 150 0"

lemma sample_packet_fields:
  "field_val sample_eib DR_Encoder2 PDF_StatusWord 2 sample_packet = 256" "axis_pos_raw sample_eib sample_packet 1 = 20"
  by (simp_all add: field_val_def axis_pos_raw_def sample_eib_def sample_packet_def regions_def)

lemma sample_enabled: "enabled 2 i \<longleftrightarrow> i = 1" if "i < NUM_OF_AXIS"
proof -
  have "i \<in> {0, 1, 2, 3}" using that by auto
  then show ?thesis by (auto simp: enabled_def)
qed

definition sample_read :: fifo_read where
  "sample_read = \<lparr>fr_overflow = False, fr_entries = 1, fr_data = sample_packet\<rparr>"

lemma sample_read_seen: "ref_seen sample_eib i sample_read" if "i < NUM_OF_AXIS" "enabled 2 i"
proof -
  have "i = 1" using sample_enabled that by blast
  then show ?thesis using sample_packet_fields by (simp add: ref_seen_def regions_def sample_read_def bit_iff_odd)
qed

theorem reference_run_witness:
  "\<exists>refg field rest. ref_loop sample_eib 2 [sample_read] (replicate NUM_OF_AXIS True) None = Ok (refg, field, rest) \<and> \<not> list_ex (\<lambda>b. b) refg"
proof -
  have len: "\<forall>r \<in> set [sample_read]. length (fr_data r) = 200" by (simp add: sample_packet_def sample_read_def)
  have "0 < fr_entries sample_read" by (simp add: sample_read_def)
  then show ?thesis using reference_run [OF sample_fields len, of 2] sample_read_seen by auto
qed

definition sample_env :: "(rat, mem_db) enc_env" where
  "sample_env = \<lparr>env_eib = sample_eib, env_sq = mem_sqlite, env_fmt = (\<lambda>_. ''0''), env_atof = (\<lambda>_. 5)\<rparr>"

definition sample_encoder :: "(rat, mem_db) encoder" where
  "sample_encoder = \<lparr>inited_axes = 2, eib_loop = True, eib_loop_running = True, waiting_for_ref = False, enc_queue = [], enc_rdb = mem_empty, fifo_clears = 0\<rparr>"

definition sample_axis :: "rat EncoderAxisData" where
  "sample_axis = \<lparr>axis_no = 0, position = 0, calpos = 0, axis_status = 0, triggerCounter = 0, axis_timestamp = 0, axis_ref = (0, 0)\<rparr>"

definition sample_data :: "rat EncoderData" where
  "sample_data = \<lparr>numAxis = 0, axis_data = replicate 4 sample_axis\<rparr>"

theorem encoder_values_witness:
  "\<exists>s' field' d. enc_packet sample_env sample_axis sample_data [1, 3600, 1, 1] sample_packet None sample_encoder = Ok (s', field')
     \<and> InspectLastEncoderValues sample_data sample_data s' = Ok d \<and> calpos (axis_data d ! 1) = 2"
proof -
  have e: "enabled (inited_axes sample_encoder) 1" using sample_enabled [of 1] by (simp add: sample_encoder_def)
  have p: "\<forall>i<NUM_OF_AXIS. enabled (inited_axes sample_encoder) i \<longrightarrow> [1, 3600, 1, 1] ! i \<noteq> (0 :: rat)"
    using sample_enabled by (simp add: sample_encoder_def)
  have f: "eib_fields (env_eib sample_env) (inited_axes sample_encoder)" using sample_fields by (simp add: sample_env_def)
  have k: "cache_ok mem_vars (enc_rdb sample_encoder)" by (simp add: cache_ok_def sample_encoder_def mem_empty_def)
  have o1: "crystal_offset sample_env mem_vars (enc_rdb sample_encoder) 1 = 0"
    by (simp add: crystal_offset_def db_value_def present_def sample_encoder_def mem_empty_def)
  have x: "e_double (env_eib sample_env) (axis_pos_raw (env_eib sample_env) sample_packet 1) = Some 20"
    using sample_packet_fields(2) by (simp add: sample_env_def sample_eib_def)
  have v: "sqlite_vars (env_sq sample_env) mem_vars" using mem_sqlite_vars by (simp add: sample_env_def)
  have l: "length sample_packet = 200" "length (axis_data sample_data) = NUM_OF_AXIS" "length (enc_queue sample_encoder) < 2 ^ 31 - 1"
    by (simp_all add: sample_packet_def sample_data_def sample_encoder_def)
  obtain s' field' d where r: "enc_packet sample_env sample_axis sample_data [1, 3600, 1, 1] sample_packet None sample_encoder = Ok (s', field')"
    "InspectLastEncoderValues sample_data sample_data s' = Ok d"
    "\<forall>x. e_double (env_eib sample_env) (axis_pos_raw (env_eib sample_env) sample_packet 1) = Some x \<longrightarrow>
       calpos (axis_data d ! 1) = x * (360 / [1, 3600, 1, 1] ! 1) + crystal_offset sample_env mem_vars (enc_rdb sample_encoder) 1"
    using encoder_values [OF f l(1,2) p _ e v k l(3), of sample_axis None sample_data sample_data] e by auto
  then show ?thesis using x o1 by simp
qed

end
