(* ===== verification/PidMotion.thy ===== *)
theory PidMotion
  imports Motion Encoder
begin

text \<open>
  Motion commands of \<^verbatim>\<open>DCS_EngineControl/src/external_cmds.cpp\<close>: generic commands, relative moves, and the absolute
  move that a PID controller steers by the external encoder.
\<close>

section \<open>State\<close>

record 'f PIDParams =
  pp_pid :: "'f PID"
  pp_ax :: i8

definition PIDParams_new :: "'f::linordered_field \<Rightarrow> 'f \<Rightarrow> 'f \<Rightarrow> 'f \<Rightarrow> 'f \<Rightarrow> i8 \<Rightarrow> 'f PIDParams" where
  "PIDParams_new kp ki kd mn mx ax = \<lparr>pp_pid = PID_new mn mx kp kd ki, pp_ax = ax\<rparr>"

datatype PIDStatus = OFF | READY | WORKING

text \<open>\<open>status_events\<close> is what \<^verbatim>\<open>MoveAbsolutePIDChanged\<close> has emitted.\<close>

record 'f motion =
  pid_targets :: "string \<rightharpoonup> 'f PIDParams"
  pid_targets_working :: "string \<rightharpoonup> bool"
  status_events :: "(UnitTarget \<times> string \<times> PIDStatus) list"

fun target_code :: "UnitTarget \<Rightarrow> int" where
  "target_code ESP301 = 0"
| "target_code PMC8742 = 1"
| "target_code XPSRLD4 = 2"

definition target_id :: "UnitTarget \<Rightarrow> string \<Rightarrow> string" where
  "target_id tgt grp = to_string (target_code tgt) @ cstr grp"

lemma target_id_inject: "target_id t g = target_id t' g' \<longleftrightarrow> t = t' \<and> cstr g = cstr g'"
  by (cases t; cases t') (auto simp: target_id_def to_string_def dec_nat.simps digit_char_def)

section \<open>Numbers as text\<close>

text \<open>
  \<^verbatim>\<open>std::to_string\<close> of a number with a fraction: six decimal places, ties to even. The text of a value that is not a
  number is left open.
\<close>

definition round_even :: "'f::floor_ceiling \<Rightarrow> int" where
  "round_even x = (let n = \<lfloor>x\<rfloor>; d = x - of_int n in if d < 1 / 2 \<or> d = 1 / 2 \<and> even n then n else n + 1)"

definition six_digits :: "nat \<Rightarrow> string" where
  "six_digits n = map (\<lambda>k. digit_char (n div 10 ^ k mod 10)) [5, 4, 3, 2, 1, 0]"

definition fixed6 :: "'f::floor_ceiling \<Rightarrow> string" where
  "fixed6 x =
     (let n = nat (round_even (\<bar>x\<bar> * 1000000))
      in (if x < 0 then ''-'' else []) @ dec_nat (n div 1000000) @ ''.'' @ six_digits (n mod 1000000))"

fun to_string_f64 :: "('f fl \<Rightarrow> string) \<Rightarrow> 'f::floor_ceiling fl \<Rightarrow> string" where
  "to_string_f64 special (Fin x) = fixed6 x"
| "to_string_f64 special y = special y"

lemma round_even_near: "\<bar>of_int (round_even x) - x\<bar> \<le> 1 / 2"
proof (cases "x - of_int \<lfloor>x\<rfloor> < 1 / 2 \<or> x - of_int \<lfloor>x\<rfloor> = 1 / 2 \<and> even \<lfloor>x\<rfloor>")
  case True
  then have r: "round_even x = \<lfloor>x\<rfloor>" and "x - of_int \<lfloor>x\<rfloor> \<le> 1 / 2" by (auto simp: round_even_def Let_def)
  then show ?thesis using of_int_floor_le [of x] unfolding r by (intro abs_leI) linarith+
next
  case False
  then have r: "round_even x = \<lfloor>x\<rfloor> + 1" by (simp only: round_even_def Let_def if_False)
  have "1 / 2 \<le> x - of_int \<lfloor>x\<rfloor>" using False by linarith
  then show ?thesis unfolding r abs_le_iff of_int_add of_int_1 by linarith
qed

lemma dec_nat_length_3: "n < 1000 \<Longrightarrow> length (dec_nat n) \<le> 3"
  using length_dec_nat_le [of n 2] by simp

lemma fixed6_length:
  assumes "\<bar>x\<bar> \<le> 200"
  shows "length (fixed6 x) \<le> 11"
proof -
  have "of_int (round_even (\<bar>x\<bar> * 1000000)) \<le> \<bar>x\<bar> * 1000000 + 1 / 2"
    using round_even_near [of "\<bar>x\<bar> * 1000000"] by linarith
  also have "\<dots> \<le> of_int 200000001" using assms by simp
  finally have "round_even (\<bar>x\<bar> * 1000000) \<le> 200000001" by (simp only: of_int_le_iff)
  then have "nat (round_even (\<bar>x\<bar> * 1000000)) div 1000000 < 1000" by linarith
  then have "length (dec_nat (nat (round_even (\<bar>x\<bar> * 1000000)) div 1000000)) \<le> 3" by (rule dec_nat_length_3)
  moreover have "length (fixed6 x) = (if x < 0 then 1 else 0) + length (dec_nat (nat (round_even (\<bar>x\<bar> * 1000000)) div 1000000)) + 7"
    unfolding fixed6_def Let_def six_digits_def by simp
  ultimately show ?thesis by (simp split: if_splits del: abs_of_neg abs_of_nonneg)
qed

section \<open>Generic commands\<close>

text \<open>The response is copied with its terminator into the buffer of 512 characters that is returned.\<close>

definition response_string :: "string \<Rightarrow> string \<Rightarrow> string outcome" where
  "response_string ret0 str = memcpy_to ret0 0 (str @ [NUL])"

lemma cstr_append_nul: "cstr (s @ NUL # t) = cstr s"
  unfolding cstr_def by (induction s) auto

lemma response_fits:
  "length ret0 = 512 \<Longrightarrow> length str < 512 \<Longrightarrow> \<exists>r. response_string ret0 str = Ok r \<and> cstr r = cstr str \<and> length r = 512"
  by (auto simp: response_string_def memcpy_to_def blit_def cstr_append_nul)

definition IssueGenericCommand :: "UnitTarget \<Rightarrow> string \<Rightarrow> CmdBuffer \<Rightarrow> u64 \<Rightarrow> CmdBuffer \<times> u64" where
  "IssueGenericCommand tgt full_command b nid =
     (let (c, nid) = Custom tgt (cstr full_command) False nid in (snd (schedule_no_response (schedule_push c b)), nid))"

text \<open>
  \<^verbatim>\<open>IssueGenericCommandResponse\<close> queues the command and sleeps; \<open>resp\<close> is the response it is woken with.
\<close>

definition IssueGenericCommandResponse :: "string \<Rightarrow> UnitTarget \<Rightarrow> string \<Rightarrow> string \<Rightarrow> CmdBuffer \<Rightarrow> u64 \<Rightarrow> (string \<times> CmdBuffer \<times> u64) outcome" where
  "IssueGenericCommandResponse ret0 tgt full_command resp b nid =
     (let (c, nid) = Custom tgt (cstr full_command) True nid; b = schedule_push c b
      in obind (response_string ret0 resp) (\<lambda>r. Ok (r, b, nid)))"

definition move_text :: "('f fl \<Rightarrow> string) \<Rightarrow> string \<Rightarrow> 'f::floor_ceiling fl \<Rightarrow> string" where
  "move_text special grp r = ''GroupMoveRelative('' @ cstr grp @ ''.Pos,'' @ to_string_f64 special r @ '')''"

definition move_command :: "('f fl \<Rightarrow> string) \<Rightarrow> string \<Rightarrow> string \<Rightarrow> 'f::floor_ceiling fl \<Rightarrow> string outcome" where
  "move_command special buf0 grp r = memcpy_to buf0 0 (move_text special grp r @ [NUL])"

definition MoveRelative :: "('f fl \<Rightarrow> string) \<Rightarrow> string \<Rightarrow> string \<Rightarrow> UnitTarget \<Rightarrow> string \<Rightarrow> 'f::floor_ceiling \<Rightarrow> string \<Rightarrow> CmdBuffer \<Rightarrow> u64 \<Rightarrow> (CmdBuffer \<times> u64) outcome" where
  "MoveRelative special buf0 ret0 tgt grp x resp b nid =
     obind (move_command special buf0 grp (Fin x)) (\<lambda>cmd.
     obind (IssueGenericCommandResponse ret0 tgt cmd resp b nid) (\<lambda>(_, b, nid). Ok (b, nid)))"

text \<open>The command of a move between the limits fits for a group name of up to 476 characters.\<close>

lemma move_text_length:
  assumes "\<bar>x\<bar> \<le> 200"
  shows "length (move_text special grp (Fin x)) \<le> 35 + length (cstr grp)"
  using fixed6_length [OF assms] by (simp add: move_text_def)

lemma move_command_fits:
  assumes "fl_within (-200) 200 r" "length (cstr grp) \<le> 476" "length buf0 = 512"
  shows "is_Ok (move_command special buf0 grp r)"
proof -
  obtain x where x: "r = Fin x" "\<bar>x\<bar> \<le> 200" using assms(1) by (cases r) auto
  then have "length (move_text special grp r) \<le> 511"
    using move_text_length [OF x(2), of special grp] assms(2) unfolding x(1) by linarith
  then show ?thesis using assms(3) by (simp add: move_command_def memcpy_to_def)
qed

text \<open>A longer name, which the type of the argument allows, overruns the buffer.\<close>

lemma long_group_overruns:
  assumes "488 \<le> length (cstr grp)" "length buf0 = 512"
  shows "move_command special buf0 grp r = Fault OutOfBounds"
  using assms by (simp add: move_command_def memcpy_to_def move_text_def)

section \<open>Starting a steered motion\<close>

definition SetPIDControlVariables :: "UnitTarget \<Rightarrow> string \<Rightarrow> i8 \<Rightarrow> 'f::linordered_field \<Rightarrow> 'f \<Rightarrow> 'f \<Rightarrow> 'f motion \<Rightarrow> 'f motion" where
  "SetPIDControlVariables tgt grp encoder_axis kp ki kd m =
     m\<lparr>pid_targets := (pid_targets m)(target_id tgt grp \<mapsto> PIDParams_new kp ki kd (-200) 200 encoder_axis),
       pid_targets_working := (pid_targets_working m)(target_id tgt grp \<mapsto> False)\<rparr>"

datatype 'f move_start = NotRegistered | NoEncoderAxis | InProgress | Started "'f PIDParams"

definition MoveAbsolutePIDChanged :: "UnitTarget \<times> string \<times> PIDStatus \<Rightarrow> 'f motion \<Rightarrow> 'f motion" where
  "MoveAbsolutePIDChanged st m = m\<lparr>status_events := status_events m @ [st]\<rparr>"

text \<open>\<^verbatim>\<open>MoveAbsolutePID\<close> up to the start of its thread, and what the thread does at its end.\<close>

definition MoveAbsolutePID :: "UnitTarget \<Rightarrow> string \<Rightarrow> 'f motion \<Rightarrow> 'f move_start \<times> 'f motion" where
  "MoveAbsolutePID tgt grp m =
     (let tid = target_id tgt grp in
      case pid_targets m tid of
        None \<Rightarrow> (NotRegistered, m)
      | Some p \<Rightarrow>
          if pp_ax p = -1 then (NoEncoderAxis, m)
          else if pid_targets_working m tid = Some True then (InProgress, m)
          else (Started p, MoveAbsolutePIDChanged (tgt, cstr grp, WORKING)
                 (m\<lparr>pid_targets_working := (pid_targets_working m)(tid \<mapsto> True)\<rparr>)))"

definition move_finished :: "UnitTarget \<Rightarrow> string \<Rightarrow> 'f PID \<Rightarrow> 'f motion \<Rightarrow> 'f motion" where
  "move_finished tgt grp pid m =
     (let tid = target_id tgt grp
      in MoveAbsolutePIDChanged (tgt, cstr grp, READY)
           (m\<lparr>pid_targets := (pid_targets m)(tid := map_option (\<lambda>p. p\<lparr>pp_pid := pid\<rparr>) (pid_targets m tid)),
              pid_targets_working := (pid_targets_working m)(tid \<mapsto> False)\<rparr>))"

section \<open>The steered motion\<close>

text \<open>
  \<open>ax\<close> counts the axes from 1. A round of the inner loop sets the target, computes a move at the time \<open>now\<close> (in
  nanoseconds), issues it and waits for the next position; a sample of the thread is the time of the round, the response
  to its move and the encoder values that it finds afterwards. The end of the samples is a motion still under way.
\<close>

type_synonym 'f sample = "int \<times> string \<times> 'f EncoderData"

definition axis_pos :: "i8 \<Rightarrow> 'f EncoderData \<Rightarrow> 'f outcome" where
  "axis_pos ax d =
     (if sint ax - 1 < 0 then Fault OutOfBounds else obind (read_at (axis_data d) (nat (sint ax - 1))) (\<lambda>a. Ok (calpos a)))"

definition tolerance :: "'f::linordered_field" where
  "tolerance = 5 / 100000"

text \<open>The uninitialised buffers of the command and of its response, and the text of values that are not numbers.\<close>

record 'f move_env =
  mv_special :: "'f fl \<Rightarrow> string"
  mv_buf :: string
  mv_ret :: string
  mv_group :: string

definition pid_round :: "'f::floor_ceiling move_env \<Rightarrow> 'f \<Rightarrow> int \<Rightarrow> string \<Rightarrow> 'f \<Rightarrow> 'f PID \<Rightarrow> ('f fl \<times> 'f PID) outcome" where
  "pid_round env target_position now resp pos pid =
     (let (r, pid) = calculate now pos (setTargetAndBias target_position 0 pid)
      in obind (move_command (mv_special env) (mv_buf env) (mv_group env) r) (\<lambda>_.
         obind (response_string (mv_ret env) resp) (\<lambda>_. Ok (r, pid))))"

record 'f steer =
  st_pos :: 'f
  st_pid :: "'f PID"
  st_moves :: "'f fl list"

fun pid_while :: "'f::floor_ceiling move_env \<Rightarrow> i8 \<Rightarrow> 'f \<Rightarrow> 'f sample list \<Rightarrow> 'f steer \<Rightarrow> ('f steer \<times> 'f sample list) outcome" where
  "pid_while env ax tp [] s = (if tolerance < \<bar>tp - st_pos s\<bar> then Blocked else Ok (s, []))"
| "pid_while env ax tp ((now, resp, d) # ins) s =
     (if tolerance < \<bar>tp - st_pos s\<bar> then
        obind (pid_round env tp now resp (st_pos s) (st_pid s)) (\<lambda>(r, pid).
        obind (axis_pos ax d) (\<lambda>pos.
          pid_while env ax tp ins (s\<lparr>st_pid := pid, st_moves := st_moves s @ [r], st_pos := pos\<rparr>)))
      else Ok (s, (now, resp, d) # ins))"

text \<open>After each of the two passes the thread sleeps and reads the position again.\<close>

fun next_position :: "i8 \<Rightarrow> 'f sample list \<Rightarrow> 'f steer \<Rightarrow> ('f steer \<times> 'f sample list) outcome" where
  "next_position ax [] s = Blocked"
| "next_position ax ((now, resp, d) # ins) s = obind (axis_pos ax d) (\<lambda>pos. Ok (s\<lparr>st_pos := pos\<rparr>, ins))"

definition pid_pass :: "'f::floor_ceiling move_env \<Rightarrow> i8 \<Rightarrow> 'f \<Rightarrow> 'f sample list \<Rightarrow> 'f steer \<Rightarrow> ('f \<times> 'f steer \<times> 'f sample list) outcome" where
  "pid_pass env ax tp ins s =
     obind (pid_while env ax tp ins s) (\<lambda>(s1, ins).
     obind (next_position ax ins s1) (\<lambda>(s2, ins). Ok (st_pos s1, s2, ins)))"

text \<open>The result names the positions at the end of the two passes.\<close>

definition pid_thread :: "'f::floor_ceiling move_env \<Rightarrow> i8 \<Rightarrow> 'f \<Rightarrow> 'f EncoderData \<Rightarrow> 'f sample list \<Rightarrow> 'f PID \<Rightarrow> ('f \<times> 'f \<times> 'f steer) outcome" where
  "pid_thread env ax tp d ins pid =
     obind (axis_pos ax d) (\<lambda>pos.
     obind (pid_pass env ax tp ins \<lparr>st_pos = pos, st_pid = pid, st_moves = []\<rparr>) (\<lambda>(e1, s, ins).
     obind (pid_pass env ax tp ins s) (\<lambda>(e2, s, ins). Ok (e1, e2, s))))"

section \<open>What a steered motion does\<close>

text \<open>
  The rounds are at least a millisecond apart: the thread sleeps for the trigger period of the encoder and 50 milliseconds
  more in each of them.
\<close>

definition wait_interval :: u32 where
  "wait_interval = GetTriggerPeriod + 50000"

lemma wait_interval_ms: "1000 \<le> unat wait_interval"
  by (simp add: wait_interval_def GetTriggerPeriod_def)

definition pid_range :: "'f::linordered_field PID \<Rightarrow> bool" where
  "pid_range pid \<longleftrightarrow> pid_min pid = -200 \<and> pid_max pid = 200"

fun spaced :: "int \<Rightarrow> 'f sample list \<Rightarrow> bool" where
  "spaced t [] \<longleftrightarrow> True"
| "spaced t ((now, resp, d) # ins) \<longleftrightarrow> t + 1000000 \<le> now \<and> spaced now ins"

definition sample_good :: "i8 \<Rightarrow> 'f sample \<Rightarrow> bool" where
  "sample_good ax = (\<lambda>(now, resp, d). length resp < 512 \<and> is_Ok (axis_pos ax d))"

definition move_env_ok :: "'f move_env \<Rightarrow> bool" where
  "move_env_ok env \<longleftrightarrow> length (mv_buf env) = 512 \<and> length (mv_ret env) = 512 \<and> length (cstr (mv_group env)) \<le> 476"

definition steer_ok :: "'f::linordered_field steer \<Rightarrow> 'f sample list \<Rightarrow> bool" where
  "steer_ok s ins \<longleftrightarrow> pid_range (st_pid s) \<and> spaced (last_point (st_pid s)) ins \<and> (\<forall>r \<in> set (st_moves s). fl_within (-200) 200 r)"

definition on_target :: "i8 \<Rightarrow> 'f::linordered_field \<Rightarrow> 'f sample \<Rightarrow> bool" where
  "on_target ax tp = (\<lambda>(now, resp, d). \<exists>p. axis_pos ax d = Ok p \<and> \<bar>tp - p\<bar> \<le> tolerance)"

lemma spaced_weaken: "spaced t ins \<Longrightarrow> t' \<le> t \<Longrightarrow> spaced t' ins"
  by (cases ins) auto

lemma calculate_within:
  assumes "pid_range s" "last_point s + 1000000 \<le> now" "calculate now v s = (r, s')"
  shows "fl_within (-200) 200 r \<and> pid_range s' \<and> last_point s' = now"
proof -
  have "1 \<le> (now - last_point s) div 1000000" using assms(2) by (simp add: pos_imp_zdiv_pos_iff zdiv_mono1 flip: zdiv_mono1 [of 1000000])
  then have "of_int ((now - last_point s) div 1000000) / 1000 \<noteq> (0 :: 'a)" by simp
  then show ?thesis using assms(1,3)
    by (auto simp: calculate_def calculate_dt_def fl_div_def pid_range_def Let_def)
qed

lemma pid_round_ok:
  assumes "pid_range pid" "last_point pid + 1000000 \<le> now" "move_env_ok env" "length resp < 512"
  shows "\<exists>r pid'. pid_round env tp now resp pos pid = Ok (r, pid') \<and> fl_within (-200) 200 r \<and> pid_range pid' \<and> last_point pid' = now"
proof -
  obtain r pid' where c: "calculate now pos (setTargetAndBias tp 0 pid) = (r, pid')" by fastforce
  have "pid_range (setTargetAndBias tp 0 pid)" "last_point (setTargetAndBias tp 0 pid) = last_point pid"
    using assms(1) by (auto simp: setTargetAndBias_def pid_range_def)
  then have w: "fl_within (-200) 200 r" "pid_range pid'" "last_point pid' = now" using calculate_within [OF _ _ c] assms(2) by auto
  have "is_Ok (move_command (mv_special env) (mv_buf env) (mv_group env) r)"
    using move_command_fits w(1) assms(3) by (auto simp: move_env_ok_def)
  then show ?thesis
    using c w response_fits [of "mv_ret env" resp] assms(3,4) by (auto simp: pid_round_def move_env_ok_def is_Ok_iff)
qed

text \<open>One round of the inner loop.\<close>

lemma pid_while_step:
  assumes "move_env_ok env" "steer_ok s (x # ins)" "sample_good ax x" "tolerance < \<bar>tp - st_pos s\<bar>"
  shows "\<exists>s1. pid_while env ax tp (x # ins) s = pid_while env ax tp ins s1 \<and> steer_ok s1 ins
    \<and> (on_target ax tp x \<longrightarrow> \<bar>tp - st_pos s1\<bar> \<le> tolerance)"
proof -
  obtain now resp d where x: "x = (now, resp, d)" by (cases x)
  obtain pos where p: "axis_pos ax d = Ok pos" using assms(3) by (auto simp: x sample_good_def is_Ok_iff)
  obtain r pid where r: "pid_round env tp now resp (st_pos s) (st_pid s) = Ok (r, pid)" "fl_within (-200) 200 r" "pid_range pid" "last_point pid = now"
    using pid_round_ok [of "st_pid s" now env resp tp "st_pos s"] assms(1-3) by (auto simp: x steer_ok_def sample_good_def)
  show ?thesis
    using assms(2,4) p r by (intro exI [of _ "s\<lparr>st_pid := pid, st_moves := st_moves s @ [r], st_pos := pos\<rparr>"])
      (auto simp: x steer_ok_def on_target_def)
qed

lemma pid_while_there: "\<bar>tp - st_pos s\<bar> \<le> tolerance \<Longrightarrow> pid_while env ax tp ins s = Ok (s, ins)"
  by (cases ins) auto

lemma pid_while_safe:
  assumes "move_env_ok env" "\<forall>x \<in> set ins. sample_good ax x" "steer_ok s ins"
  shows "pid_while env ax tp ins s = Blocked
    \<or> (\<exists>s' used ins'. pid_while env ax tp ins s = Ok (s', ins') \<and> ins = used @ ins' \<and> \<bar>tp - st_pos s'\<bar> \<le> tolerance \<and> steer_ok s' ins')"
  using assms(2,3)
proof (induction ins arbitrary: s)
  case Nil
  then show ?case by auto
next
  case (Cons x ins)
  show ?case
  proof (cases "tolerance < \<bar>tp - st_pos s\<bar>")
    case True
    then obtain s1 where s1: "pid_while env ax tp (x # ins) s = pid_while env ax tp ins s1" "steer_ok s1 ins"
      using pid_while_step [OF assms(1) Cons.prems(2), of ax tp] Cons.prems(1) by auto
    then show ?thesis using Cons.IH [of s1] Cons.prems(1) by (auto intro: append_Cons [symmetric])
  next
    case False
    then have "pid_while env ax tp (x # ins) s = Ok (s, x # ins)" by (intro pid_while_there) simp
    then show ?thesis using False Cons.prems(2) by simp
  qed
qed

lemma pid_while_reaches:
  assumes "move_env_ok env" "\<forall>x \<in> set (xs @ [g]). sample_good ax x" "steer_ok s (xs @ g # ys)" "on_target ax tp g"
  shows "\<exists>s' zs. pid_while env ax tp (xs @ g # ys) s = Ok (s', zs @ ys)"
  using assms(2,3)
proof (induction xs arbitrary: s)
  case Nil
  show ?case
  proof (cases "tolerance < \<bar>tp - st_pos s\<bar>")
    case True
    then show ?thesis
      using pid_while_step [OF assms(1), of s g ys ax tp] Nil assms(4) pid_while_there by fastforce
  next
    case False
    then show ?thesis using pid_while_there [of tp s env ax "g # ys"] by (intro exI [of _ s] exI [of _ "[g]"]) auto
  qed
next
  case (Cons x xs)
  show ?case
  proof (cases "tolerance < \<bar>tp - st_pos s\<bar>")
    case True
    then show ?thesis using pid_while_step [OF assms(1), of s x "xs @ g # ys" ax tp] Cons by fastforce
  next
    case False
    then show ?thesis using pid_while_there [of tp s env ax "(x # xs) @ g # ys"] by (intro exI [of _ s] exI [of _ "x # xs @ [g]"]) auto
  qed
qed

lemma next_position_ok:
  assumes "steer_ok s (x # ins)" "sample_good ax x"
  shows "\<exists>s'. next_position ax (x # ins) s = Ok (s', ins) \<and> steer_ok s' ins \<and> (on_target ax tp x \<longrightarrow> \<bar>tp - st_pos s'\<bar> \<le> tolerance)"
proof -
  obtain now resp d where x: "x = (now, resp, d)" by (cases x)
  obtain pos where "axis_pos ax d = Ok pos" using assms(2) by (auto simp: x sample_good_def is_Ok_iff)
  then show ?thesis using assms(1) by (auto simp: x steer_ok_def on_target_def intro: spaced_weaken)
qed

text \<open>The two ways a pass can go, and that it ends when the position gets to the target and is read once more.\<close>

lemma pid_pass_safe:
  assumes "move_env_ok env" "\<forall>x \<in> set ins. sample_good ax x" "steer_ok s ins"
  shows "pid_pass env ax tp ins s = Blocked
    \<or> (\<exists>e s' used ins'. pid_pass env ax tp ins s = Ok (e, s', ins') \<and> ins = used @ ins' \<and> \<bar>tp - e\<bar> \<le> tolerance \<and> steer_ok s' ins')"
  using pid_while_safe [OF assms, of tp]
proof (elim disjE exE conjE)
  assume "pid_while env ax tp ins s = Blocked"
  then show ?thesis by (simp add: pid_pass_def)
next
  fix s' used ins'
  assume w: "pid_while env ax tp ins s = Ok (s', ins')" "ins = used @ ins'" "\<bar>tp - st_pos s'\<bar> \<le> tolerance" "steer_ok s' ins'"
  show ?thesis
  proof (cases ins')
    case Nil
    then show ?thesis using w by (simp add: pid_pass_def)
  next
    case (Cons x ins2)
    have "sample_good ax x" using assms(2) w(2) Cons by simp
    then obtain s2 where "next_position ax ins' s' = Ok (s2, ins2)" "steer_ok s2 ins2"
      using next_position_ok [of s' x ins2 ax tp] w(4) Cons by auto
    moreover have "ins = (used @ [x]) @ ins2" using w(2) Cons by simp
    ultimately show ?thesis using w unfolding pid_pass_def by (intro disjI2) (simp; blast)
  qed
qed

lemma pid_pass_ends:
  assumes "move_env_ok env" "\<forall>x \<in> set ins. sample_good ax x" "steer_ok s ins" "ins = xs @ g # h # ys" "on_target ax tp g"
  shows "\<exists>e s' zs. pid_pass env ax tp ins s = Ok (e, s', zs @ ys)
    \<and> (zs = [] \<and> (on_target ax tp h \<longrightarrow> \<bar>tp - st_pos s'\<bar> \<le> tolerance) \<or> (\<exists>zs'. zs = zs' @ [h]))"
proof -
  obtain s1 zs where w: "pid_while env ax tp ins s = Ok (s1, zs @ h # ys)"
    using pid_while_reaches [OF assms(1), of xs g ax s "h # ys" tp] assms(2-5) by auto
  then obtain used where u: "steer_ok s1 (zs @ h # ys)" "ins = used @ zs @ h # ys"
    using pid_while_safe [OF assms(1-3), of tp] by auto
  show ?thesis
  proof (cases zs)
    case Nil
    have "sample_good ax h" using assms(2) u(2) by simp
    then obtain s2 where "next_position ax (h # ys) s1 = Ok (s2, ys)" "on_target ax tp h \<longrightarrow> \<bar>tp - st_pos s2\<bar> \<le> tolerance"
      using next_position_ok [of s1 h ys ax tp] u(1) Nil by auto
    then show ?thesis using w Nil by (simp add: pid_pass_def)
  next
    case (Cons z zs')
    have "sample_good ax z" using assms(2) u(2) Cons by simp
    then obtain s2 where "next_position ax (zs @ h # ys) s1 = Ok (s2, zs' @ h # ys)"
      using next_position_ok [of s1 z "zs' @ h # ys" ax tp] u(1) Cons by auto
    then show ?thesis using w by (intro exI [of _ "st_pos s1"] exI [of _ s2] exI [of _ "zs' @ [h]"]) (simp add: pid_pass_def)
  qed
qed

lemma second_pass_ends:
  assumes "move_env_ok env" "\<forall>x \<in> set ins. sample_good ax x" "steer_ok s ins"
    and i: "ins = xs @ [g1, g2, g3]" "on_target ax tp g1" "on_target ax tp g2"
    and p: "pid_pass env ax tp ins s = Ok (e1, s1, ins1)" "ins = used @ ins1" "steer_ok s1 ins1"
  shows "is_Ok (pid_pass env ax tp ins1 s1)"
proof -
  have good: "\<forall>x \<in> set ins1. sample_good ax x" using assms(2) p(2) by simp
  from pid_pass_ends [OF assms(1-3), of xs g1 g2 "[g3]" tp] i p(1)
  obtain zs where zs: "ins1 = zs @ [g3]" "zs = [] \<and> \<bar>tp - st_pos s1\<bar> \<le> tolerance \<or> (\<exists>zs'. zs = zs' @ [g2])" by auto
  from zs(2) show ?thesis
  proof (elim disjE exE conjE)
    assume z: "zs = []" "\<bar>tp - st_pos s1\<bar> \<le> tolerance"
    then have "pid_while env ax tp ins1 s1 = Ok (s1, [g3])" using pid_while_there zs(1) by auto
    then show ?thesis using next_position_ok [of s1 g3 "[]" ax tp] p(3) good zs(1) z(1) by (auto simp: pid_pass_def is_Ok_iff)
  next
    fix zs' assume "zs = zs' @ [g2]"
    then show ?thesis using pid_pass_ends [OF assms(1) good p(3), of zs' g2 g3 "[]" tp] i(3) zs(1) by (auto simp: is_Ok_iff)
  qed
qed

text \<open>
  C10. A motion steered by the controller is safe and ends at its target. For a controller made by
  \<^verbatim>\<open>SetPIDControlVariables\<close> and an existing encoder axis the thread never faults: every move it issues is between -200
  and 200, and when it reports the end, the position was within 0.00005 of the target at the end of both passes. It does
  report the end when the axis gets to the target and stays there for three readings.
\<close>

theorem steered_motion:
  assumes "move_env_ok env" and "pid_range pid" and "spaced (last_point pid) ins"
    and "is_Ok (axis_pos ax d)" and "\<forall>x \<in> set ins. sample_good ax x"
  shows "(pid_thread env ax tp d ins pid = Blocked
      \<or> (\<exists>e1 e2 s. pid_thread env ax tp d ins pid = Ok (e1, e2, s) \<and> \<bar>tp - e1\<bar> \<le> tolerance \<and> \<bar>tp - e2\<bar> \<le> tolerance
          \<and> (\<forall>r \<in> set (st_moves s). fl_within (-200) 200 r)))
    \<and> (\<forall>xs g1 g2 g3. ins = xs @ [g1, g2, g3] \<and> on_target ax tp g1 \<and> on_target ax tp g2 \<longrightarrow> is_Ok (pid_thread env ax tp d ins pid))"
proof -
  obtain pos where p: "axis_pos ax d = Ok pos" using assms(4) by (auto simp: is_Ok_iff)
  let ?s = "\<lparr>st_pos = pos, st_pid = pid, st_moves = []\<rparr>"
  have s: "steer_ok ?s ins" using assms(2,3) by (simp add: steer_ok_def)
  have t: "pid_thread env ax tp d ins pid = obind (pid_pass env ax tp ins ?s) (\<lambda>(e1, s, ins).
      obind (pid_pass env ax tp ins s) (\<lambda>(e2, s, ins). Ok (e1, e2, s)))" by (simp add: pid_thread_def p)
  consider "pid_pass env ax tp ins ?s = Blocked" | e1 s1 used ins1 where "pid_pass env ax tp ins ?s = Ok (e1, s1, ins1)" "ins = used @ ins1"
      "\<bar>tp - e1\<bar> \<le> tolerance" "steer_ok s1 ins1" using pid_pass_safe [OF assms(1,5) s, of tp] by blast
  then show ?thesis
  proof cases
    case 1
    have False if "ins = xs @ [g1, g2, g3]" "on_target ax tp g1" for xs g1 g2 g3
      using pid_pass_ends [OF assms(1,5) s, of xs g1 g2 "[g3]" tp] that 1 by simp
    then show ?thesis using 1 t by auto
  next
    case 2
    have good: "\<forall>x \<in> set ins1. sample_good ax x" using assms(5) 2(2) by simp
    have live: "is_Ok (pid_pass env ax tp ins1 s1)" if "ins = xs @ [g1, g2, g3]" "on_target ax tp g1" "on_target ax tp g2" for xs g1 g2 g3
      using second_pass_ends [OF assms(1,5) s that 2(1,2,4)] .
    have "pid_pass env ax tp ins1 s1 = Blocked \<or> (\<exists>e2 s2 ins2. pid_pass env ax tp ins1 s1 = Ok (e2, s2, ins2) \<and> \<bar>tp - e2\<bar> \<le> tolerance \<and> steer_ok s2 ins2)"
      using pid_pass_safe [OF assms(1) good 2(4), of tp] by blast
    then show ?thesis using t 2(1,3) live by (auto simp: steer_ok_def)
  qed
qed

definition sample_move_env :: "rat move_env" where
  "sample_move_env = \<lparr>mv_special = (\<lambda>_. ''nan''), mv_buf = replicate 512 NUL, mv_ret = replicate 512 NUL, mv_group = ''G1'' @ [NUL]\<rparr>"

definition at_angle :: "rat \<Rightarrow> rat EncoderData" where
  "at_angle x = \<lparr>numAxis = 1, axis_data = replicate 4 (sample_axis\<lparr>calpos := x\<rparr>)\<rparr>"

definition sample_approach :: "rat sample list" where
  "sample_approach = [(2000000000, ''0'', at_angle 1), (3000000000, ''0'', at_angle 2), (4000000000, ''0'', at_angle 2), (5000000000, ''0'', at_angle 2)]"

lemma at_angle_pos [simp]: "axis_pos 2 (at_angle x) = Ok x"
  by (simp add: axis_pos_def at_angle_def read_at_def)

theorem steered_motion_witness:
  "\<exists>e1 e2 s. pid_thread sample_move_env 2 2 (at_angle 0) sample_approach (PID_new (-200) 200 (1 / 2) 0 0) = Ok (e1, e2, s)
     \<and> \<bar>2 - e2\<bar> \<le> tolerance \<and> (\<forall>r \<in> set (st_moves s). fl_within (-200) 200 r)"
proof -
  have env: "move_env_ok sample_move_env" by (simp add: move_env_ok_def sample_move_env_def cstr_def)
  have pid: "pid_range (PID_new (-200) 200 (1 / 2) 0 0 :: rat PID)" "spaced (last_point (PID_new (-200) 200 (1 / 2) 0 0 :: rat PID)) sample_approach"
    by (simp_all add: pid_range_def PID_new_def setTargetAndBias_def sample_approach_def)
  have good: "\<forall>x \<in> set sample_approach. sample_good 2 x" "is_Ok (axis_pos 2 (at_angle 0))"
    by (simp_all add: sample_approach_def sample_good_def)
  have on: "on_target 2 2 (t, r, at_angle 2)" for t r by (simp add: on_target_def tolerance_def)
  have shape: "sample_approach = [(2000000000, ''0'', at_angle 1)] @ [(3000000000, ''0'', at_angle 2), (4000000000, ''0'', at_angle 2), (5000000000, ''0'', at_angle 2)]"
    by (simp add: sample_approach_def)
  note m = steered_motion [OF env pid good(2,1), of 2]
  have "is_Ok (pid_thread sample_move_env 2 2 (at_angle 0) sample_approach (PID_new (-200) 200 (1 / 2) 0 0))"
    using m shape on by blast
  then show ?thesis using m by auto
qed

section \<open>One motion at a time\<close>

text \<open>
  While a motion is in progress, a second one for the same controller and group is refused, and after its end it is
  accepted again. Setting the gains meanwhile clears the mark of the running motion, and a second thread is started.
\<close>

theorem one_motion_at_a_time:
  assumes "MoveAbsolutePID tgt grp m = (Started p, m1)" and "cstr grp' = cstr grp"
  shows "fst (MoveAbsolutePID tgt grp' m1) = InProgress
    \<and> (\<forall>pid. \<exists>p2. fst (MoveAbsolutePID tgt grp' (move_finished tgt grp pid m1)) = Started p2)
    \<and> (\<forall>ax kp ki kd. ax \<noteq> -1 \<longrightarrow> (\<exists>p2. fst (MoveAbsolutePID tgt grp' (SetPIDControlVariables tgt grp ax kp ki kd m1)) = Started p2))"
proof -
  have i: "target_id tgt grp' = target_id tgt grp" using assms(2) by (simp add: target_id_inject)
  show ?thesis
    using assms by (auto simp: MoveAbsolutePID_def i move_finished_def SetPIDControlVariables_def MoveAbsolutePIDChanged_def PIDParams_new_def Let_def
        split: option.splits if_splits)
qed

theorem one_motion_at_a_time_witness:
  "fst (MoveAbsolutePID XPSRLD4 ''G1'' (snd (MoveAbsolutePID XPSRLD4 ''G1''
     (SetPIDControlVariables XPSRLD4 ''G1'' 2 (1 :: rat) 0 0 \<lparr>pid_targets = Map.empty, pid_targets_working = Map.empty, status_events = []\<rparr>)))) = InProgress"
proof -
  let ?m = "SetPIDControlVariables XPSRLD4 ''G1'' 2 (1 :: rat) 0 0 \<lparr>pid_targets = Map.empty, pid_targets_working = Map.empty, status_events = []\<rparr>"
  obtain p where "MoveAbsolutePID XPSRLD4 ''G1'' ?m = (Started p, snd (MoveAbsolutePID XPSRLD4 ''G1'' ?m))"
    by (simp add: MoveAbsolutePID_def SetPIDControlVariables_def PIDParams_new_def Let_def)
  from one_motion_at_a_time [OF this refl] show ?thesis by blast
qed

text \<open>
  The limits of the output are also limits of the target: a position beyond 200 degrees is steered to 0 instead, while the
  thread goes on measuring the distance to the position that was asked for.
\<close>

lemma far_target_steers_to_zero:
  assumes "pid_range pid" "200 < \<bar>tp\<bar>"
  shows "pid_round env tp now resp pos pid = pid_round env 0 now resp pos pid"
  using assms by (auto simp: pid_round_def setTargetAndBias_def pid_range_def)

text \<open>An axis number of 0, or above the number of axes, reads outside the array of positions.\<close>

lemma axis_out_of_range:
  assumes "length (axis_data d) = NUM_OF_AXIS" "sint ax \<le> 0 \<or> 4 < sint ax"
  shows "axis_pos ax d = Fault OutOfBounds"
  using assms by (auto simp: axis_pos_def read_at_def)

end
