(* ===== verification/Listen.thy ===== *)
theory Listen
  imports Server Systems
begin

text \<open>
  The listening side of \<^verbatim>\<open>DCS_Network/src/server.cpp\<close>: the thread of \<^verbatim>\<open>WaitForConnections\<close> that accepts clients, the
  threads it starts for them, and \<^verbatim>\<open>StopListening\<close>; and the life cycle of the served client over any sequence of
  starts, ends and stops.
\<close>

section \<open>The accept loop\<close>

text \<open>
  An iteration of the loop has a local variable with the accepted socket, and the thread it starts holds a reference to
  that variable. \<open>ac_client\<close> is the variable of the current iteration, \<open>None\<close> between iterations; the thread started
  by iteration \<open>t\<close> is in \<open>ac_pending\<close> until it has read the variable and calls \<^verbatim>\<open>StartThread\<close>, as \<open>ac_served\<close>
  records.
\<close>

record accept_loop =
  ac_listening :: bool
  ac_client :: "sock option"
  ac_accepted :: "sock list"
  ac_pending :: "nat list"
  ac_served :: "(nat \<times> sock) list"

definition accept_init :: accept_loop where
  "accept_init = \<lparr>ac_listening = True, ac_client = None, ac_accepted = [], ac_pending = [], ac_served = []\<rparr>"

definition accept_client :: "sock \<Rightarrow> accept_loop \<Rightarrow> accept_loop" where
  "accept_client k a = a\<lparr>ac_client := Some k, ac_pending := ac_pending a @ [length (ac_accepted a)], ac_accepted := ac_accepted a @ [k]\<rparr>"

definition thread_client :: "nat \<Rightarrow> accept_loop \<Rightarrow> sock outcome" where
  "thread_client t a =
     (case ac_client a of None \<Rightarrow> Fault Dangling | Some k \<Rightarrow> if Suc t = length (ac_accepted a) then Ok k else Fault Dangling)"

inductive accept_step :: "accept_loop \<Rightarrow> accept_loop outcome \<Rightarrow> bool" where
  accepts: "ac_listening a \<Longrightarrow> ac_client a = None \<Longrightarrow> accept_step a (Ok (accept_client k a))"
| next_iteration: "ac_client a = Some k \<Longrightarrow> accept_step a (Ok (a\<lparr>ac_client := None\<rparr>))"
| thread_runs: "t \<in> set (ac_pending a) \<Longrightarrow> accept_step a
    (obind (thread_client t a) (\<lambda>k. Ok (a\<lparr>ac_pending := remove1 t (ac_pending a), ac_served := ac_served a @ [(t, k)]\<rparr>)))"
| listening_ends: "accept_step a (Ok (a\<lparr>ac_listening := False\<rparr>))"

inductive_cases accept_stepE: "accept_step a r"

abbreviation accept_reach :: "accept_loop \<Rightarrow> bool" where
  "accept_reach \<equiv> (\<lambda>a b. accept_step a (Ok b))\<^sup>*\<^sup>* accept_init"

definition accept_inv :: "accept_loop \<Rightarrow> bool" where
  "accept_inv a \<longleftrightarrow> (\<forall>(t, k) \<in> set (ac_served a). t < length (ac_accepted a) \<and> ac_accepted a ! t = k)
     \<and> (\<forall>k. ac_client a = Some k \<longrightarrow> ac_accepted a \<noteq> [] \<and> last (ac_accepted a) = k)
     \<and> distinct (map fst (ac_served a) @ ac_pending a) \<and> (\<forall>t \<in> set (ac_pending a). t < length (ac_accepted a))"

lemma accept_inv_step: "accept_step a (Ok b) \<Longrightarrow> accept_inv a \<Longrightarrow> accept_inv b"
proof (erule accept_stepE)
  fix k assume "Ok b = Ok (accept_client k a)" "accept_inv a"
  then show ?thesis by (fastforce simp: accept_inv_def accept_client_def nth_append)
next
  fix t assume t: "Ok b = obind (thread_client t a) (\<lambda>k. Ok (a\<lparr>ac_pending := remove1 t (ac_pending a), ac_served := ac_served a @ [(t, k)]\<rparr>))"
    "t \<in> set (ac_pending a)" and i: "accept_inv a"
  then obtain k where k: "ac_client a = Some k" "Suc t = length (ac_accepted a)"
    "b = a\<lparr>ac_pending := remove1 t (ac_pending a), ac_served := ac_served a @ [(t, k)]\<rparr>"
    by (auto simp: thread_client_def split: option.splits if_splits)
  have "ac_accepted a ! t = k" using k i by (auto simp: accept_inv_def last_conv_nth simp flip: k(2))
  moreover have "distinct (map fst (ac_served a) @ ac_pending a)" "t < length (ac_accepted a)" using i t(2) by (auto simp: accept_inv_def)
  ultimately show ?thesis using i t(2) by (auto simp: k(3) accept_inv_def dest: notin_set_remove1)
qed (auto simp: accept_inv_def)

interpretation acc: invariant_system "\<lambda>a b. accept_step a (Ok b)" accept_inv
  by unfold_locales (rule accept_inv_step)

lemma accept_inv_init: "accept_inv accept_init"
  by (simp add: accept_inv_def accept_init_def)



section \<open>Ending the loop\<close>

datatype listen_thread = LNone | LRunning | LDeleted

record 'c listener =
  ls_server :: "'c server"
  ls_net :: net
  ls_thread :: listen_thread
  ls_listen_sock :: sock
  ls_shutdown :: "sock list"

text \<open>\<^verbatim>\<open>Server::Create\<close> with the socket it stores, whether or not it could be created.\<close>

definition Listener_Create :: "winsock \<Rightarrow> int \<Rightarrow> 'c listener \<Rightarrow> sock \<times> 'c listener" where
  "Listener_Create w port l =
     (if \<not> GetStatus (ls_net l) then (INVALID_SOCKET, l)
      else let (k, n) = Server_Create w port (ls_net l) in (k, l\<lparr>ls_net := n, ls_listen_sock := k\<rparr>))"

definition GetListenSocket :: "'c listener \<Rightarrow> sock" where
  "GetListenSocket l = ls_listen_sock l"

definition WaitForConnections :: "'c listener \<Rightarrow> 'c listener" where
  "WaitForConnections l = l\<lparr>ls_thread := LRunning\<rparr>"

text \<open>The join waits for the accept loop and the threads it started; the pointer is left as it is.\<close>

definition StopListening :: "sock \<Rightarrow> 'c listener \<Rightarrow> 'c listener outcome" where
  "StopListening server l =
     (let cts = server_client_sock (ls_server l);
          l = (if cts \<noteq> INVALID_SOCKET then l\<lparr>ls_shutdown := ls_shutdown l @ [cts]\<rparr> else l);
          l = l\<lparr>ls_net := closesocket server (ls_net l), ls_server := (ls_server l)\<lparr>server_listening := False\<rparr>\<rparr>
      in case ls_thread l of
           LNone \<Rightarrow> Fault NullPointer
         | LDeleted \<Rightarrow> Fault Dangling
         | LRunning \<Rightarrow> Ok (l\<lparr>ls_thread := LDeleted\<rparr>))"

text \<open>Stopping closes the listening socket, ends the accept loop and disconnects the client; a second stop is not possible.\<close>

lemma stop_listening:
  assumes "StopListening server (WaitForConnections l) = Ok l'"
  shows "server \<notin> set (open_socks (ls_net l')) \<and> \<not> server_listening (ls_server l') \<and> StopListening server l' = Fault Dangling
    \<and> (server_client_sock (ls_server l) \<noteq> INVALID_SOCKET \<longrightarrow> server_client_sock (ls_server l) \<in> set (ls_shutdown l'))"
  using assms by (auto simp: StopListening_def WaitForConnections_def closesocket_def Let_def split: if_splits)

text \<open>The text that is printed for a refused client fits its array of 512 characters.\<close>

definition refusal_text :: "string \<Rightarrow> string" where
  "refusal_text ip = ''Wait for user at '' @ ip @ '' to disconnect and try again.''"

definition refusal_buffer :: "(sock \<Rightarrow> (u8 \<times> u8 \<times> u8 \<times> u8) option) \<Rightarrow> string \<Rightarrow> string \<Rightarrow> 'c server \<Rightarrow> string outcome" where
  "refusal_buffer peer ip0 buf0 s =
     obind (GetSocketIpAddress peer (GetConnectedClient s) (Some ip0)) (\<lambda>b.
       case b of None \<Rightarrow> Fault NullPointer | Some ip \<Rightarrow> memcpy_to buf0 0 (refusal_text (cstr ip) @ [NUL]))"

lemma refusal_fits:
  assumes "length ip0 = 128" "length buf0 = 512"
  shows "\<exists>b ip. refusal_buffer peer ip0 buf0 s = Ok b \<and> cstr b = refusal_text ip \<and> length ip \<le> 15"
proof -
  let ?ip = "dotted (case peer (GetConnectedClient s) of None \<Rightarrow> (0, 0, 0, 0) | Some a \<Rightarrow> a)"
  obtain b' where b': "GetSocketIpAddress peer (GetConnectedClient s) (Some ip0) = Ok (Some b')" "cstr b' = ?ip"
    using peer_address [of ip0 peer "GetConnectedClient s"] assms(1) by auto
  have len: "length ?ip \<le> 15" by (rule dotted_length)
  have "NUL \<notin> set (refusal_text ?ip)" using dotted_no_nul by (simp add: refusal_text_def)
  then have "cstr (blit buf0 0 (refusal_text ?ip @ [NUL])) = refusal_text ?ip" by (simp add: blit_def)
  moreover have "length (refusal_text ?ip @ [NUL]) \<le> length buf0" using len assms(2) by (simp add: refusal_text_def)
  ultimately show ?thesis using b' len by (auto simp: refusal_buffer_def memcpy_to_def)
qed

section \<open>The life cycle of the server\<close>

datatype srv_op = SrvStart bool sock | SrvReceiveExit | SrvStop StopMode

text \<open>A start that finds an invalid socket or a busy server changes nothing.\<close>

fun srv_exec :: "string \<Rightarrow> srv_op \<Rightarrow> 'c server \<Rightarrow> 'c server outcome" where
  "srv_exec ip (SrvStart accepted client) s =
     (case StartThread_begin ip client s of
        MustAuthenticate \<Rightarrow> Ok (snd (snd (StartThread_finish accepted client s)))
      | _ \<Rightarrow> Ok s)"
| "srv_exec ip SrvReceiveExit s = Ok (receive_exit s)"
| "srv_exec ip (SrvStop mode) s = StopThread mode s"

abbreviation srv_run :: "string \<Rightarrow> srv_op list \<Rightarrow> 'c server \<Rightarrow> 'c server outcome" where
  "srv_run ip \<equiv> run_cmds (srv_exec ip)"

definition server_inv :: "'c server \<Rightarrow> bool" where
  "server_inv s \<longleftrightarrow> server_running s \<longrightarrow> server_client_sock s \<noteq> INVALID_SOCKET \<and> server_receive_thread s"

lemma srv_exec_inv: "srv_exec ip c s = Ok s' \<Longrightarrow> server_inv s \<Longrightarrow> server_inv s'"
  by (cases c)
    (auto simp: server_inv_def StartThread_begin_def StartThread_finish_def ValidateSocket_def receive_exit_def StopThread_def Let_def
      split: if_splits)

interpretation srv: invariant_commands "srv_exec ip" server_inv for ip
  by unfold_locales (rule srv_exec_inv)

end
