(* ===== verification/Terminal.thy ===== *)
theory Terminal
  imports Prelude
begin

text \<open>
  The helpers of \<^verbatim>\<open>DCS_Utils/src/internal.cpp\<close>: copies of objects behind generic handles and the control of the console.
  The heap maps addresses to the bytes of a block; the console mode is the word that Windows keeps.
\<close>

section \<open>Generic handles\<close>

type_synonym handle_heap = "u64 \<Rightarrow> bytes option"

text \<open>\<open>fresh\<close> is the address that \<^verbatim>\<open>malloc\<close> gives, \<open>None\<close> when it fails; \<open>obj\<close> are the bytes of the object.\<close>

definition AllocateGenericHandle :: "u64 option \<Rightarrow> u16 \<Rightarrow> bytes \<Rightarrow> handle_heap \<Rightarrow> (u64 option \<times> handle_heap) outcome" where
  "AllocateGenericHandle fresh sz obj h =
     (case fresh of None \<Rightarrow> Ok (None, h)
      | Some a \<Rightarrow> obind (memcpy_from obj 0 (unat sz)) (\<lambda>d. Ok (Some a, h(a \<mapsto> d))))"

text \<open>The handle is passed by value: the caller's copy is not cleared. Freeing an address that is not allocated is a fault.\<close>

definition FreeGenericHandle :: "u64 option \<Rightarrow> handle_heap \<Rightarrow> handle_heap outcome" where
  "FreeGenericHandle hnd h =
     (case hnd of None \<Rightarrow> Ok h | Some a \<Rightarrow> if h a = None then Fault Dangling else Ok (h(a := None)))"

text \<open>A copy is released without a trace, but only once: the caller's handle still looks valid after it.\<close>

lemma generic_handle_life:
  assumes "length obj = unat sz" "h a = None"
  shows "\<exists>h'. AllocateGenericHandle (Some a) sz obj h = Ok (Some a, h') \<and> h' a = Some obj
    \<and> FreeGenericHandle (Some a) h' = Ok h \<and> FreeGenericHandle (Some a) h = Fault Dangling"
  using assms by (auto simp: AllocateGenericHandle_def FreeGenericHandle_def memcpy_from_def fun_upd_idem)

section \<open>The console\<close>

definition ENABLE_ECHO_INPUT :: u32 where
  "ENABLE_ECHO_INPUT = 4"

definition SetStdinEcho :: "bool \<Rightarrow> u32 \<Rightarrow> u32" where
  "SetStdinEcho enable mode = (if \<not> enable then mode AND NOT ENABLE_ECHO_INPUT else mode OR ENABLE_ECHO_INPUT)"

lemma echo_bit:
  "bit (SetStdinEcho enable mode) n = (if n = 2 then enable else bit mode n)"
proof -
  have "bit (2 ^ 2 :: u32) n \<longleftrightarrow> n = 2" by (auto simp only: bit_exp_iff possible_bit_word) simp
  then have b: "bit ENABLE_ECHO_INPUT n \<longleftrightarrow> n = 2" by (simp add: ENABLE_ECHO_INPUT_def)
  have "bit mode n \<Longrightarrow> n < 32" using bit_imp_le_length [of mode n] by simp
  then show ?thesis by (cases enable) (auto simp: SetStdinEcho_def bit_and_iff bit_or_iff bit_not_iff b)
qed

text \<open>Switching the echo off and on again gives back the mode that had it on.\<close>

lemma echo_restored:
  assumes "bit mode 2"
  shows "SetStdinEcho True (SetStdinEcho False mode) = mode"
proof (rule bit_eqI)
  show "bit (SetStdinEcho True (SetStdinEcho False mode)) n = bit mode n" for n
    by (simp add: echo_bit assms)
qed

text \<open>The control sequences that are written to the console.\<close>

definition GetConsoleSize :: "i16 \<Rightarrow> i16 \<Rightarrow> i16 \<Rightarrow> i16 \<Rightarrow> int \<times> int" where
  "GetConsoleSize l t r b = (sint r - sint l + 1, sint b - sint t + 1)"

abbreviation ESC :: char where
  "ESC \<equiv> CHR 0x1B"

definition SetConsoleMargins :: "i32 \<Rightarrow> i32 \<Rightarrow> string" where
  "SetConsoleMargins t b = ESC # ''['' @ to_string (sint t) @ '';'' @ to_string (sint b) @ ''r''"

definition WriteConsoleLine :: "i32 \<Rightarrow> string \<Rightarrow> string" where
  "WriteConsoleLine b str = ESC # ''['' @ to_string (sint b) @ '';1f'' @ cstr str @ ESC # ''[f''"

end
