(* ===== verification/Cli.thy ===== *)
theory Cli
  imports Listen Terminal Diagnostics Database "HOL-Library.Char_ord" "HOL-Library.List_Lexorder"
begin

text \<open>
  The console of the server, \<^verbatim>\<open>DCS_Network/src/cli.cpp\<close>: the search for the command closest to a mistyped one, the
  table of commands (\<^verbatim>\<open>CLI::Command\<close> of \<^verbatim>\<open>DCS_ModuleNetwork.h\<close>), the commands and the loop that reads them.
\<close>

section \<open>The distance of two words\<close>

text \<open>
  The matrix is one array of \<open>L1 * L2\<close> numbers; \<open>dm0\<close> is what it holds before it is filled. Reading a
  \<^verbatim>\<open>std::string\<close> at its length gives the terminator, beyond it is a fault.
\<close>

definition string_at :: "string \<Rightarrow> nat \<Rightarrow> char outcome" where
  "string_at s i = (if i < length s then Ok (s ! i) else if i = length s then Ok NUL else Fault OutOfBounds)"

definition lev_cost :: "string \<Rightarrow> string \<Rightarrow> nat \<Rightarrow> int outcome" where
  "lev_cost s1 s2 i = obind (string_at s1 i) (\<lambda>a. obind (string_at s2 i) (\<lambda>b. Ok (if a \<noteq> b then 1 else 0)))"

fun lev_loop :: "string \<Rightarrow> string \<Rightarrow> nat \<Rightarrow> (nat \<times> nat) list \<Rightarrow> int list \<Rightarrow> int list outcome" where
  "lev_loop s1 s2 L2 [] dm = Ok dm"
| "lev_loop s1 s2 L2 ((j, i) # ps) dm =
     obind (lev_cost s1 s2 i) (\<lambda>cost.
       let cI = dm ! ((i - 1) * L2 + j) + 1;
           cD = dm ! (i * L2 + (j - 1)) + 1;
           cS = dm ! ((i - 1) * L2 + (j - 1)) + cost
       in lev_loop s1 s2 L2 ps
            (dm[i * L2 + j := (if cI \<le> cD then (if cI \<le> cS then cI else cS) else (if cD \<le> cS then cD else cS))]))"

definition LevenshteinDistance :: "int list \<Rightarrow> string \<Rightarrow> string \<Rightarrow> int outcome" where
  "LevenshteinDistance dm0 s1 s2 =
     (let L1 = length s1 + 1; L2 = length s2 + 1;
          dm = fold (\<lambda>i dm. dm[i * L2 := int i]) [0..<L1] dm0;
          dm = fold (\<lambda>j dm. dm[j := int j]) [0..<L2] dm
      in obind (lev_loop s1 s2 L2 (concat (map (\<lambda>j. map (\<lambda>i. (j, i)) [1..<L1]) [1..<L2])) dm)
           (\<lambda>dm. Ok (dm ! ((L1 - 1) * L2 + (L2 - 1)))))"

text \<open>
  What the loop computes. Both words are compared at the row \<open>i\<close>, so a cell depends on the number of rows up to \<open>i\<close>
  where they differ; the first characters are never compared.
\<close>

definition differs :: "string \<Rightarrow> string \<Rightarrow> nat \<Rightarrow> nat" where
  "differs s1 s2 i = length (filter (\<lambda>k. string_at s1 k \<noteq> string_at s2 k) [1..<Suc i])"

definition lev_cell :: "string \<Rightarrow> string \<Rightarrow> nat \<Rightarrow> nat \<Rightarrow> int" where
  "lev_cell s1 s2 i j = (if i \<le> j then int (j - i) + int (differs s1 s2 i) else max (int (i - j)) (int (differs s1 s2 i)))"

lemma differs_0 [simp]: "differs s1 s2 0 = 0"
  by (simp add: differs_def)

lemma differs_Suc: "differs s1 s2 (Suc i) = differs s1 s2 i + (if string_at s1 (Suc i) \<noteq> string_at s2 (Suc i) then 1 else 0)"
  by (simp add: differs_def)

lemma differs_le: "differs s1 s2 i \<le> i"
  by (induction i) (auto simp: differs_Suc)

lemma lev_cell_step:
  assumes "c = (if string_at s1 (Suc i) \<noteq> string_at s2 (Suc i) then 1 else 0)"
  shows "min (lev_cell s1 s2 i (Suc j) + 1) (min (lev_cell s1 s2 (Suc i) j + 1) (lev_cell s1 s2 i j + c)) = lev_cell s1 s2 (Suc i) (Suc j)"
  using differs_le [of s1 s2 i] unfolding lev_cell_def differs_Suc assms by (auto simp: min_def max_def)

text \<open>The cells of the matrix do not overlap.\<close>

lemma cell_inject: "j < L \<Longrightarrow> j' < L \<Longrightarrow> i * L + j = i' * L + j' \<longleftrightarrow> i = i' \<and> (j :: nat) = j'"
  by (metis add.commute mod_mult_self2 mod_less div_mult_self2 div_less add_right_cancel add_0 mult.commute less_nat_zero_code)

lemma cell_bound: "i < n \<Longrightarrow> j < (L :: nat) \<Longrightarrow> i * L + j < n * L"
  by (metis add.commute add_less_cancel_right less_le_trans mult_Suc mult_le_mono1 Suc_leI)

text \<open>The matrix is right in the columns before \<open>j\<close> and in column \<open>j\<close> above row \<open>k\<close>.\<close>

definition dm_ok :: "string \<Rightarrow> string \<Rightarrow> nat \<Rightarrow> nat \<Rightarrow> int list \<Rightarrow> bool" where
  "dm_ok s1 s2 j k dm \<longleftrightarrow> length dm = (length s1 + 1) * (length s2 + 1)
     \<and> (\<forall>i<length s1 + 1. \<forall>j'<length s2 + 1. j' < j \<or> i = 0 \<or> j' = j \<and> i < k \<longrightarrow> dm ! (i * (length s2 + 1) + j') = lev_cell s1 s2 i j')"

lemma dm_okD:
  assumes "dm_ok s1 s2 j k dm" "i < length s1 + 1" "j' < length s2 + 1" "j' < j \<or> i = 0 \<or> j' = j \<and> i < k"
  shows "dm ! (i * (length s2 + 1) + j') = lev_cell s1 s2 i j'"
  using assms(1) [unfolded dm_ok_def, THEN conjunct2, rule_format, OF assms(2-4)] .

lemma min_three: "(if a \<le> b then (if a \<le> c then a else c) else (if b \<le> c then b else c)) = min a (min b (c :: int))"
  by (auto simp: min_def)

lemma lev_loop_append: "lev_loop s1 s2 L2 (ps @ qs) dm = obind (lev_loop s1 s2 L2 ps dm) (lev_loop s1 s2 L2 qs)"
proof (induction s1 s2 L2 ps dm rule: lev_loop.induct)
  case (1 s1 s2 L2 dm)
  then show ?case by simp
next
  case (2 s1 s2 L2 j i ps dm)
  then show ?case by (cases "lev_cost s1 s2 i") (simp_all add: Let_def)
qed

lemma dm_ok_step:
  assumes "dm_ok s1 s2 (Suc j) (Suc k) dm" "Suc j < length s2 + 1" "Suc k < length s1 + 1" "Suc k \<le> length s2"
  shows "\<exists>dm'. lev_loop s1 s2 (length s2 + 1) [(Suc j, Suc k)] dm = Ok dm' \<and> dm_ok s1 s2 (Suc j) (Suc (Suc k)) dm'"
proof -
  let ?L = "length s2 + 1"
  let ?c = "if string_at s1 (Suc k) \<noteq> string_at s2 (Suc k) then 1 else 0 :: int"
  have c: "lev_cost s1 s2 (Suc k) = Ok ?c" using assms(3,4) by (auto simp: lev_cost_def string_at_def)
  have d: "dm ! (k * ?L + Suc j) = lev_cell s1 s2 k (Suc j)" "dm ! (Suc k * ?L + j) = lev_cell s1 s2 (Suc k) j"
    "dm ! (k * ?L + j) = lev_cell s1 s2 k j"
    by (rule dm_okD [OF assms(1)]; use assms(2,3) in simp)+
  let ?v = "lev_cell s1 s2 (Suc k) (Suc j)"
  let ?dm = "dm[Suc k * ?L + Suc j := ?v]"
  have "lev_loop s1 s2 ?L [(Suc j, Suc k)] dm = Ok ?dm"
    unfolding lev_loop.simps c obind.simps Let_def diff_Suc_1 d min_three
    by (subst lev_cell_step [OF HOL.refl]) (rule HOL.refl)
  moreover have "?dm ! (i * ?L + j') = lev_cell s1 s2 i j'"
    if "i < length s1 + 1" "j' < ?L" "j' < Suc j \<or> i = 0 \<or> j' = Suc j \<and> i < Suc (Suc k)" for i j'
  proof (cases "i = Suc k \<and> j' = Suc j")
    case True
    then show ?thesis using assms(1) cell_bound [OF assms(3,2)] by (simp add: dm_ok_def)
  next
    case False
    then have "i * ?L + j' \<noteq> Suc k * ?L + Suc j" using cell_inject [of j' ?L "Suc j" i "Suc k"] that(2) assms(2) by blast
    then have "?dm ! (i * ?L + j') = dm ! (i * ?L + j')" by simp
    also have "\<dots> = lev_cell s1 s2 i j'" by (rule dm_okD [OF assms(1)]) (use that False in auto)
    finally show ?thesis .
  qed
  moreover have "length ?dm = (length s1 + 1) * ?L" using assms(1) by (simp add: dm_ok_def)
  ultimately show ?thesis unfolding dm_ok_def by blast
qed

lemma lev_column:
  assumes "dm_ok s1 s2 (Suc j) 1 dm" "Suc j < length s2 + 1" "n \<le> length s1" "n \<le> length s2"
  shows "\<exists>dm'. lev_loop s1 s2 (length s2 + 1) (map (\<lambda>i. (Suc j, i)) [1..<Suc n]) dm = Ok dm' \<and> dm_ok s1 s2 (Suc j) (Suc n) dm'"
  using assms(3,4)
proof (induction n)
  case 0
  then show ?case using assms(1) by simp
next
  case (Suc n)
  then obtain dm1 where r: "lev_loop s1 s2 (length s2 + 1) (map (\<lambda>i. (Suc j, i)) [1..<Suc n]) dm = Ok dm1" "dm_ok s1 s2 (Suc j) (Suc n) dm1"
    by auto
  obtain dm2 where "lev_loop s1 s2 (length s2 + 1) [(Suc j, Suc n)] dm1 = Ok dm2" "dm_ok s1 s2 (Suc j) (Suc (Suc n)) dm2"
    using dm_ok_step [OF r(2) assms(2)] Suc.prems by auto
  then show ?case using r(1) by (simp add: lev_loop_append del: lev_loop.simps)
qed

lemma dm_ok_column_done: "dm_ok s1 s2 j (Suc (length s1)) dm \<Longrightarrow> dm_ok s1 s2 (Suc j) 1 dm"
  unfolding dm_ok_def by (auto simp: less_Suc_eq)

lemma lev_columns:
  assumes "dm_ok s1 s2 1 1 dm" "length s1 \<le> length s2" "m \<le> length s2"
  shows "\<exists>dm'. lev_loop s1 s2 (length s2 + 1) (concat (map (\<lambda>j. map (\<lambda>i. (j, i)) [1..<length s1 + 1]) [1..<Suc m])) dm = Ok dm'
    \<and> dm_ok s1 s2 (Suc m) 1 dm'"
  using assms(3)
proof (induction m)
  case 0
  then show ?case using assms(1) by simp
next
  case (Suc m)
  then obtain dm1 where r: "lev_loop s1 s2 (length s2 + 1) (concat (map (\<lambda>j. map (\<lambda>i. (j, i)) [1..<length s1 + 1]) [1..<Suc m])) dm = Ok dm1"
    "dm_ok s1 s2 (Suc m) 1 dm1" by auto
  obtain dm2 where "lev_loop s1 s2 (length s2 + 1) (map (\<lambda>i. (Suc m, i)) [1..<length s1 + 1]) dm1 = Ok dm2" "dm_ok s1 s2 (Suc m) (Suc (length s1)) dm2"
    using lev_column [OF r(2), of "length s1"] Suc.prems assms(2) by auto
  moreover have "[1..<Suc (Suc m)] = [1..<Suc m] @ [Suc m]" by simp
  ultimately show ?case using r(1) dm_ok_column_done by (simp add: lev_loop_append del: upt_Suc lev_loop.simps)
qed

text \<open>The first two loops fill the first column and the first row.\<close>

lemma fold_update_nth:
  assumes "distinct (map f xs)" "\<forall>x \<in> set xs. f x < length dm"
  shows "length (fold (\<lambda>x dm. dm[f x := g x]) xs dm) = length dm
    \<and> (\<forall>x \<in> set xs. fold (\<lambda>x dm. dm[f x := g x]) xs dm ! f x = g x)
    \<and> (\<forall>k. k \<notin> f ` set xs \<longrightarrow> fold (\<lambda>x dm. dm[f x := g x]) xs dm ! k = dm ! k)"
  using assms by (induction xs arbitrary: dm) (auto simp: nth_list_update)

definition lev_init :: "int list \<Rightarrow> nat \<Rightarrow> nat \<Rightarrow> int list" where
  "lev_init dm0 L1 L2 = fold (\<lambda>j dm. dm[j := int j]) [0..<L2] (fold (\<lambda>i dm. dm[i * L2 := int i]) [0..<L1] dm0)"

lemma lev_init_nth:
  assumes "length dm0 = n * L" "0 < L" "0 < n"
  shows "length (lev_init dm0 n L) = n * L \<and> (\<forall>j<L. lev_init dm0 n L ! j = int j) \<and> (\<forall>i<n. 0 < i \<longrightarrow> lev_init dm0 n L ! (i * L) = int i)"
proof -
  let ?dm1 = "fold (\<lambda>i dm. dm[i * L := int i]) [0..<n] dm0"
  have b1: "\<forall>i \<in> set [0..<n]. i * L < length dm0" using assms(1,2) by simp
  have inj: "distinct (map (\<lambda>i. i * L) [0..<n])" using assms(2) by (simp add: distinct_map inj_on_def)
  have d1: "length ?dm1 = length dm0" "\<forall>i \<in> set [0..<n]. ?dm1 ! (i * L) = int i"
    using fold_update_nth [OF inj b1, of int] by blast+
  have L: "j < n * L" if "j < L" for j using assms(3) that cell_bound [of 0 n j L] by simp
  have d2: "length (lev_init dm0 n L) = length ?dm1 \<and> (\<forall>j \<in> set [0..<L]. lev_init dm0 n L ! j = int j)
      \<and> (\<forall>k. k \<notin> (\<lambda>j. j) ` set [0..<L] \<longrightarrow> lev_init dm0 n L ! k = ?dm1 ! k)"
    unfolding lev_init_def using d1(1) assms(1) L by (intro fold_update_nth) auto
  have "lev_init dm0 n L ! (i * L) = int i" if "i < n" "0 < i" for i
  proof -
    have "i * L \<notin> (\<lambda>j. j) ` set [0..<L]" using that(2) by simp
    then have "lev_init dm0 n L ! (i * L) = ?dm1 ! (i * L)" using d2 by blast
    then show ?thesis using d1(2) that(1) by simp
  qed
  then show ?thesis using d1(1) d2 assms(1) by simp
qed

lemma lev_init_ok:
  assumes "length dm0 = (length s1 + 1) * (length s2 + 1)"
  shows "dm_ok s1 s2 1 1 (lev_init dm0 (length s1 + 1) (length s2 + 1))"
proof -
  let ?dm = "lev_init dm0 (length s1 + 1) (length s2 + 1)"
  have d: "length ?dm = (length s1 + 1) * (length s2 + 1)" "\<forall>j<length s2 + 1. ?dm ! j = int j"
    "\<forall>i<length s1 + 1. 0 < i \<longrightarrow> ?dm ! (i * (length s2 + 1)) = int i"
    using lev_init_nth [OF assms] by simp_all
  have "?dm ! (i * (length s2 + 1) + j) = lev_cell s1 s2 i j" if "i < length s1 + 1" "j < length s2 + 1" "j < 1 \<or> i = 0 \<or> j = 1 \<and> i < 1" for i j
  proof (cases "i = 0")
    case True
    then show ?thesis using d(2) that(2) by (simp add: lev_cell_def)
  next
    case False
    then have "?dm ! (i * (length s2 + 1)) = int i" using d(3) that(1) by blast
    moreover have "lev_cell s1 s2 i 0 = int i" using False differs_le [of s1 s2 i] by (simp add: lev_cell_def)
    ultimately show ?thesis using False that(3) by simp
  qed
  then show ?thesis using d(1) unfolding dm_ok_def by (intro conjI allI impI) simp_all
qed

lemma Levenshtein_unfold:
  "LevenshteinDistance dm0 s1 s2 =
     obind (lev_loop s1 s2 (length s2 + 1) (concat (map (\<lambda>j. map (\<lambda>i. (j, i)) [1..<length s1 + 1]) [1..<length s2 + 1]))
         (lev_init dm0 (length s1 + 1) (length s2 + 1)))
       (\<lambda>dm. Ok (dm ! (length s1 * (length s2 + 1) + length s2)))"
  by (simp add: LevenshteinDistance_def lev_init_def Let_def del: upt_Suc)

lemma Levenshtein_short:
  assumes "length dm0 = (length s1 + 1) * (length s2 + 1)" "length s1 \<le> length s2"
  shows "LevenshteinDistance dm0 s1 s2 = Ok (int (length s2 - length s1 + differs s1 s2 (length s1)))"
proof -
  obtain dm where dm: "lev_loop s1 s2 (length s2 + 1) (concat (map (\<lambda>j. map (\<lambda>i. (j, i)) [1..<length s1 + 1]) [1..<Suc (length s2)]))
      (lev_init dm0 (length s1 + 1) (length s2 + 1)) = Ok dm" "dm_ok s1 s2 (Suc (length s2)) 1 dm"
    using lev_columns [OF lev_init_ok [OF assms(1)] assms(2) order_refl] by blast
  have "dm ! (length s1 * (length s2 + 1) + length s2) = lev_cell s1 s2 (length s1) (length s2)"
    by (rule dm_okD [OF dm(2)]) simp_all
  then show ?thesis using dm(1) assms(2) by (simp add: Levenshtein_unfold lev_cell_def del: upt_Suc)
qed

lemma Levenshtein_long:
  assumes "length dm0 = (length s1 + 1) * (length s2 + 1)" "length s2 < length s1" "s2 \<noteq> []"
  shows "LevenshteinDistance dm0 s1 s2 = Fault OutOfBounds"
proof -
  let ?n = "length s2" and ?L = "length s2 + 1"
  let ?dm = "lev_init dm0 (length s1 + 1) ?L"
  have n: "0 < ?n" using assms(3) by simp
  obtain dm where dm: "lev_loop s1 s2 ?L (map (\<lambda>i. (1, i)) [1..<Suc ?n]) ?dm = Ok dm"
    using lev_column [of s1 s2 0 ?dm ?n] lev_init_ok [OF assms(1)] n assms(2) by auto
  have up: "[1..<length s1 + 1] = [1..<Suc ?n] @ Suc ?n # [Suc (Suc ?n)..<length s1 + 1]"
    using upt_add_eq_append [of 1 "Suc ?n" "length s1 - ?n"] upt_conv_Cons [of "Suc ?n" "length s1 + 1"] assms(2) by simp
  have cols: "[1..<?L] = 1 # [2..<?L]" using n upt_conv_Cons [of 1 ?L] by (simp only: Suc_1)
  have "lev_cost s1 s2 (Suc ?n) = Fault OutOfBounds" using assms(2) by (auto simp: lev_cost_def string_at_def)
  then have "lev_loop s1 s2 ?L (map (\<lambda>i. (1, i)) [1..<length s1 + 1]) ?dm = Fault OutOfBounds"
    unfolding up map_append lev_loop_append dm by simp
  then show ?thesis unfolding Levenshtein_unfold cols list.map concat.simps lev_loop_append by simp
qed

text \<open>
  The distance that the console computes, exactly: for a word no longer than the name of the command it is the
  difference of the lengths plus the number of positions from the second one on (the terminator of the word included)
  where the two differ. A word longer than the name makes it read past the end of the name.
\<close>

theorem distance_of_words:
  assumes "length dm0 = (length s1 + 1) * (length s2 + 1)"
  shows "(length s1 \<le> length s2 \<longrightarrow> LevenshteinDistance dm0 s1 s2 = Ok (int (length s2 - length s1 + differs s1 s2 (length s1))))
    \<and> (0 < length s2 \<and> length s2 < length s1 \<longrightarrow> LevenshteinDistance dm0 s1 s2 = Fault OutOfBounds)"
  using Levenshtein_short [OF assms] Levenshtein_long [OF assms] by auto

theorem distance_of_words_witness:
  "LevenshteinDistance (replicate 25 0) ''atop'' ''stop'' = Ok 0 \<and> LevenshteinDistance (replicate 30 0) ''uptim'' ''help'' = Fault OutOfBounds"
  using distance_of_words [of "replicate 25 0" "''atop''" "''stop''"] distance_of_words [of "replicate 30 0" "''uptim''" "''help''"]
  by (simp add: differs_def string_at_def upt_rec)

text \<open>The edit distance of the literature, which the name promises.\<close>

fun edit_distance :: "string \<Rightarrow> string \<Rightarrow> nat" where
  "edit_distance [] t = length t"
| "edit_distance (a # s) [] = Suc (length s)"
| "edit_distance (a # s) (b # t) =
     min (edit_distance s (b # t) + 1) (min (edit_distance (a # s) t + 1) (edit_distance s t + (if a \<noteq> b then 1 else 0)))"

lemma not_the_edit_distance: "edit_distance ''atop'' ''stop'' = 1" "edit_distance ''uptim'' ''uptime'' = 1"
  by code_simp+

section \<open>The table of commands\<close>

datatype callback = CB_help | CB_stop | CB_uptime | CB_addusr | CB_delusr | CB_lstusr

record cli_command =
  cmd_name :: string
  help_string :: string
  to_run :: "callback option"

text \<open>A \<^verbatim>\<open>std::map\<close> is the list of its entries in the order of their keys.\<close>

type_synonym cmd_reg = "(string \<times> cli_command) list"

definition IsCommand :: "string \<Rightarrow> cmd_reg \<Rightarrow> bool" where
  "IsCommand name reg \<longleftrightarrow> name \<in> fst ` set reg"

definition Command_Get :: "string \<Rightarrow> cmd_reg \<Rightarrow> cli_command option" where
  "Command_Get name reg = map_of reg name"

definition Command_register :: "string \<Rightarrow> string \<Rightarrow> callback option \<Rightarrow> cmd_reg \<Rightarrow> cmd_reg" where
  "Command_register DCL help cb reg =
     (if \<not> IsCommand DCL reg then insort_key fst (DCL, \<lparr>cmd_name = DCL, help_string = help, to_run = cb\<rparr>) reg else reg)"

definition ListCommands :: "cmd_reg \<Rightarrow> string list" where
  "ListCommands reg = map (\<lambda>p. cmd_name (snd p) @ '' - '' @ help_string (snd p)) reg"

definition CommandRegistry :: "cmd_reg \<Rightarrow> cmd_reg" where
  "CommandRegistry reg =
     Command_register ''lstusr'' ''Lists all the users present in the database.'' (Some CB_lstusr)
    (Command_register ''delusr'' ''Deletes an existing user from the database.'' (Some CB_delusr)
    (Command_register ''addusr'' ''Creates a new remote user in the server database.'' (Some CB_addusr)
    (Command_register ''uptime'' ''Prints how long the server (CLI) has been running.'' (Some CB_uptime)
    (Command_register ''stop'' ''Stops the server execution.'' (Some CB_stop)
    (Command_register ''help'' ''Displays this help message.'' (Some CB_help) reg)))))"

text \<open>\<open>heap n\<close> is the memory that \<^verbatim>\<open>malloc\<close> gives for \<open>n\<close> numbers.\<close>

fun closest_loop :: "(nat \<Rightarrow> int list) \<Rightarrow> string \<Rightarrow> cmd_reg \<Rightarrow> int \<Rightarrow> cli_command option \<Rightarrow> cli_command option outcome" where
  "closest_loop heap name [] mn best = Ok best"
| "closest_loop heap name (p # ps) mn best =
     obind (LevenshteinDistance (heap ((length name + 1) * (length (cmd_name (snd p)) + 1))) name (cmd_name (snd p))) (\<lambda>l.
       if l < mn then closest_loop heap name ps l (Some (snd p)) else closest_loop heap name ps mn best)"

definition Closest :: "(nat \<Rightarrow> int list) \<Rightarrow> string \<Rightarrow> cmd_reg \<Rightarrow> cli_command option outcome" where
  "Closest heap name reg = closest_loop heap name reg 0xFFFFFF None"

definition reg_ok :: "cmd_reg \<Rightarrow> bool" where
  "reg_ok reg \<longleftrightarrow> sorted (map fst reg) \<and> distinct (map fst reg) \<and> (\<forall>p \<in> set reg. cmd_name (snd p) = fst p)"

lemma register_ok: "reg_ok reg \<Longrightarrow> reg_ok (Command_register n h cb reg)"
  by (auto simp: reg_ok_def Command_register_def IsCommand_def sorted_insort_key distinct_insort set_insort_key distinct_map)
    (metis fst_conv image_eqI)

lemma map_of_insort: "n \<notin> fst ` set reg \<Longrightarrow> map_of (insort_key fst (n, c) reg) = (map_of reg)(n \<mapsto> c)"
  by (induction reg) (auto simp: fun_upd_twist)

lemma register_get:
  "Command_Get m (Command_register n h cb reg) =
    (if m = n \<and> Command_Get n reg = None then Some \<lparr>cmd_name = n, help_string = h, to_run = cb\<rparr> else Command_Get m reg)"
proof (cases "IsCommand n reg")
  case True
  then show ?thesis by (auto simp: Command_register_def Command_Get_def IsCommand_def map_of_eq_None_iff)
next
  case False
  then have "map_of (insort_key fst (n, \<lparr>cmd_name = n, help_string = h, to_run = cb\<rparr>) reg) = (map_of reg)(n \<mapsto> \<lparr>cmd_name = n, help_string = h, to_run = cb\<rparr>)"
    by (intro map_of_insort) (simp add: IsCommand_def)
  then show ?thesis using False by (auto simp: Command_register_def Command_Get_def IsCommand_def map_of_eq_None_iff)
qed

section \<open>The commands\<close>

text \<open>
  The console input is a list of words; at its end \<^verbatim>\<open>std::cin\<close> leaves the string as it was. \<open>ce_ip\<close> is the address of
  the client and \<open>ce_uptime\<close> the text of the timer; \<open>cli_out\<close> is what has been printed.
\<close>

record 'd cli_env =
  ce_sq :: "'d sqlite"
  ce_SHA256 :: "string \<Rightarrow> bytes"
  ce_p0 :: bytes
  ce_ip :: string
  ce_uptime :: string
  ce_heap :: "nat \<Rightarrow> int list"

record ('c, 'd) cli =
  cli_reg :: cmd_reg
  cli_server :: "'c server"
  cli_rdb :: "'d rdb"
  cli_out :: "string list"
  cli_mode :: u32

fun cin_read :: "string \<Rightarrow> string list \<Rightarrow> string \<times> string list" where
  "cin_read old [] = (old, [])"
| "cin_read old (w # ws) = (w, ws)"

definition say :: "string list \<Rightarrow> ('c, 'd) cli \<Rightarrow> ('c, 'd) cli" where
  "say ls st = st\<lparr>cli_out := cli_out st @ ls\<rparr>"

definition cmd_help :: "('c, 'd) cli \<Rightarrow> ('c, 'd) cli" where
  "cmd_help st = say (''There you go!'' # ListCommands (cli_reg st)) st"

definition disconnect_user :: "'d cli_env \<Rightarrow> ('c, 'd) cli \<Rightarrow> ('c, 'd) cli" where
  "disconnect_user env st =
     (if server_receive_thread (cli_server st)
      then st\<lparr>cli_rdb := SetAuthenticatedUser None (LogEventSystem (ce_sq env) NETWORK
             (''User '' @ GetAuthenticatedUsername (cli_rdb st) @ '' : Disconnected.'') (cli_rdb st))\<rparr>
      else st)"

text \<open>The first result is the flag that ends the console.\<close>

definition cmd_stop :: "'d cli_env \<Rightarrow> string list \<Rightarrow> ('c, 'd) cli \<Rightarrow> (bool \<times> string list \<times> ('c, 'd) cli) outcome" where
  "cmd_stop env ws st =
     (if IsRunning (cli_server st) then
        if GetConnectedClient (cli_server st) \<noteq> INVALID_SOCKET then
          let st = say [''A client is currently connected to the server: [at '' @ ce_ip env @ '']'', ''Stop server anyways? y/n''] st;
              (w, ws) = cin_read [] ws
          in if take 1 w = ''y'' then
               let st = disconnect_user env (say [''Stopping server...''] st) in
               obind (StopThread IMMEDIATE (cli_server st)) (\<lambda>sv. Ok (True, ws, st\<lparr>cli_server := sv\<rparr>))
             else Ok (False, ws, say [''Aborting stop...''] st)
        else Ok (False, ws, st)
      else Ok (True, ws, say [''Stopping server...''] st))"

definition cmd_addusr :: "'d cli_env \<Rightarrow> string list \<Rightarrow> ('c, 'd) cli \<Rightarrow> (string list \<times> ('c, 'd) cli) outcome" where
  "cmd_addusr env ws st =
     (let (username, ws) = cin_read [] ws; st = st\<lparr>cli_mode := SetStdinEcho False (cli_mode st)\<rparr>;
          (password, ws) = cin_read [] ws; (password_v, ws) = cin_read [] ws; st = st\<lparr>cli_mode := SetStdinEcho True (cli_mode st)\<rparr> in
      if password \<noteq> password_v then Ok (ws, say [''Passwords don't match. Aborting...''] st)
      else obind (AddUser (ce_SHA256 env) (ce_p0 env) (ce_sq env) (cstr username) (cstr password) (cli_rdb st)) (\<lambda>r.
             case r of Inl e \<Rightarrow> Ok (ws, st) | Inr db \<Rightarrow> Ok (ws, st\<lparr>cli_rdb := db\<rparr>)))"

definition cmd_delusr :: "'d cli_env \<Rightarrow> string list \<Rightarrow> ('c, 'd) cli \<Rightarrow> (string list \<times> ('c, 'd) cli) outcome" where
  "cmd_delusr env ws st =
     (let (username, ws) = cin_read [] ws in
      obind (GetUser (ce_p0 env) (ce_sq env) (cstr username) (cli_rdb st)) (\<lambda>u.
        if user_u u = INVALID_USER then Ok (ws, say [''Username '' @ cstr username @ '' not found. Aborting...''] st)
        else obind (RemoveUser (ce_p0 env) (ce_sq env) (cstr username) (cli_rdb st)) (\<lambda>db. Ok (ws, st\<lparr>cli_rdb := db\<rparr>))))"

definition cmd_lstusr :: "'d cli_env \<Rightarrow> ('c, 'd) cli \<Rightarrow> ('c, 'd) cli outcome" where
  "cmd_lstusr env st =
     obind (GetAllUsers (ce_sq env) (cli_rdb st)) (\<lambda>us.
       Ok (say (''Users in database:''
           # map (\<lambda>(i, u). ''User '' @ to_string (int i) @ '': '' @ user_u u @ ''.'') (zip [0..<length us] us)) st))"

fun run_callback :: "callback \<Rightarrow> 'd cli_env \<Rightarrow> string list \<Rightarrow> ('c, 'd) cli \<Rightarrow> (bool \<times> string list \<times> ('c, 'd) cli) outcome" where
  "run_callback CB_help env ws st = Ok (False, ws, cmd_help st)"
| "run_callback CB_stop env ws st = cmd_stop env ws st"
| "run_callback CB_uptime env ws st = Ok (False, ws, say [ce_uptime env] st)"
| "run_callback CB_addusr env ws st = obind (cmd_addusr env ws st) (\<lambda>(ws, st). Ok (False, ws, st))"
| "run_callback CB_delusr env ws st = obind (cmd_delusr env ws st) (\<lambda>(ws, st). Ok (False, ws, st))"
| "run_callback CB_lstusr env ws st = obind (cmd_lstusr env st) (\<lambda>st. Ok (False, ws, st))"

definition Command_Run :: "cli_command \<Rightarrow> 'd cli_env \<Rightarrow> string list \<Rightarrow> ('c, 'd) cli \<Rightarrow> (bool \<times> string list \<times> ('c, 'd) cli) outcome" where
  "Command_Run c env ws st = (case to_run c of None \<Rightarrow> Ok (False, ws, st) | Some cb \<Rightarrow> run_callback cb env ws st)"

section \<open>The loop\<close>

definition suggestion :: "string \<Rightarrow> string \<Rightarrow> string list" where
  "suggestion w c = [''Could not find command '' @ w @ ''.'', ''Did you mean '' @ quoted c @ ''?'',
     ''Type '' @ quoted ''help'' @ '' to see the valid commands.'']"

definition not_found :: "'d cli_env \<Rightarrow> string \<Rightarrow> ('c, 'd) cli \<Rightarrow> ('c, 'd) cli outcome" where
  "not_found env w st =
     obind (Closest (ce_heap env) w (cli_reg st)) (\<lambda>r.
       case r of None \<Rightarrow> Fault NullPointer
       | Some c \<Rightarrow> Ok (say (suggestion w (cmd_name c)) st))"

text \<open>\<open>spin n\<close> is the loop of \<^verbatim>\<open>Spin\<close> for \<open>n\<close> rounds: \<open>Inl\<close> when it still runs, \<open>Inr\<close> when it has ended.\<close>

fun spin :: "nat \<Rightarrow> 'd cli_env \<Rightarrow> string \<Rightarrow> string list \<Rightarrow> ('c, 'd) cli \<Rightarrow> (('c, 'd) cli + ('c, 'd) cli) outcome" where
  "spin 0 env w ws st = Ok (Inl st)"
| "spin (Suc n) env w ws st =
     (let (w, ws) = cin_read w ws in
      case Command_Get w (cli_reg st) of
        Some c \<Rightarrow> obind (Command_Run c env ws st) (\<lambda>(brk, ws, st). if brk then Ok (Inr st) else spin n env w ws st)
      | None \<Rightarrow> obind (not_found env w st) (spin n env w ws))"

definition Spin :: "nat \<Rightarrow> 'd cli_env \<Rightarrow> string list \<Rightarrow> ('c, 'd) cli \<Rightarrow> (('c, 'd) cli + ('c, 'd) cli) outcome" where
  "Spin n env ws st = spin n env [] ws (st\<lparr>cli_reg := CommandRegistry (cli_reg st)\<rparr>)"

section \<open>What the console does\<close>

definition the_commands :: "(string \<times> callback) list" where
  "the_commands = [(''addusr'', CB_addusr), (''delusr'', CB_delusr), (''help'', CB_help), (''lstusr'', CB_lstusr), (''stop'', CB_stop), (''uptime'', CB_uptime)]"

lemma registry_names: "map fst (CommandRegistry []) = map fst the_commands"
  by code_simp

lemma registry_ok: "reg_ok (CommandRegistry [])"
  unfolding CommandRegistry_def by (intro register_ok) (simp add: reg_ok_def)

lemma Command_Get_empty: "Command_Get n [] = None"
  by (simp add: Command_Get_def)

lemma registry_get: "(n, cb) \<in> set the_commands \<Longrightarrow> \<exists>h. Command_Get n (CommandRegistry []) = Some \<lparr>cmd_name = n, help_string = h, to_run = Some cb\<rparr>"
  unfolding the_commands_def CommandRegistry_def by (auto simp: register_get Command_Get_empty)

lemma registry_unknown: "Command_Get w (CommandRegistry []) = None \<longleftrightarrow> w \<notin> fst ` set the_commands"
  using registry_names by (simp add: Command_Get_def map_of_eq_None_iff flip: set_map)

definition word_distance :: "string \<Rightarrow> string \<Rightarrow> int" where
  "word_distance w n = int (length n - length w + differs w n (length w))"

lemma closest_loop_long:
  assumes "\<And>n. length (heap n) = n" "\<forall>p \<in> set reg. cmd_name (snd p) \<noteq> []" "\<exists>p \<in> set reg. length (cmd_name (snd p)) < length w"
  shows "closest_loop heap w reg mn best = Fault OutOfBounds"
  using assms(2,3)
proof (induction reg arbitrary: mn best)
  case Nil
  then show ?case by simp
next
  case (Cons p reg)
  let ?d = "LevenshteinDistance (heap ((length w + 1) * (length (cmd_name (snd p)) + 1))) w (cmd_name (snd p))"
  show ?case
  proof (cases "length (cmd_name (snd p)) < length w")
    case True
    then have "?d = Fault OutOfBounds" using Cons.prems(1) assms(1) by (intro Levenshtein_long) auto
    then show ?thesis by simp
  next
    case False
    then have "?d = Ok (word_distance w (cmd_name (snd p)))" using assms(1) by (subst Levenshtein_short) (auto simp: word_distance_def)
    then show ?thesis using Cons False by auto
  qed
qed

definition nearest :: "string \<Rightarrow> int \<Rightarrow> cli_command option \<Rightarrow> cmd_reg \<Rightarrow> cli_command \<Rightarrow> bool" where
  "nearest w mn best reg c \<longleftrightarrow> c \<in> snd ` set reg \<union> set_option best \<and> word_distance w (cmd_name c) \<le> mn
     \<and> (\<forall>p \<in> set reg. word_distance w (cmd_name c) \<le> word_distance w (cmd_name (snd p)))"

lemma closest_loop_short:
  assumes "\<And>n. length (heap n) = n" "\<forall>p \<in> set reg. length w \<le> length (cmd_name (snd p))"
    and "best = None \<longrightarrow> (\<exists>p \<in> set reg. word_distance w (cmd_name (snd p)) < mn)" "\<forall>b. best = Some b \<longrightarrow> word_distance w (cmd_name b) = mn"
  shows "\<exists>c. closest_loop heap w reg mn best = Ok (Some c) \<and> nearest w mn best reg c"
  using assms(2-4)
proof (induction reg arbitrary: mn best)
  case Nil
  then show ?case by (cases best) (auto simp: nearest_def)
next
  case (Cons p reg)
  let ?l = "word_distance w (cmd_name (snd p))"
  have d: "LevenshteinDistance (heap ((length w + 1) * (length (cmd_name (snd p)) + 1))) w (cmd_name (snd p)) = Ok ?l"
    using assms(1) Cons.prems(1) by (subst Levenshtein_short) (auto simp: word_distance_def)
  show ?case
  proof (cases "?l < mn")
    case True
    have "\<exists>c. closest_loop heap w reg ?l (Some (snd p)) = Ok (Some c) \<and> nearest w ?l (Some (snd p)) reg c"
      by (rule Cons.IH) (use Cons.prems(1) in auto)
    then obtain c where c: "closest_loop heap w reg ?l (Some (snd p)) = Ok (Some c)" "nearest w ?l (Some (snd p)) reg c" by blast
    have "closest_loop heap w (p # reg) mn best = Ok (Some c)" using True d c(1) by simp
    moreover have "nearest w mn best (p # reg) c" using c(2) True by (auto simp: nearest_def)
    ultimately show ?thesis by blast
  next
    case False
    have "\<exists>c. closest_loop heap w reg mn best = Ok (Some c) \<and> nearest w mn best reg c"
      by (rule Cons.IH) (use Cons.prems False in auto)
    then obtain c where c: "closest_loop heap w reg mn best = Ok (Some c)" "nearest w mn best reg c" by blast
    have "closest_loop heap w (p # reg) mn best = Ok (Some c)" using False d c(1) by simp
    moreover have "nearest w mn best (p # reg) c" using c(2) False by (auto simp: nearest_def)
    ultimately show ?thesis by blast
  qed
qed

lemma registry_entries:
  assumes "p \<in> set (CommandRegistry [])"
  shows "cmd_name (snd p) \<in> fst ` set the_commands"
proof -
  have "fst p \<in> set (map fst (CommandRegistry []))" using assms by simp
  then show ?thesis using assms registry_ok unfolding registry_names by (simp add: reg_ok_def)
qed

lemma registry_member: "n \<in> fst ` set the_commands \<Longrightarrow> \<exists>p \<in> set (CommandRegistry []). cmd_name (snd p) = n"
proof -
  assume "n \<in> fst ` set the_commands"
  then have "n \<in> set (map fst (CommandRegistry []))" unfolding registry_names by simp
  then obtain p where "p \<in> set (CommandRegistry [])" "fst p = n" by auto
  then show ?thesis using registry_ok by (auto simp: reg_ok_def)
qed

text \<open>
  C40. A word that is no command gets a suggestion only when it is short: up to four characters, the length of the shortest
  command, it is answered with a registered command at minimal distance. A longer one makes the search read past the end
  of a command name.
\<close>

theorem mistyped_command:
  assumes "\<And>n. length (ce_heap env n) = n" and "cli_reg st = CommandRegistry []" and "w \<notin> fst ` set the_commands"
  shows "(4 < length w \<longrightarrow> spin (Suc n) env w' (w # ws) st = Fault OutOfBounds)
    \<and> (length w \<le> 4 \<longrightarrow> (\<exists>c \<in> fst ` set the_commands. not_found env w st = Ok (say (suggestion w c) st)
        \<and> (\<forall>c' \<in> fst ` set the_commands. word_distance w c \<le> word_distance w c')))"
proof -
  let ?reg = "CommandRegistry []"
  have ne: "\<forall>p \<in> set ?reg. cmd_name (snd p) \<noteq> []" using registry_entries by (fastforce simp: the_commands_def)
  have g: "Command_Get w ?reg = None" using assms(3) registry_unknown by blast
  obtain h where h: "h \<in> set ?reg" "cmd_name (snd h) = ''help''" using registry_member [of "''help''"] by (auto simp: the_commands_def)
  have long: "Closest (ce_heap env) w ?reg = Fault OutOfBounds" if "4 < length w"
    unfolding Closest_def using h that by (intro closest_loop_long assms(1) ne bexI [of _ h]) simp_all
  have "\<exists>c. closest_loop (ce_heap env) w ?reg 0xFFFFFF None = Ok (Some c) \<and> nearest w 0xFFFFFF None ?reg c" if "length w \<le> 4"
  proof (rule closest_loop_short)
    show "\<forall>p \<in> set ?reg. length w \<le> length (cmd_name (snd p))" using registry_entries that by (fastforce simp: the_commands_def)
    have "word_distance w ''help'' < 0xFFFFFF" using differs_le [of w "''help''" "length w"] that by (simp add: word_distance_def)
    then show "None = None \<longrightarrow> (\<exists>p \<in> set ?reg. word_distance w (cmd_name (snd p)) < 0xFFFFFF)"
      using h by (intro impI bexI [of _ h]) simp_all
  qed (simp_all add: assms(1))
  then obtain c where c: "length w \<le> 4 \<Longrightarrow> Closest (ce_heap env) w ?reg = Ok (Some c) \<and> nearest w 0xFFFFFF None ?reg c"
    unfolding Closest_def by blast
  have "cmd_name c \<in> fst ` set the_commands \<and> (\<forall>c' \<in> fst ` set the_commands. word_distance w (cmd_name c) \<le> word_distance w c')" if "length w \<le> 4"
  proof -
    from c [OF that] have m: "c \<in> snd ` set ?reg" "\<forall>p \<in> set ?reg. word_distance w (cmd_name c) \<le> word_distance w (cmd_name (snd p))"
      by (auto simp: nearest_def)
    from m(1) obtain p where "p \<in> set ?reg" "c = snd p" by auto
    moreover have "word_distance w (cmd_name c) \<le> word_distance w c'" if "c' \<in> fst ` set the_commands" for c'
      using registry_member [OF that] m(2) by auto
    ultimately show ?thesis using registry_entries by auto
  qed
  moreover have "not_found env w st = Ok (say (suggestion w (cmd_name c)) st)" if "length w \<le> 4"
    using c [OF that] assms(2) by (simp add: not_found_def)
  moreover have "spin (Suc n) env w' (w # ws) st = Fault OutOfBounds" if "4 < length w"
    using long [OF that] g assms(2) by (simp add: not_found_def)
  ultimately show ?thesis by blast
qed

lemma spin_help_at_end:
  assumes "cli_reg st = CommandRegistry []"
  shows "spin n env ''help'' [] st = Ok (Inl ((cmd_help ^^ n) st))"
  using assms
proof (induction n arbitrary: st)
  case 0
  then show ?case by simp
next
  case (Suc n)
  obtain h where g: "Command_Get ''help'' (CommandRegistry []) = Some \<lparr>cmd_name = ''help'', help_string = h, to_run = Some CB_help\<rparr>"
    using registry_get [of "''help''" CB_help] by (auto simp: the_commands_def)
  have "cli_reg (cmd_help st) = CommandRegistry []" using Suc.prems by (simp add: cmd_help_def say_def)
  then have "spin n env ''help'' [] (cmd_help st) = Ok (Inl ((cmd_help ^^ n) (cmd_help st)))" by (rule Suc.IH)
  then show ?case using g Suc.prems by (simp add: Command_Run_def funpow_swap1)
qed

text \<open>
  When the input of the console ends, the word of the last command stays in the string that is read into, and the command is
  repeated without end: after one \<^verbatim>\<open>help\<close> the loop still runs after any number of rounds, each of which has printed the
  help again.
\<close>

theorem console_repeats_last_command:
  assumes "cli_reg st = CommandRegistry []"
  shows "spin (Suc n) env w [''help''] st = Ok (Inl ((cmd_help ^^ Suc n) st))"
proof -
  obtain h where g: "Command_Get ''help'' (CommandRegistry []) = Some \<lparr>cmd_name = ''help'', help_string = h, to_run = Some CB_help\<rparr>"
    using registry_get [of "''help''" CB_help] by (auto simp: the_commands_def)
  have "cli_reg (cmd_help st) = CommandRegistry []" using assms by (simp add: cmd_help_def say_def)
  then show ?thesis using g assms spin_help_at_end [of "cmd_help st" n env] by (simp add: Command_Run_def funpow_swap1)
qed

lemma StopThread_now:
  assumes "server_inv s" "server_running s"
  shows "\<exists>s'. StopThread IMMEDIATE s = Ok s' \<and> \<not> server_running s' \<and> \<not> server_receive_thread s' \<and> \<not> server_send_thread s'"
  using assms by (auto simp: server_inv_def StopThread_def receive_exit_def Let_def)


text \<open>
  Adding a user from the console leaves the echo of the terminal on, whatever happens to the user, and touches the database
  only when the password was typed the same way twice.
\<close>

lemma addusr_console:
  assumes "cmd_addusr env (u # p # v # ws) st = Ok (ws', st')"
  shows "ws' = ws \<and> bit (cli_mode st') 2 \<and> cli_server st' = cli_server st \<and> (p \<noteq> v \<longrightarrow> cli_rdb st' = cli_rdb st)"
  using assms by (auto simp: cmd_addusr_def say_def Let_def echo_bit split: if_splits sum.splits elim!: obind_OkE)

definition sample_cli_env :: "mem_db cli_env" where
  "sample_cli_env = \<lparr>ce_sq = mem_sqlite, ce_SHA256 = (\<lambda>_. replicate 32 0), ce_p0 = replicate 32 0, ce_ip = ''10.0.0.2'', ce_uptime = ''[0d 0h 0m]'',
     ce_heap = (\<lambda>n. replicate n 0)\<rparr>"

definition sample_cli :: "nat server \<Rightarrow> (nat, mem_db) cli" where
  "sample_cli sv = \<lparr>cli_reg = CommandRegistry [], cli_server = sv, cli_rdb = mem_empty, cli_out = [], cli_mode = 7\<rparr>"

theorem mistyped_command_witness:
  "spin 1 sample_cli_env [] [''uptimes''] (sample_cli (server_init 4)) = Fault OutOfBounds
   \<and> (\<exists>c \<in> fst ` set the_commands. not_found sample_cli_env ''hel'' (sample_cli (server_init 4)) = Ok (say (suggestion ''hel'' c) (sample_cli (server_init 4))))"
  using mistyped_command [of sample_cli_env "sample_cli (server_init 4)" "''uptimes''" 0 "[]" "[]"]
    mistyped_command [of sample_cli_env "sample_cli (server_init 4)" "''hel''"]
  by (auto simp: sample_cli_env_def sample_cli_def the_commands_def)

definition served :: "nat server" where
  "served = (server_init 4)\<lparr>server_client_sock := 7, server_running := True, server_receive_thread := True, server_send_thread := True\<rparr>"


end
