(* ===== verification/Bench.thy ===== *)
theory Bench
  imports Containers Registry
begin

text \<open>
  The programs of \<^verbatim>\<open>custom_targets/src\<close> that are built beside the library: the split of a string, the precision test of the rotation
  stage and the two that try the acquisition driver. (The one that sets a data base up is in theory \<open>Store\<close>.)
\<close>

section \<open>string_test\<close>

text \<open>The lines it prints.\<close>

definition string_test :: "string list outcome" where
  "string_test =
     (let s = String_text ''this,is,a,comma,sepparated,string.'' in
      obind (split s (CHR '','')) (\<lambda>parts. obind (emplace_all parts Vector_new) (\<lambda>v. obind (vec_iterate v) (\<lambda>ws.
        Ok (c_str s # to_string (int (vec_size v)) # map c_str ws)))))"

lemma split_text: "sep \<noteq> NUL \<Longrightarrow> NUL \<notin> set t \<Longrightarrow> \<exists>parts. split (String_text t) sep = Ok parts \<and> map c_str parts = split_ref sep t"
  using split_loop_ref [of t sep 0 0] by (simp add: split_def String_text_def strlen_def cstr_id)

lemma split_ref_word: "sep \<notin> set w \<Longrightarrow> split_ref sep (w @ sep # t) = w # split_ref sep t" "sep \<notin> set w \<Longrightarrow> split_ref sep w = [w]"
  by (induction w) auto

lemma vec_size_list: "vec_inv v \<Longrightarrow> vec_size v = length (vec_list v)"
  by (cases "vdata v") (auto simp: vec_inv_def vec_list_def vec_size_def)

lemma string_test_lines:
  "string_test = Ok [''this,is,a,comma,sepparated,string.'', ''6'', ''this'', ''is'', ''a'', ''comma'', ''sepparated'', ''string.'']"
proof -
  let ?t = "''this,is,a,comma,sepparated,string.''" and ?ws = "[''this'', ''is'', ''a'', ''comma'', ''sepparated'', ''string.'']"
  have "split_ref (CHR '','') (''this'' @ CHR '','' # ''is'' @ CHR '','' # ''a'' @ CHR '','' # ''comma'' @ CHR '','' # ''sepparated'' @ CHR '','' # ''string.'') = ?ws"
    by (subst split_ref_word(1), simp)+ (subst split_ref_word(2), simp_all)
  then have ref: "split_ref (CHR '','') ?t = ?ws" by (simp only: append_Cons append_Nil)
  obtain parts where p: "split (String_text ?t) (CHR '','') = Ok parts" "map c_str parts = ?ws"
    using split_text [of "CHR '',''" ?t] unfolding ref by (auto simp del: split_ref.simps)
  have len: "length parts = 6" using arg_cong [OF p(2), of length] by simp
  obtain v where v: "emplace_all parts Vector_new = Ok v" "vec_inv v" "vec_list v = parts"
    using emplace_all_ok [of Vector_new parts] by auto
  have "c_str (String_text ?t) = ?t" by (simp add: cstr_def)
  moreover have "to_string (int (vec_size v)) = ''6''"
  proof -
    have "to_string 6 = ''6''" by code_simp
    then show ?thesis using vec_size_list [OF v(2)] len v(3) by simp
  qed
  ultimately show ?thesis
    unfolding string_test_def Let_def p(1) obind.simps v(1) vec_iterate_ok [OF v(2)] v(3) by (simp only: p(2))
qed

section \<open>enc_prec: precision of the rotation stage\<close>

text \<open>
  A remote call with a unit and a text of 512 characters. The type codes of the two arguments are generated by the build;
  \<^verbatim>\<open>UnitTarget::ESP301\<close> is 0.
\<close>

definition basic_string :: "string \<Rightarrow> string" where
  "basic_string s = s @ replicate (512 - length s) NUL"

definition command_request :: "u8 \<Rightarrow> u8 \<Rightarrow> u16 \<Rightarrow> bytes \<Rightarrow> string \<Rightarrow> (bytes \<times> nat) outcome" where
  "command_request unit_code text_code fc buffer cmd =
     GetDataFromParams buffer fc [(unit_code, put32 0), (text_code, map char_byte cmd)]"

text \<open>The texts that set the controller up, and the one of a measurement; \<open>fmt\<close> is \<^verbatim>\<open>std::to_string(float)\<close>.\<close>

definition poll_setup :: "bool \<Rightarrow> string list" where
  "poll_setup open_loop =
     [''2MO;2OR1;2WS;2AU2500;2VU40;2VA40;2FP6;2AU?'', if open_loop then ''2ZB5H;WT1000;2ZB?'' else ''2ZB301H;WT1000;2ZB?'']"

definition poll_command :: "('f \<Rightarrow> string) \<Rightarrow> 'f \<Rightarrow> string" where
  "poll_command fmt acc = ''2PA0;2WS;2AC'' @ fmt acc @ '';2AG'' @ fmt acc @ '';2PR360;2WS;2TP?''"

text \<open>
  The loop over \<^verbatim>\<open>j\<close>: \<open>rs\<close> are the positions that the controller will answer, \<open>data\<close> the five lists of results, of which
  \<^verbatim>\<open>at\<close> takes the one of the repetition.
\<close>

fun poll_inner :: "nat \<Rightarrow> nat \<Rightarrow> 'f list \<Rightarrow> 'f list list \<Rightarrow> ('f list \<times> 'f list list) outcome" where
  "poll_inner 0 i rs data = Ok (rs, data)"
| "poll_inner (Suc b) i [] data = Blocked"
| "poll_inner (Suc b) i (r # rs) data =
     (if i < length data then poll_inner b i rs (data[i := data ! i @ [r]]) else Fault OutOfRange)"

text \<open>The loop over \<^verbatim>\<open>i\<close>. The text is copied without a terminator over the uninitialised \<open>reqstr\<close>; \<open>sent\<close> are the texts of the requests.\<close>

fun poll_outer :: "('f::field \<Rightarrow> string) \<Rightarrow> string \<Rightarrow> 'f \<Rightarrow> 'f \<Rightarrow> nat \<Rightarrow> nat list \<Rightarrow> 'f list \<Rightarrow> 'f list list \<Rightarrow> string list \<Rightarrow> ('f list list \<times> string list) outcome" where
  "poll_outer fmt reqstr acc_min acc_step batch [] rs data sent = Ok (data, sent)"
| "poll_outer fmt reqstr acc_min acc_step batch (i # is) rs data sent =
     obind (memcpy_to reqstr 0 (poll_command fmt (acc_min + acc_step * of_nat i))) (\<lambda>req.
     obind (poll_inner batch i rs data) (\<lambda>(rs', data').
       poll_outer fmt reqstr acc_min acc_step batch is rs' data' (sent @ replicate batch req)))"

definition RunToWaitPoll :: "('f::field \<Rightarrow> string) \<Rightarrow> string \<Rightarrow> nat \<Rightarrow> nat \<Rightarrow> 'f \<Rightarrow> 'f \<Rightarrow> bool \<Rightarrow> 'f list \<Rightarrow> ('f list list \<times> string list) outcome" where
  "RunToWaitPoll fmt reqstr rep batch acc_min acc_max open_loop rs =
     obind (poll_outer fmt reqstr acc_min ((acc_max - acc_min) / of_nat rep) batch [0..<rep] rs (replicate 5 [])
              (map basic_string (poll_setup open_loop))) (\<lambda>(data, sent).
       Ok (data, if rep \<noteq> 0 then sent @ [basic_string ''2MF''] else sent))"

lemma poll_inner_ok:
  "i < length data \<Longrightarrow> b \<le> length rs \<Longrightarrow> poll_inner b i rs data = Ok (drop b rs, data[i := data ! i @ take b rs])"
proof (induction b i rs data rule: poll_inner.induct)
  case (3 b i r rs data)
  then show ?case by (simp add: list_update_overwrite)
qed simp_all

lemma poll_inner_out: "0 < b \<Longrightarrow> rs \<noteq> [] \<Longrightarrow> length data \<le> i \<Longrightarrow> poll_inner b i rs data = Fault OutOfRange"
  by (cases b; cases rs) simp_all

lemma poll_outer_ok:
  assumes "\<And>acc. length (poll_command fmt acc) \<le> length reqstr" "rep \<le> length data" "k \<le> rep" "(rep - k) * batch \<le> length rs"
  shows "\<exists>data' sent'. poll_outer fmt reqstr a st batch [k..<rep] rs data sent = Ok (data', sent')
    \<and> length data' = length data
    \<and> (\<forall>i<length data. data' ! i = (if k \<le> i \<and> i < rep then data ! i @ take batch (drop ((i - k) * batch) rs) else data ! i))"
  using assms(2-4)
proof (induction "rep - k" arbitrary: k rs data sent)
  case 0
  then have "rep = k" by simp
  then show ?case using 0 by auto
next
  case (Suc n)
  then have k: "k < rep" "[k..<rep] = k # [Suc k..<rep]" by (simp_all add: upt_conv_Cons)
  have "rep - k = Suc (rep - Suc k)" using k(1) by simp
  then have room: "batch + (rep - Suc k) * batch \<le> length rs" using Suc.prems(3) by simp
  then have b: "batch \<le> length rs" by simp
  let ?d = "data[k := data ! k @ take batch rs]" and ?req = "blit reqstr 0 (poll_command fmt (a + st * of_nat k))"
  have step: "poll_outer fmt reqstr a st batch [k..<rep] rs data sent
      = poll_outer fmt reqstr a st batch [Suc k..<rep] (drop batch rs) ?d (sent @ replicate batch ?req)"
    using poll_inner_ok [of k data batch rs] k b Suc.prems assms(1) by (simp add: memcpy_to_def)
  have "n = rep - Suc k" "(rep - Suc k) * batch \<le> length (drop batch rs)" "rep \<le> length ?d" using Suc.hyps(2) room Suc.prems by simp_all
  from Suc.hyps(1) [OF this(1) this(3) _ this(2), of "sent @ replicate batch ?req"] k(1)
  obtain data' sent' where r: "poll_outer fmt reqstr a st batch [Suc k..<rep] (drop batch rs) ?d (sent @ replicate batch ?req) = Ok (data', sent')"
    "length data' = length data"
    "\<forall>i<length data. data' ! i = (if Suc k \<le> i \<and> i < rep then ?d ! i @ take batch (drop ((i - Suc k) * batch) (drop batch rs)) else ?d ! i)"
    by auto
  have "data' ! i = (if k \<le> i \<and> i < rep then data ! i @ take batch (drop ((i - k) * batch) rs) else data ! i)" if "i < length data" for i
  proof (cases "Suc k \<le> i")
    case True
    then have "(i - k) * batch = (i - Suc k) * batch + batch" by (metis Suc_diff_Suc Suc_le_eq add.commute mult_Suc)
    then show ?thesis using r(3) that True by auto
  next
    case False
    then consider "i = k" | "i < k" by linarith
    then show ?thesis using r(3) that k(1) by cases simp_all
  qed
  then show ?case using step r by auto
qed

text \<open>
  With at most five repetitions the precision test collects, for each of them, the positions of its batch in order; with more it ends in the
  exception of \<^verbatim>\<open>data.at\<close> at the sixth, and \<^verbatim>\<open>main\<close> asks for ten.
\<close>

theorem precision_test:
  assumes "\<And>acc. length (poll_command fmt acc) \<le> length reqstr" "0 < batch" "rep * batch \<le> length rs"
  shows "rep \<le> 5 \<Longrightarrow> \<exists>data sent. RunToWaitPoll fmt reqstr rep batch lo hi open_loop rs = Ok (data, sent)
      \<and> (\<forall>i<rep. data ! i = take batch (drop (i * batch) rs))"
    and "5 < rep \<Longrightarrow> RunToWaitPoll fmt reqstr rep batch lo hi open_loop rs = Fault OutOfRange"
proof -
  let ?st = "(hi - lo) / of_nat rep" and ?d = "replicate 5 ([] :: 'a list)"
  { assume "rep \<le> 5"
    then show "\<exists>data sent. RunToWaitPoll fmt reqstr rep batch lo hi open_loop rs = Ok (data, sent)
        \<and> (\<forall>i<rep. data ! i = take batch (drop (i * batch) rs))"
      using poll_outer_ok [where fmt = fmt and reqstr = reqstr and rep = rep and data = ?d and k = 0 and batch = batch and rs = rs
          and a = lo and st = ?st and sent = "map basic_string (poll_setup open_loop)", OF assms(1)] assms(3)
      by (auto simp: RunToWaitPoll_def) }
  { assume r: "5 < rep"
    then have up: "[0..<rep] = [0..<5] @ 5 # [6..<rep]"
      using upt_add_eq_append [of 0 5 "rep - 5"] upt_conv_Cons [of 5 rep] by simp
    have split: "poll_outer fmt reqstr a st batch (xs @ ys) rs data sent = obind (poll_outer fmt reqstr a st batch xs rs data sent)
        (\<lambda>(d, s). poll_outer fmt reqstr a st batch ys (drop (length xs * batch) rs) d s)"
      if "length xs * batch \<le> length rs" "\<forall>i\<in>set xs. i < length data" for a st xs ys rs data sent
      using that
    proof (induction xs arbitrary: rs data sent)
      case (Cons x xs)
      have b: "batch + length xs * batch \<le> length rs" using Cons.prems by simp
      then show ?case
        using Cons.prems assms(1) poll_inner_ok [of x data batch rs] Cons.IH [of "drop batch rs"]
        by (simp add: memcpy_to_def add.commute)
    qed simp
    have "5 * batch < length rs"
    proof -
      have "6 * batch \<le> rep * batch" using r by (intro mult_le_mono1) simp
      then show ?thesis using assms(2,3) by linarith
    qed
    then have nz: "drop (5 * batch) rs \<noteq> []" by simp
    obtain data sent where d: "poll_outer fmt reqstr lo ?st batch [0..<5] rs ?d (map basic_string (poll_setup open_loop)) = Ok (data, sent)"
      "length data = 5"
      using poll_outer_ok [where fmt = fmt and reqstr = reqstr and rep = 5 and data = ?d and k = 0 and batch = batch and rs = rs
          and a = lo and st = ?st and sent = "map basic_string (poll_setup open_loop)", OF assms(1)] \<open>5 * batch < length rs\<close> by auto
    have "poll_outer fmt reqstr lo ?st batch [0..<rep] rs ?d (map basic_string (poll_setup open_loop)) = Fault OutOfRange"
      unfolding up using split [of "[0..<5]" rs ?d lo ?st "5 # [6..<rep]" "map basic_string (poll_setup open_loop)"]
        \<open>5 * batch < length rs\<close> d poll_inner_out [OF assms(2) nz, of data 5] assms(1)
      by (simp add: memcpy_to_def)
    then show "RunToWaitPoll fmt reqstr rep batch lo hi open_loop rs = Fault OutOfRange" by (simp add: RunToWaitPoll_def) }
qed

text \<open>The text that reaches the controller runs on into whatever the array held behind it.\<close>

lemma unterminated_command:
  assumes "length cmd < length reqstr" "NUL \<notin> set cmd" "memcpy_to reqstr 0 cmd = Ok req"
  shows "cstr req = cmd \<longleftrightarrow> reqstr ! length cmd = NUL"
proof -
  have req: "req = cmd @ drop (length cmd) reqstr" using assms by (simp add: memcpy_to_def blit_def split: if_splits)
  have d: "drop (length cmd) reqstr = reqstr ! length cmd # drop (Suc (length cmd)) reqstr" using assms(1) by (simp add: Cons_nth_drop_Suc)
  show ?thesis
  proof (cases "reqstr ! length cmd = NUL")
    case True
    then show ?thesis using req d assms(2) by simp
  next
    case False
    have "cstr req = cmd @ cstr (drop (length cmd) reqstr)" unfolding req cstr_def using assms(2) by (subst takeWhile_append2) auto
    then show ?thesis using False d by (simp add: cstr_def)
  qed
qed

text \<open>A request of the test needs 520 of the 1024 bytes of its buffer.\<close>

lemma command_request_fits:
  assumes "length cmd = 512" "length buffer = 1024"
  shows "\<exists>b. command_request ta tb fc buffer cmd = Ok (b, 520)"
  using GetDataFromParams_ok [of fc "[(ta, put32 0), (tb, map char_byte cmd)]" buffer] assms
  by (auto simp: command_request_def enc_call_def enc_arg_def)

text \<open>
  \<^verbatim>\<open>RunRelativeIncrement\<close>: the first text goes out without a wait, then every key that is not the stop key repeats the step. \<open>printf\<close> is \<^verbatim>\<open>%f\<close>. At
  the end of the input \<^verbatim>\<open>cin.get\<close> leaves \<^verbatim>\<open>s\<close> as it was and the loop repeats it.
\<close>

definition increment_start :: "('f \<Rightarrow> string) \<Rightarrow> ('f \<Rightarrow> string) \<Rightarrow> 'f \<Rightarrow> 'f \<Rightarrow> string" where
  "increment_start fmt printf start acc = ''2AC'' @ fmt acc @ '';2AG'' @ fmt acc @ '';'' @ ''2PA'' @ printf start @ '';2WS''"

definition increment_step :: "('f \<Rightarrow> string) \<Rightarrow> 'f \<Rightarrow> string" where
  "increment_step printf st = ''2PR'' @ printf st @ '';2WS;2TP?''"

fun increment_loop :: "char \<Rightarrow> string \<Rightarrow> string \<Rightarrow> string list \<Rightarrow> string list outcome" where
  "increment_loop stop_key req [] sent = Blocked"
| "increment_loop stop_key req (k # ks) sent = (if k \<noteq> stop_key then increment_loop stop_key req ks (sent @ [req]) else Ok sent)"

definition RunRelativeIncrement :: "('f \<Rightarrow> string) \<Rightarrow> ('f \<Rightarrow> string) \<Rightarrow> string \<Rightarrow> 'f \<Rightarrow> 'f \<Rightarrow> 'f \<Rightarrow> char \<Rightarrow> string \<Rightarrow> string list outcome" where
  "RunRelativeIncrement fmt printf reqstr start st acc stop_key keys =
     obind (memcpy_to reqstr 0 (increment_start fmt printf start acc)) (\<lambda>first.
       increment_loop stop_key (basic_string (increment_step printf st)) keys [first])"

lemma increment_loop_keys:
  "stop_key \<notin> set ks \<Longrightarrow> increment_loop stop_key req (ks @ stop_key # rest) sent = Ok (sent @ replicate (length ks) req)"
  by (induction ks arbitrary: sent) auto

section \<open>ci_daq_test and local_daq_test\<close>

text \<open>
  Both programs call the driver until a call fails and then stop and clear the tasks whose handle is not 0. A call is the creation of a
  task or anything else; \<open>err n\<close> is the code that the \<open>n\<close>-th call returns.
\<close>

datatype tcall = TCreate nat string | TCall nat string

fun until_error :: "(nat \<Rightarrow> int) \<Rightarrow> nat \<Rightarrow> tcall list \<Rightarrow> nat list \<Rightarrow> bool \<times> nat list" where
  "until_error err n [] created = (True, created)"
| "until_error err n (c # cs) created =
     (if err n < 0 then (False, created)
      else until_error err (n + 1) cs (case c of TCreate h _ \<Rightarrow> created @ [h] | TCall _ _ \<Rightarrow> created))"

definition ci_setup :: "tcall list" where
  "ci_setup = [TCreate 1 ''L2'', TCall 1 ''CreateCICountEdgesChan'', TCall 1 ''CfgSampClkTiming'', TCreate 2 ''L'',
     TCall 2 ''CreateCOPulseChanFreq'', TCall 2 ''CfgImplicitTiming'', TCall 1 ''StartTask'', TCall 2 ''StartTask'']"

text \<open>The endless loop of reads, which only an error ends; \<open>Blocked\<close> is a program that is still reading.\<close>

fun ci_reads :: "int list \<Rightarrow> unit outcome" where
  "ci_reads [] = Blocked"
| "ci_reads (e # es) = (if e < 0 then Ok () else ci_reads es)"

text \<open>The tasks that are stopped and cleared at the end.\<close>

definition ci_main :: "(nat \<Rightarrow> int) \<Rightarrow> int list \<Rightarrow> nat list outcome" where
  "ci_main err reads =
     (let (ok, created) = until_error err 0 ci_setup [] in
      obind (if ok then ci_reads reads else Ok ()) (\<lambda>_.
        Ok ((if 1 \<in> set created then [1] else []) @ (if 2 \<in> set created then [2] else []))))"

lemma until_error_created: "set (snd (until_error err n cs created)) \<subseteq> set created \<union> {h. \<exists>nm. TCreate h nm \<in> set cs}"
proof (induction cs arbitrary: n created)
  case (Cons c cs)
  show ?case
  proof (cases c)
    case (TCreate h nm)
    then show ?thesis using Cons [of "n + 1" "created @ [h]"] by auto
  next
    case (TCall h nm)
    then show ?thesis using Cons [of "n + 1" created] by auto
  qed
qed simp

text \<open>Whichever call fails, every task that was created is cleared once at the end, and no other.\<close>

lemma ci_clears_created:
  assumes "ci_main err reads = Ok cleared"
  shows "distinct cleared \<and> set cleared = set (snd (until_error err 0 ci_setup []))"
proof -
  obtain ok created where u: "until_error err 0 ci_setup [] = (ok, created)" by (cases "until_error err 0 ci_setup []")
  have sub: "set created \<subseteq> {1, 2}"
    using until_error_created [of err 0 ci_setup "[]"] u by (auto simp: ci_setup_def)
  have cl: "cleared = (if 1 \<in> set created then [1] else []) @ (if 2 \<in> set created then [2] else [])"
    using assms by (auto simp: ci_main_def u outcome_simps)
  have "set cleared = set created" using sub unfolding cl by (cases "1 \<in> set created"; cases "2 \<in> set created"; fastforce)
  then show ?thesis using cl by (simp add: u)
qed

definition ai_setup :: "tcall list" where
  "ai_setup = [TCreate 1 [], TCall 1 ''CreateAIVoltageChan'', TCall 1 ''CreateAIVoltageChan'', TCall 1 ''CfgSampClkTiming'',
     TCall 1 ''RegisterEveryNSamplesEvent'', TCall 1 ''RegisterDoneEvent'', TCall 1 ''StartTask'']"

text \<open>
  The callback of every 500 samples: the codes and counts of its read, what it prints, and whether it cleared the task. At most 1000 values
  are written to an array of 2000 zeros.
\<close>

definition EveryNCallback :: "int \<Rightarrow> 'f::zero list \<Rightarrow> int \<Rightarrow> ('f \<times> 'f) option \<times> bool" where
  "EveryNCallback e samples count =
     (let data = samples @ replicate (2000 - length samples) 0
      in if e < 0 then (None, True) else (if 0 < count then Some (data ! 0, data ! 700) else None, False))"

definition DoneCallback :: "int \<Rightarrow> bool" where
  "DoneCallback status \<longleftrightarrow> status < 0"

text \<open>The clear calls of a run; \<open>failed\<close> are the callbacks that cleared the task while the main thread waited for a key.\<close>

definition local_main :: "(nat \<Rightarrow> int) \<Rightarrow> bool list \<Rightarrow> nat list" where
  "local_main err failed =
     (let (ok, created) = until_error err 0 ai_setup [] in
      (if ok then map (\<lambda>_. 1) (filter id failed) else []) @ (if 1 \<in> set created then [1] else []))"

text \<open>A callback that fails clears the task, and the main thread clears it again.\<close>

lemma local_clears_twice:
  assumes "\<And>n. 0 \<le> err n" "fst (EveryNCallback e samples 0) = None" "snd (EveryNCallback e (samples :: int list) 0)"
  shows "local_main err [snd (EveryNCallback e samples 0)] = [1, 1]"
  using assms by (simp add: local_main_def ai_setup_def not_less)

end
