(* ===== verification/Programs.thy ===== *)
theory Programs
  imports Bench PidMotion
begin

text \<open>
  The programs of \<^verbatim>\<open>custom_targets/src\<close> that call the motion and encoder operations in turn: \<^verbatim>\<open>pid_test\<close>, \<^verbatim>\<open>eib_test\<close> and the main of
  \<^verbatim>\<open>enc_prec\<close>.
\<close>

section \<open>pid_test\<close>

text \<open>The commands that prepare the group, and the parameters of its controller.\<close>

definition pid_test_setup :: "string list" where
  "pid_test_setup = [''GroupKill(Group4)'', ''GroupInitialize(Group4)'', ''GroupHomeSearch(Group4)'']"

definition pid_test_group :: string where
  "pid_test_group = basic_string ''Group4''"

definition pid_test_params :: "'f::linordered_field motion \<Rightarrow> 'f motion" where
  "pid_test_params = SetPIDControlVariables XPSRLD4 pid_test_group 2 (- 9 / 10) 0 0"

text \<open>
  A round: the controller with which the motion under way has ended before it, if it has, the target that is typed and the character
  after it. The result has the targets for which a motion was started. The end of the rounds is a program that waits for its input.
\<close>

fun pid_test_loop :: "('f PID option \<times> 'f \<times> char) list \<Rightarrow> 'f motion \<Rightarrow> 'f list \<Rightarrow> ('f list \<times> 'f motion) outcome" where
  "pid_test_loop [] m started = Blocked"
| "pid_test_loop ((fin, deg, quit) # rs) m started =
     (let m = (case fin of None \<Rightarrow> m | Some pid \<Rightarrow> move_finished XPSRLD4 pid_test_group pid m);
          (r, m) = MoveAbsolutePID XPSRLD4 pid_test_group m;
          started = (case r of Started _ \<Rightarrow> started @ [deg] | _ \<Rightarrow> started)
      in if quit \<noteq> CHR ''y'' then pid_test_loop rs m started else Ok (started, m))"

definition pid_test :: "('f::linordered_field PID option \<times> 'f \<times> char) list \<Rightarrow> 'f motion \<Rightarrow> ('f list \<times> 'f motion) outcome" where
  "pid_test rs m = pid_test_loop rs (pid_test_params m) []"

definition pid_test_ready :: "bool \<Rightarrow> 'f motion \<Rightarrow> bool" where
  "pid_test_ready busy m \<longleftrightarrow> (\<exists>p. pid_targets m (target_id XPSRLD4 pid_test_group) = Some p \<and> pp_ax p = 2)
     \<and> pid_targets_working m (target_id XPSRLD4 pid_test_group) = Some busy"

lemma pid_test_move:
  assumes "pid_test_ready busy m"
  shows "\<exists>p m'. MoveAbsolutePID XPSRLD4 pid_test_group m = (if busy then InProgress else Started p, m') \<and> pid_test_ready True m'"
proof -
  obtain p where p: "pid_targets m (target_id XPSRLD4 pid_test_group) = Some p" "pp_ax p = 2"
    "pid_targets_working m (target_id XPSRLD4 pid_test_group) = Some busy"
    using assms by (auto simp: pid_test_ready_def)
  then show ?thesis
    by (cases busy) (auto simp: MoveAbsolutePID_def MoveAbsolutePIDChanged_def pid_test_ready_def)
qed

lemma pid_test_finished: "pid_test_ready busy m \<Longrightarrow> pid_test_ready False (move_finished XPSRLD4 pid_test_group pid m)"
  by (auto simp: pid_test_ready_def move_finished_def MoveAbsolutePIDChanged_def Let_def)

lemma pid_test_next:
  assumes "pid_test_ready True m"
  shows "\<exists>m'. MoveAbsolutePID XPSRLD4 pid_test_group m = (InProgress, m') \<and> pid_test_ready True m'"
    and "\<exists>p m'. MoveAbsolutePID XPSRLD4 pid_test_group (move_finished XPSRLD4 pid_test_group pid m) = (Started p, m') \<and> pid_test_ready True m'"
  using pid_test_move [OF assms] pid_test_move [OF pid_test_finished [OF assms, of pid]] by simp_all

lemma pid_test_loop_started:
  assumes "pid_test_ready True m" "\<forall>(fin, t, q)\<in>set rs. q \<noteq> CHR ''y''" "q = CHR ''y''"
  shows "\<exists>m'. pid_test_loop (rs @ [(fin, t, q)]) m started
    = Ok (started @ map (\<lambda>(fin, t, q). t) (filter (\<lambda>(fin, t, q). fin \<noteq> None) (rs @ [(fin, t, q)])), m')"
  using assms(1,2)
proof (induction rs arbitrary: m started)
  case Nil
  show ?case
  proof (cases fin)
    case None
    then show ?thesis using pid_test_next(1) [OF Nil(1)] assms(3) by auto
  next
    case (Some pid)
    then show ?thesis using pid_test_next(2) [OF Nil(1), of pid] assms(3) by auto
  qed
next
  case (Cons r rs)
  obtain fin1 t1 q1 where r: "r = (fin1, t1, q1)" by (cases r)
  have rs: "q1 \<noteq> CHR ''y''" "\<forall>(fin, t, q)\<in>set rs. q \<noteq> CHR ''y''" using Cons.prems(2) r by auto
  show ?case
  proof (cases fin1)
    case None
    obtain m' where m': "MoveAbsolutePID XPSRLD4 pid_test_group m = (InProgress, m')" "pid_test_ready True m'"
      using pid_test_next(1) [OF Cons.prems(1)] by blast
    show ?thesis using Cons.IH [OF m'(2) rs(2), of started] r None m'(1) rs(1) by simp
  next
    case (Some pid)
    obtain p m' where m': "MoveAbsolutePID XPSRLD4 pid_test_group (move_finished XPSRLD4 pid_test_group pid m) = (Started p, m')"
      "pid_test_ready True m'"
      using pid_test_next(2) [OF Cons.prems(1)] by blast
    show ?thesis using Cons.IH [OF m'(2) rs(2), of "started @ [t1]"] r Some m'(1) rs(1) by simp
  qed
qed

text \<open>
  The first target starts a motion. A later one starts one exactly when the motion under way has ended before it was typed; any other is
  dropped without a word to the user.
\<close>

lemma pid_test_targets:
  assumes "\<forall>(fin, t, q)\<in>set rs. q \<noteq> CHR ''y''" "q1 \<noteq> CHR ''y''" "q = CHR ''y''"
  shows "\<exists>m'. pid_test ((None, t1, q1) # rs @ [(fin, t, q)]) m
    = Ok (t1 # map (\<lambda>(fin, t, q). t) (filter (\<lambda>(fin, t, q). fin \<noteq> None) (rs @ [(fin, t, q)])), m')"
proof -
  have "pid_test_ready False (pid_test_params m)"
    by (simp add: pid_test_ready_def pid_test_params_def SetPIDControlVariables_def PIDParams_new_def)
  from pid_test_move [OF this]
  obtain p m' where m': "MoveAbsolutePID XPSRLD4 pid_test_group (pid_test_params m) = (Started p, m')" "pid_test_ready True m'" by auto
  then show ?thesis using pid_test_loop_started [OF m'(2) assms(1,3), of fin t "[t1]"] assms(2) by (simp add: pid_test_def)
qed

section \<open>eib_test\<close>

text \<open>
  The loop prints the number of axes of the last value and, from a second look, the position of the axis at index 1. A round is the
  state that the first and the second look find, and the key.
\<close>

fun eib_test_loop :: "'f EncoderData \<Rightarrow> 'f EncoderData \<Rightarrow> (('f, 'd) encoder \<times> ('f, 'd) encoder \<times> char) list \<Rightarrow> (i8 \<times> 'f) list
    \<Rightarrow> (i8 \<times> 'f) list outcome" where
  "eib_test_loop junk zero [] printed = Blocked"
| "eib_test_loop junk zero ((s1, s2, key) # rs) printed =
     obind (InspectLastEncoderValues junk zero s1) (\<lambda>a.
     obind (InspectLastEncoderValues junk zero s2) (\<lambda>b.
     obind (read_at (axis_data b) 1) (\<lambda>x.
       if key = CHR ''s'' then Ok (printed @ [(numAxis a, calpos x)])
       else eib_test_loop junk zero rs (printed @ [(numAxis a, calpos x)]))))"

definition eib_test :: "(eib_call \<Rightarrow> bool) \<Rightarrow> u32 \<Rightarrow> u32 \<Rightarrow> u32 \<Rightarrow> eib_state \<times> ('f, 'd) encoder \<Rightarrow> 'f EncoderData \<Rightarrow> 'f EncoderData
    \<Rightarrow> (('f, 'd) encoder \<times> ('f, 'd) encoder \<times> char) list \<Rightarrow> ((i8 \<times> 'f) list \<times> eib_state) outcome" where
  "eib_test err numAxes timestampTicks timerTicks s junk zero rounds =
     obind (ENC_Init err numAxes timestampTicks timerTicks 10 s) (\<lambda>s.
     obind (eib_test_loop junk zero rounds []) (\<lambda>printed. Ok (printed, fst (ENC_Terminate s))))"

text \<open>Before the first value arrives the position that is printed is that of an uninitialised object.\<close>

lemma eib_test_uninitialised:
  assumes "\<not> 0 < sint (smq_size (enc_queue s))" "length (axis_data junk) = 4"
  shows "eib_test_loop junk zero [(s, s, CHR ''s'')] [] = Ok [(0, calpos (axis_data junk ! 1))]"
  using assms by (simp add: InspectLastEncoderValues_def read_at_def)

text \<open>However the set-up ends, the program ends with the trigger off and the device closed.\<close>

lemma eib_test_closes:
  assumes "eib_test err numAxes timestampTicks timerTicks s junk zero rounds = Ok (printed, d)"
  shows "\<exists>before. eib_calls d = before @ [TriggerDisable, TriggerDisable, SelectMode_Polling, Close]"
  using assms
  by (auto simp: eib_test_def ENC_Terminate_def StopEIB7SoftModeTrigger_def DeleteEIB7Encoder_def outcome_simps split: prod.splits)

section \<open>The main of enc_prec\<close>

text \<open>
  The texts of the commands that are sent after a successful connection; \<open>positions\<close> are what the controller will answer, \<open>keys\<close> what the
  user will type.
\<close>

definition enc_prec_main :: "('f::field \<Rightarrow> string) \<Rightarrow> ('f \<Rightarrow> string) \<Rightarrow> string \<Rightarrow> string \<Rightarrow> bool \<Rightarrow> 'f list \<Rightarrow> string \<Rightarrow> string list outcome" where
  "enc_prec_main fmt printf reqstr reqstr2 valid positions keys =
     (if valid then
        obind (RunToWaitPoll fmt reqstr 10 10 20 200 False positions) (\<lambda>(_, sent).
        obind (RunRelativeIncrement fmt printf reqstr2 0 1 25 (CHR ''s'') keys) (\<lambda>sent'. Ok (sent @ sent')))
      else Ok [])"

text \<open>
  The increments are never reached: the precision test that goes before them asks for ten repetitions and ends the program by the
  exception of \<^verbatim>\<open>data.at\<close>.
\<close>

lemma enc_prec_ends_early:
  assumes "\<And>acc. length (poll_command fmt acc) \<le> length reqstr" "100 \<le> length positions"
  shows "enc_prec_main fmt printf reqstr reqstr2 True positions keys = Fault OutOfRange"
  using precision_test(2) [where fmt = fmt and reqstr = reqstr and batch = 10 and rep = 10 and rs = positions and lo = 20 and hi = 200
      and open_loop = False, OF assms(1)] assms(2)
  by (simp add: enc_prec_main_def)

end
