(* ===== verification/Calls.thy ===== *)
theory Calls
  imports Registry
begin

text \<open>
  What the build makes of the functions that the headers register: the numbering of calls and argument types, the cases of
  \<^verbatim>\<open>Registry::Execute\<close> and the wrappers of the namespace \<^verbatim>\<open>RPC\<close>, all written by \<^verbatim>\<open>scripts/DCSGen.py\<close> from the declarations marked
  \<^verbatim>\<open>DCS_REGISTER_CALL\<close>. The order in which the script finds the headers and the order of a Python set are parameters.
\<close>

section \<open>Types that travel\<close>

text \<open>Size and alignment of a type on the 64-bit target; a field starts at the next multiple of its alignment.\<close>

type_synonym layout = "nat \<times> nat"

definition align_up :: "nat \<Rightarrow> nat \<Rightarrow> nat" where
  "align_up a n = (n + a - 1) div a * a"

definition scalar :: "nat \<Rightarrow> layout" where
  "scalar n = (n, n)"

definition array_of :: "nat \<Rightarrow> layout \<Rightarrow> layout" where
  "array_of n l = (n * fst l, snd l)"

definition struct_of :: "layout list \<Rightarrow> layout" where
  "struct_of fs =
     (let a = fold (\<lambda>l. max (snd l)) fs 1
      in (align_up a (fold (\<lambda>l off. align_up (snd l) off + fst l) fs 0), a))"

datatype ctype = Ty_i8 | Ty_u8 | Ty_u16 | Ty_u32 | Ty_f64 | Ty_BasicString | Ty_UnitTarget | Ty_Authority
  | Ty_ChannelRef | Ty_ChannelLimits | Ty_ChannelCountRef | Ty_TemperatureData | Ty_EncoderData

definition EncoderAxisData_layout :: layout where
  "EncoderAxisData_layout =
     struct_of [scalar 1, scalar 8, scalar 8, scalar 2, scalar 2, scalar 4, array_of 2 (scalar 8)]"

definition EncoderData_layout :: layout where
  "EncoderData_layout = struct_of [scalar 1, array_of 4 EncoderAxisData_layout]"

definition TemperatureData_layout :: layout where
  "TemperatureData_layout = struct_of [array_of 2 (scalar 8)]"

definition ChannelLimits_layout :: layout where
  "ChannelLimits_layout = struct_of [scalar 8, scalar 8]"

fun ctype_layout :: "ctype \<Rightarrow> layout" where
  "ctype_layout Ty_i8 = scalar 1"
| "ctype_layout Ty_u8 = scalar 1"
| "ctype_layout Ty_u16 = scalar 2"
| "ctype_layout Ty_u32 = scalar 4"
| "ctype_layout Ty_f64 = scalar 8"
| "ctype_layout Ty_BasicString = array_of 512 (scalar 1)"
| "ctype_layout Ty_UnitTarget = scalar 4"
| "ctype_layout Ty_Authority = scalar 4"
| "ctype_layout Ty_ChannelRef = scalar 4"
| "ctype_layout Ty_ChannelLimits = ChannelLimits_layout"
| "ctype_layout Ty_ChannelCountRef = scalar 4"
| "ctype_layout Ty_TemperatureData = TemperatureData_layout"
| "ctype_layout Ty_EncoderData = EncoderData_layout"

definition size_of :: "ctype \<Rightarrow> nat" where
  "size_of t = fst (ctype_layout t)"

lemma size_of_values [simp]:
  "size_of Ty_i8 = 1" "size_of Ty_u8 = 1" "size_of Ty_u16 = 2" "size_of Ty_u32 = 4" "size_of Ty_f64 = 8"
  "size_of Ty_BasicString = 512" "size_of Ty_UnitTarget = 4" "size_of Ty_Authority = 4" "size_of Ty_ChannelRef = 4"
  "size_of Ty_ChannelLimits = 16" "size_of Ty_ChannelCountRef = 4" "size_of Ty_TemperatureData = 16" "size_of Ty_EncoderData = 200"
  by (simp_all add: size_of_def scalar_def array_of_def struct_of_def align_up_def EncoderAxisData_layout_def EncoderData_layout_def
      TemperatureData_layout_def ChannelLimits_layout_def Let_def)

section \<open>The registered functions\<close>

record call =
  c_name :: string
  c_ret :: "ctype option"
  c_args :: "ctype list"

abbreviation mk_call :: "string \<Rightarrow> ctype option \<Rightarrow> ctype list \<Rightarrow> call" where
  "mk_call n r as \<equiv> \<lparr>c_name = n, c_ret = r, c_args = as\<rparr>"

definition database_calls :: "call list" where
  "database_calls =
     [mk_call ''Database_InvalidateCache'' None [],
      mk_call ''Database_ReadValuef64'' (Some Ty_f64) [Ty_BasicString],
      mk_call ''Database_ReadValueString'' (Some Ty_BasicString) [Ty_BasicString],
      mk_call ''Database_WriteValuef64'' None [Ty_Authority, Ty_BasicString, Ty_f64, Ty_BasicString],
      mk_call ''Database_WriteValueString'' None [Ty_Authority, Ty_BasicString, Ty_BasicString, Ty_BasicString],
      mk_call ''Database_DeleteValue'' None [Ty_Authority, Ty_BasicString]]"

definition threading_calls :: "call list" where
  "threading_calls = [mk_call ''Threading_GetMaxHardwareConcurrency'' (Some Ty_u16) []]"

definition control_calls :: "call list" where
  "control_calls =
     [mk_call ''Control_IssueGenericCommand'' None [Ty_UnitTarget, Ty_BasicString],
      mk_call ''Control_IssueGenericCommandResponse'' (Some Ty_BasicString) [Ty_UnitTarget, Ty_BasicString],
      mk_call ''Control_SetPIDControlVariables'' None [Ty_UnitTarget, Ty_BasicString, Ty_i8, Ty_f64, Ty_f64, Ty_f64],
      mk_call ''Control_MoveAbsolutePID'' None [Ty_UnitTarget, Ty_BasicString, Ty_f64],
      mk_call ''Control_MoveRelative'' None [Ty_UnitTarget, Ty_BasicString, Ty_f64]]"

definition daq_calls :: "call list" where
  "daq_calls =
     [mk_call ''DAQ_NewAIVChannel'' None [Ty_BasicString, Ty_BasicString, Ty_ChannelRef, Ty_ChannelLimits],
      mk_call ''DAQ_DeleteChannel'' None [Ty_BasicString],
      mk_call ''DAQ_StartAIAcquisition'' None [Ty_BasicString, Ty_f64],
      mk_call ''DAQ_StopAIAcquisition'' None [],
      mk_call ''DAQ_NewCIChannel'' None [Ty_BasicString, Ty_BasicString, Ty_ChannelCountRef],
      mk_call ''DAQ_NewPTGChannel'' None [Ty_BasicString, Ty_BasicString, Ty_f64],
      mk_call ''DAQ_StartCIAcquisition'' None [Ty_BasicString, Ty_BasicString, Ty_BasicString, Ty_f64],
      mk_call ''DAQ_StopCIAcquisition'' None [],
      mk_call ''DAQ_StartDIAcquisition'' None [Ty_f64],
      mk_call ''DAQ_StopDIAcquisition'' None [],
      mk_call ''DAQ_GetMCANumChannels'' (Some Ty_u16) [],
      mk_call ''DAQ_SetMCANumChannels'' None [Ty_u16],
      mk_call ''DAQ_GetADCMaxInternalClock'' (Some Ty_f64) [],
      mk_call ''DAQ_GetConnectedDevicesAliases'' (Some Ty_BasicString) []]"

definition temp_calls :: "call list" where
  "temp_calls = [mk_call ''Temp_InspectLastTemperatureValues'' (Some Ty_TemperatureData) []]"

definition enc_calls :: "call list" where
  "enc_calls =
     [mk_call ''ENC_InspectLastEncoderValues'' (Some Ty_EncoderData) [],
      mk_call ''ENC_GetTriggerPeriod'' (Some Ty_u32) [],
      mk_call ''ENC_EncoderNeedsRefRun'' (Some Ty_u8) []]"

text \<open>The headers that register functions; the encoder's part of the last one is left out of a build without an encoder.\<close>

datatype header = Core_h | EngineControl_h | Acquisition_h

fun header_calls :: "bool \<Rightarrow> header \<Rightarrow> call list" where
  "header_calls no_enc Core_h = database_calls @ threading_calls"
| "header_calls no_enc EngineControl_h = control_calls"
| "header_calls no_enc Acquisition_h = daq_calls @ temp_calls @ (if no_enc then [] else enc_calls)"

definition registered_calls :: "bool \<Rightarrow> header list \<Rightarrow> call list" where
  "registered_calls no_enc order = concat (map (header_calls no_enc) order)"

lemmas call_tables = registered_calls_def database_calls_def threading_calls_def control_calls_def daq_calls_def
  temp_calls_def enc_calls_def

lemma registered_call_cases:
  assumes "c \<in> set (registered_calls no_enc order)"
  shows "c \<in> set (database_calls @ threading_calls @ control_calls @ daq_calls @ temp_calls @ enc_calls)"
proof -
  obtain h where "c \<in> set (header_calls no_enc h)" using assms by (auto simp: registered_calls_def)
  then show ?thesis by (cases h) (auto split: if_splits)
qed

section \<open>Codes\<close>

text \<open>
  Calls are numbered from 1 in the order in which they are found, and so are the types of their arguments, in the order of a
  Python set.
\<close>

definition arg_code :: "ctype list \<Rightarrow> ctype \<Rightarrow> u8" where
  "arg_code codes t = word_of_nat (length (takeWhile (\<lambda>u. u \<noteq> t) codes) + 1)"

definition gen_arg_size :: "ctype list \<Rightarrow> u8 \<Rightarrow> nat option" where
  "gen_arg_size codes c = (if 1 \<le> unat c \<and> unat c \<le> length codes then Some (size_of (codes ! (unat c - 1))) else None)"

definition call_code :: "nat \<Rightarrow> u16" where
  "call_code k = word_of_nat (k + 1)"

text \<open>An enumeration of the argument types that the script can produce.\<close>

definition codes_ok :: "ctype list \<Rightarrow> call list \<Rightarrow> bool" where
  "codes_ok codes calls \<longleftrightarrow> distinct codes \<and> length codes < 256 \<and> (\<forall>c\<in>set calls. set (c_args c) \<subseteq> set codes)"

lemma takeWhile_index:
  "t \<in> set codes \<Longrightarrow> length (takeWhile (\<lambda>u. u \<noteq> t) codes) < length codes \<and> codes ! length (takeWhile (\<lambda>u. u \<noteq> t) codes) = t"
  by (induction codes) auto

lemma arg_code_nat: "t \<in> set codes \<Longrightarrow> length codes < 256 \<Longrightarrow> unat (arg_code codes t) = length (takeWhile (\<lambda>u. u \<noteq> t) codes) + 1"
  using takeWhile_index [of t codes] by (simp add: arg_code_def unsigned_of_nat take_bit_nat_eq_self del: of_nat_add of_nat_Suc)

lemma gen_arg_size_code:
  assumes "t \<in> set codes" "length codes < 256"
  shows "gen_arg_size codes (arg_code codes t) = Some (size_of t)"
  using arg_code_nat [OF assms] takeWhile_index [OF assms(1)] by (simp add: gen_arg_size_def)

section \<open>The wrapper of a call\<close>

text \<open>The values of a call as they are put into the request.\<close>

definition coded_args :: "ctype list \<Rightarrow> call \<Rightarrow> bytes list \<Rightarrow> arg list" where
  "coded_args codes c vals = zip (map (arg_code codes) (c_args c)) vals"

definition vals_typed :: "call \<Rightarrow> bytes list \<Rightarrow> bool" where
  "vals_typed c vals \<longleftrightarrow> list_all2 (\<lambda>t v. length v = size_of t) (c_args c) vals"

text \<open>The request that the wrapper writes to its local array of 1024 bytes, and how it reads the answer: a type code and the value.\<close>

definition rpc_request :: "ctype list \<Rightarrow> call list \<Rightarrow> bytes \<Rightarrow> nat \<Rightarrow> bytes list \<Rightarrow> (bytes \<times> nat) outcome" where
  "rpc_request codes calls buffer k vals = GetDataFromParams buffer (call_code k) (coded_args codes (calls ! k) vals)"

definition rpc_result :: "call \<Rightarrow> bytes \<Rightarrow> bytes" where
  "rpc_result c r = (case c_ret c of None \<Rightarrow> [] | Some t \<Rightarrow> take (size_of t) (drop 1 r))"

definition call_bytes :: "call \<Rightarrow> nat" where
  "call_bytes c = 2 + sum_list (map (\<lambda>t. 1 + size_of t) (c_args c))"

lemma length_coded:
  assumes "vals_typed c vals"
  shows "length (enc_call fc (coded_args codes c vals)) = call_bytes c"
proof -
  have "length (concat (map enc_arg (zip (map f ts) vs))) = sum_list (map (\<lambda>t. 1 + size_of t) ts)"
    if "list_all2 (\<lambda>t v. length v = size_of t) ts vs" for f ts vs
    using that by (induction ts vs rule: list_all2_induct) (simp_all add: enc_arg_def)
  then show ?thesis using assms by (simp add: vals_typed_def coded_args_def enc_call_def call_bytes_def)
qed

lemma coded_args_typed:
  assumes "vals_typed c vals" "set (c_args c) \<subseteq> set codes" "length codes < 256"
  shows "args_typed (gen_arg_size codes) (coded_args codes c vals)"
proof -
  have "list_all (\<lambda>a. gen_arg_size codes (fst a) = Some (length (snd a))) (zip (map (arg_code codes) ts) vs)"
    if "list_all2 (\<lambda>t v. length v = size_of t) ts vs" "set ts \<subseteq> set codes" for ts vs
    using that by (induction ts vs rule: list_all2_induct) (simp_all add: gen_arg_size_code assms(3))
  then show ?thesis using assms(1,2) by (simp add: vals_typed_def coded_args_def args_typed_def)
qed

text \<open>The registered functions whose arguments are longer than the array.\<close>

definition long_calls :: "string list" where
  "long_calls = [''Database_WriteValuef64'', ''Database_WriteValueString'', ''DAQ_NewAIVChannel'', ''DAQ_NewCIChannel'',
     ''DAQ_NewPTGChannel'', ''DAQ_StartCIAcquisition'']"

lemma call_bytes_registered:
  assumes "c \<in> set (registered_calls no_enc order)"
  shows "call_bytes c \<le> 1024 \<longleftrightarrow> c_name c \<notin> set long_calls"
proof -
  have "\<forall>c\<in>set (database_calls @ threading_calls @ control_calls @ daq_calls @ temp_calls @ enc_calls).
      call_bytes c \<le> 1024 \<longleftrightarrow> c_name c \<notin> set long_calls"
    by (simp add: call_tables call_bytes_def long_calls_def)
  then show ?thesis using registered_call_cases [OF assms] by blast
qed

lemma result_fits:
  assumes "c \<in> set (registered_calls no_enc order)" "c_ret c = Some t"
  shows "size_of t \<le> 1024"
  by (cases t) simp_all

section \<open>The cases of Execute\<close>

text \<open>
  \<^verbatim>\<open>getArg<T>(i)\<close>: a stored value of another type is logged and an uninitialised value returned; an index without a value leaves by the
  exception of \<^verbatim>\<open>at\<close>, which is not caught.
\<close>

definition getArg :: "(nat \<Rightarrow> bytes) \<Rightarrow> ctype list \<Rightarrow> ctype \<Rightarrow> arg list \<Rightarrow> nat \<Rightarrow> bytes outcome" where
  "getArg uninit codes t as i =
     (if i < length as then Ok (if fst (as ! i) = arg_code codes t then snd (as ! i) else uninit (size_of t)) else Fault OutOfRange)"

fun getArgs :: "(nat \<Rightarrow> bytes) \<Rightarrow> ctype list \<Rightarrow> ctype list \<Rightarrow> arg list \<Rightarrow> nat \<Rightarrow> bytes list outcome" where
  "getArgs uninit codes [] as i = Ok []"
| "getArgs uninit codes (t # ts) as i =
     obind (getArg uninit codes t as i) (\<lambda>v. obind (getArgs uninit codes ts as (i + 1)) (\<lambda>vs. Ok (v # vs)))"

text \<open>
  \<open>impl\<close> are the registered functions on the server's state \<open>'w\<close>, \<open>ptr0\<close> the uninitialised 1024 bytes of the result, \<open>ret_code\<close> the
  numbering of the return types. An unknown code returns at once.
\<close>

definition Execute_gen :: "(nat \<Rightarrow> bytes) \<Rightarrow> bytes \<Rightarrow> (ctype \<Rightarrow> u8) \<Rightarrow> ctype list \<Rightarrow> call list
    \<Rightarrow> (string \<Rightarrow> bytes list \<Rightarrow> 'w \<Rightarrow> bytes \<times> 'w) \<Rightarrow> SVParams \<Rightarrow> 'w \<Rightarrow> (bytes \<times> 'w) outcome" where
  "Execute_gen uninit ptr0 ret_code codes calls impl params w =
     (let k = unat (fcode params) in
      if 1 \<le> k \<and> k \<le> length calls then
        let c = calls ! (k - 1) in
        obind (getArgs uninit codes (c_args c) (args params) 0) (\<lambda>vs.
          let (local, w') = impl (c_name c) vs w in
          case c_ret c of
            None \<Rightarrow> Ok (0 # ptr0, w')
          | Some t \<Rightarrow> obind (memcpy_to ptr0 0 local) (\<lambda>ptr. Ok (ret_code t # ptr, w')))
      else Ok (0 # ptr0, w))"

lemma getArgs_coded:
  assumes "list_all2 (\<lambda>t v. length v = size_of t) ts vs"
  shows "getArgs uninit codes ts (pre @ zip (map (arg_code codes) ts) vs) (length pre) = Ok vs"
  using assms
proof (induction ts vs arbitrary: pre rule: list_all2_induct)
  case (Cons t ts v vs)
  have "getArgs uninit codes ts ((pre @ [(arg_code codes t, v)]) @ zip (map (arg_code codes) ts) vs) (length (pre @ [(arg_code codes t, v)])) = Ok vs"
    by (rule Cons.IH)
  then show ?case by (simp add: getArg_def)
qed simp

lemma call_code_nat: "k < length calls \<Longrightarrow> length calls < 65535 \<Longrightarrow> unat (call_code k) = k + 1"
  by (simp add: call_code_def unsigned_of_nat take_bit_nat_eq_self del: of_nat_add of_nat_Suc)

lemma registered_calls_bound:
  assumes "distinct order"
  shows "length (registered_calls no_enc order) \<le> 54"
proof -
  have h: "length (header_calls no_enc h) \<le> 18" for h by (cases h) (simp_all add: call_tables)
  have "length (registered_calls no_enc hs) \<le> 18 * length hs" for hs
  proof (induction hs)
    case (Cons x xs)
    then show ?case using h [of x] by (simp add: registered_calls_def)
  qed (simp add: registered_calls_def)
  note this [of order]
  moreover have "set order \<subseteq> {Core_h, EngineControl_h, Acquisition_h}" using header.exhaust by blast
  then have "card (set order) \<le> card {Core_h, EngineControl_h, Acquisition_h}" by (intro card_mono) simp_all
  then have "length order \<le> 3" using distinct_card [OF assms] by simp
  ultimately show ?thesis by linarith
qed

lemma Execute_coded:
  assumes "k < length calls" "length calls < 65535" "vals_typed (calls ! k) vals" "length ptr0 = 1024"
    and "impl (c_name (calls ! k)) vals w = (local, w')"
    and "\<And>t. c_ret (calls ! k) = Some t \<Longrightarrow> length local = size_of t \<and> size_of t \<le> 1024"
  shows "\<exists>r. Execute_gen uninit ptr0 ret_code codes calls impl \<lparr>fcode = call_code k, args = coded_args codes (calls ! k) vals\<rparr> w = Ok (r, w')
    \<and> length r = 1025 \<and> (c_ret (calls ! k) \<noteq> None \<longrightarrow> rpc_result (calls ! k) r = local)"
proof -
  have "getArgs uninit codes (c_args (calls ! k)) (coded_args codes (calls ! k) vals) 0 = Ok vals"
    using getArgs_coded [of "c_args (calls ! k)" vals uninit codes "[]"] assms(3) by (simp add: vals_typed_def coded_args_def)
  then have e: "Execute_gen uninit ptr0 ret_code codes calls impl \<lparr>fcode = call_code k, args = coded_args codes (calls ! k) vals\<rparr> w
      = (case c_ret (calls ! k) of None \<Rightarrow> Ok (0 # ptr0, w') | Some t \<Rightarrow> obind (memcpy_to ptr0 0 local) (\<lambda>ptr. Ok (ret_code t # ptr, w')))"
    using assms(1,5) call_code_nat [OF assms(1,2)] by (simp add: Execute_gen_def)
  show ?thesis
  proof (cases "c_ret (calls ! k)")
    case None
    then show ?thesis using e assms(4) by simp
  next
    case (Some t)
    then have "memcpy_to ptr0 0 local = Ok (local @ drop (size_of t) ptr0)" "length local = size_of t" "size_of t \<le> 1024"
      using assms(4,6) by (auto simp: memcpy_to_def blit_def)
    then show ?thesis using e Some assms(4) by (simp add: rpc_result_def)
  qed
qed

lemma rpc_request_written:
  assumes "k < length (registered_calls no_enc order)" "c = registered_calls no_enc order ! k" "c_name c \<notin> set long_calls"
    and "vals_typed c vals" "length buffer = 1024"
  shows "\<exists>b. rpc_request codes (registered_calls no_enc order) buffer k vals = Ok (b, call_bytes c)
    \<and> take (call_bytes c) b = enc_call (call_code k) (coded_args codes c vals)"
proof -
  have "call_bytes c \<le> 1024" using call_bytes_registered [of c no_enc order] assms(1-3) by simp
  then show ?thesis
    using GetDataFromParams_ok [of "call_code k" "coded_args codes c vals" buffer] length_coded [OF assms(4), of "call_code k" codes] assms(2,5)
    by (auto simp: rpc_request_def)
qed

lemma rpc_executed:
  assumes "distinct order" "k < length (registered_calls no_enc order)" "c = registered_calls no_enc order ! k"
    and "vals_typed c vals" "length ptr0 = 1024" "impl (c_name c) vals w = (local, w')" "\<And>t. c_ret c = Some t \<Longrightarrow> length local = size_of t"
  shows "\<exists>r. Execute_gen uninit ptr0 ret_code codes (registered_calls no_enc order) impl
      \<lparr>fcode = call_code k, args = coded_args codes c vals\<rparr> w = Ok (r, w')
    \<and> length r = 1025 \<and> (c_ret c \<noteq> None \<longrightarrow> rpc_result c r = local)"
  using Execute_coded [of k "registered_calls no_enc order" vals ptr0 impl w local w' uninit ret_code codes]
    registered_calls_bound [OF assms(1), of no_enc] assms(2-7) result_fits [of c no_enc order] by auto

lemma codes_typed:
  assumes "codes_ok codes calls" "c \<in> set calls" "vals_typed c vals"
  shows "args_typed (gen_arg_size codes) (coded_args codes c vals)"
  using assms by (intro coded_args_typed) (auto simp: codes_ok_def)

text \<open>
  C15. Which remote calls the wrappers can make. For every registered function, in every order in which the script finds the headers, and
  for values of the declared types: the wrapper of a function that is not one of six writes a request of its size, from which the server
  reads the code of the function and the values back and calls exactly this function on them, and the wrapper reads its result from
  the answer; the wrappers of the six functions overrun their array of 1024 bytes.
\<close>

theorem remote_procedures:
  assumes "distinct order" and "k < length (registered_calls no_enc order)" and "codes_ok codes (registered_calls no_enc order)"
    and "c = registered_calls no_enc order ! k" and "vals_typed c vals" and "length buffer = 1024" and "length ptr0 = 1024"
    and "impl (c_name c) vals w = (local, w')" and "\<And>t. c_ret c = Some t \<Longrightarrow> length local = size_of t"
  shows "if c_name c \<in> set long_calls
    then rpc_request codes (registered_calls no_enc order) buffer k vals = Fault OutOfBounds
    else \<exists>b r. rpc_request codes (registered_calls no_enc order) buffer k vals = Ok (b, call_bytes c)
      \<and> GetParamsFromData (gen_arg_size codes) (take (call_bytes c) b) (call_bytes c)
          = Ok \<lparr>fcode = call_code k, args = coded_args codes c vals\<rparr>
      \<and> Execute_gen uninit ptr0 ret_code codes (registered_calls no_enc order) impl
          \<lparr>fcode = call_code k, args = coded_args codes c vals\<rparr> w = Ok (r, w')
      \<and> (c_ret c \<noteq> None \<longrightarrow> rpc_result c r = local)"
proof -
  let ?calls = "registered_calls no_enc order" and ?as = "coded_args codes c vals"
  have c: "c \<in> set ?calls" using assms(2,4) by simp
  have len: "length (enc_call (call_code k) ?as) = call_bytes c" using assms(5) by (rule length_coded)
  show ?thesis
  proof (cases "c_name c \<in> set long_calls")
    case True
    then have "1024 < call_bytes c" using call_bytes_registered [OF c] by simp
    then have "GetDataFromParams buffer (call_code k) ?as = Fault OutOfBounds" using assms(6) len by (intro call_params_overrun) simp_all
    then show ?thesis using True assms(4) by (simp add: rpc_request_def)
  next
    case False
    obtain b where b: "rpc_request codes ?calls buffer k vals = Ok (b, call_bytes c)" "take (call_bytes c) b = enc_call (call_code k) ?as"
      using rpc_request_written [OF assms(2,4) False assms(5,6)] by blast
    have "GetParamsFromData (gen_arg_size codes) (take (call_bytes c) b) (call_bytes c) = Ok \<lparr>fcode = call_code k, args = ?as\<rparr>"
      using GetParams_enc_call [OF codes_typed [OF assms(3) c assms(5)], of "call_code k"] b(2) len by simp
    then show ?thesis using False b(1) rpc_executed [where impl = impl and w = w and local = local and w' = w' and uninit = uninit and ret_code = ret_code and codes = codes, OF assms(1,2,4,5,7,8,9)] by auto
  qed
qed

theorem remote_procedures_witness:
  "\<exists>b r. rpc_request [Ty_Authority, Ty_BasicString, Ty_f64] (registered_calls True [Core_h]) (replicate 1024 0) 1 [replicate 512 65] = Ok (b, 515)
     \<and> Execute_gen (\<lambda>n. replicate n 0) (replicate 1024 0) (\<lambda>_. 1) [Ty_Authority, Ty_BasicString, Ty_f64] (registered_calls True [Core_h])
         (\<lambda>name vs w. (replicate 8 7, w + 1)) \<lparr>fcode = call_code 1, args = [(2, replicate 512 65)]\<rparr> (0 :: nat) = Ok (r, 1)
     \<and> take 8 (drop 1 r) = replicate 8 7"
proof -
  let ?codes = "[Ty_Authority, Ty_BasicString, Ty_f64]" and ?calls = "registered_calls True [Core_h]"
  let ?c = "mk_call ''Database_ReadValuef64'' (Some Ty_f64) [Ty_BasicString]"
  let ?impl = "\<lambda>(name :: string) (vs :: bytes list) w. (replicate 8 (7 :: u8), w + (1 :: nat))"
  have c: "?c = ?calls ! 1" and k: "1 < length ?calls" by (simp_all add: call_tables)
  have ok: "codes_ok ?codes ?calls" by (simp add: codes_ok_def call_tables)
  have ty: "vals_typed ?c [replicate 512 65]" by (simp add: vals_typed_def)
  have as: "coded_args ?codes ?c [replicate 512 65] = [(2, replicate 512 65)]" by (simp add: coded_args_def arg_code_def)
  have "c_name ?c \<notin> set long_calls" by (simp add: long_calls_def)
  moreover have "call_bytes ?c = 515" by (simp add: call_bytes_def)
  ultimately show ?thesis
    using remote_procedures [OF _ k ok c ty, of "replicate 1024 0" "replicate 1024 0" ?impl 0 "replicate 8 7" 1 "\<lambda>n. replicate n 0" "\<lambda>_. 1"]
    unfolding as by (auto simp: rpc_result_def)
qed

text \<open>The same as a function that is total, for a server whose registered functions do not throw.\<close>

definition gen_execute :: "(nat \<Rightarrow> bytes) \<Rightarrow> bytes \<Rightarrow> (ctype \<Rightarrow> u8) \<Rightarrow> ctype list \<Rightarrow> call list
    \<Rightarrow> (string \<Rightarrow> bytes list \<Rightarrow> 'w \<Rightarrow> bytes \<times> 'w) \<Rightarrow> SVParams \<Rightarrow> 'w \<Rightarrow> bytes \<times> 'w" where
  "gen_execute uninit ptr0 ret_code codes calls impl params w =
     (case Execute_gen uninit ptr0 ret_code codes calls impl params w of Ok x \<Rightarrow> x | _ \<Rightarrow> (0 # ptr0, w))"

text \<open>A request that has too few values for its function ends the server's decode thread by an exception.\<close>

lemma missing_argument_throws:
  assumes "k < length calls" "length calls < 65535" "length as < length (c_args (calls ! k))"
  shows "Execute_gen uninit ptr0 ret_code codes calls impl \<lparr>fcode = call_code k, args = as\<rparr> w = Fault OutOfRange"
proof -
  have "getArgs uninit codes ts as i = Fault OutOfRange" if "length as < i + length ts" "i \<le> length as" for ts i
    using that by (induction ts arbitrary: i) (auto simp: getArg_def)
  from this [of 0 "c_args (calls ! k)"] assms show ?thesis
    using call_code_nat [OF assms(1,2)] by (simp add: Execute_gen_def Let_def)
qed

section \<open>The registered events\<close>

definition daq_callback_events :: "string list" where
  "daq_callback_events = [''DCS::DAQ::VoltageEvent'', ''DCS::DAQ::CountEvent'']"

definition daq_events :: "string list" where
  "daq_events = [''DCS::DAQ::DCSCountEvent'', ''DCS::DAQ::MCACountEvent'', ''DCS::DAQ::ClinometerEvent'']"

definition control_events :: "string list" where
  "control_events = [''DCS::Control::MoveAbsolutePIDChanged'']"

definition network_events :: "string list" where
  "network_events = [''DCS::Network::Message::FibSeqEvt'']"

datatype evt_header = Acq_internal_h | Acq_h | Engine_h | Network_h

fun header_events :: "evt_header \<Rightarrow> string list" where
  "header_events Acq_internal_h = daq_callback_events"
| "header_events Acq_h = daq_events"
| "header_events Engine_h = control_events"
| "header_events Network_h = network_events"

definition registered_events :: "evt_header list \<Rightarrow> string list" where
  "registered_events order = concat (map header_events order)"

text \<open>\<^verbatim>\<open>GetEvent\<close>: the code of the event that the function of this name emits, numbered from 1; \<^verbatim>\<open>at\<close> throws for any other name.\<close>

definition GetEvent :: "string list \<Rightarrow> string \<Rightarrow> u8 outcome" where
  "GetEvent evts func =
     (if func \<in> set evts then Ok (word_of_nat (length (takeWhile (\<lambda>e. e \<noteq> func) evts) + 1)) else Fault OutOfRange)"

lemmas event_tables = daq_callback_events_def daq_events_def control_events_def network_events_def

lemma index_of_event:
  "f \<in> set es \<Longrightarrow> length (takeWhile (\<lambda>e. e \<noteq> f) es) < length es \<and> es ! length (takeWhile (\<lambda>e. e \<noteq> f) es) = f"
  by (induction es) auto

lemma registered_events_few:
  assumes "distinct order"
  shows "length (registered_events order) \<le> 12"
proof -
  have h: "length (header_events h) \<le> 3" for h by (cases h) (simp_all add: event_tables)
  have "length (registered_events hs) \<le> 3 * length hs" for hs
  proof (induction hs)
    case (Cons x xs)
    then show ?case using h [of x] by (simp add: registered_events_def)
  qed (simp add: registered_events_def)
  note this [of order]
  moreover have "set order \<subseteq> {Acq_internal_h, Acq_h, Engine_h, Network_h}" using evt_header.exhaust by blast
  then have "card (set order) \<le> card {Acq_internal_h, Acq_h, Engine_h, Network_h}" by (intro card_mono) simp_all
  then have "length order \<le> 4" using distinct_card [OF assms] by simp
  ultimately show ?thesis by linarith
qed

text \<open>
  Every function that emits an event finds a code for it, different functions find different codes, and with the table of
  subscriptions of that size the check of the code never throws.
\<close>

lemma event_codes:
  assumes "distinct order" "f \<in> set (registered_events order)"
  shows "\<exists>c. GetEvent (registered_events order) f = Ok c \<and> registered_events order ! (unat c - 1) = f
    \<and> is_Ok (CheckEvent (registry_init (word_of_nat (length (registered_events order)))) c)"
proof -
  let ?es = "registered_events order" and ?i = "length (takeWhile (\<lambda>e. e \<noteq> f) (registered_events order))"
  have i: "?i < length ?es" "?es ! ?i = f" using index_of_event [OF assms(2)] by simp_all
  have few: "length ?es \<le> 12" using registered_events_few [OF assms(1)] .
  have c: "unat (word_of_nat (?i + 1) :: u8) = ?i + 1"
    using i few by (simp add: unsigned_of_nat take_bit_nat_eq_self del: of_nat_add of_nat_Suc)
  then have "word_of_nat (?i + 1) \<noteq> (0 :: u8)" by (metis Suc_eq_plus1 nat.distinct(1) unsigned_0)
  then have "is_Ok (CheckEvent (registry_init (word_of_nat (length ?es))) (word_of_nat (?i + 1)))"
    by (intro CheckEvent_total) simp_all
  then show ?thesis using assms(2) i c by (auto simp: GetEvent_def simp del: of_nat_add of_nat_Suc)
qed

section \<open>Looking a function up by name\<close>

text \<open>\<^verbatim>\<open>Registry::Get\<close>: the keys of the table are pointers, and pointers are compared; \<open>ids\<close> holds the addresses of the literals.\<close>

definition Registry_Get :: "(nat \<rightharpoonup> u16) \<Rightarrow> nat \<Rightarrow> u16" where
  "Registry_Get ids func_signature = (case ids func_signature of None \<Rightarrow> 0 | Some v \<Rightarrow> v)"

text \<open>A name that was not written as the same literal as the key is not found, whatever its characters are.\<close>

lemma Get_compares_addresses:
  fixes mem :: "nat \<Rightarrow> string"
  assumes "mem a = mem b" "ids = [a \<mapsto> v]" "a \<noteq> b"
  shows "Registry_Get ids a = v \<and> Registry_Get ids b = 0"
  using assms by (simp add: Registry_Get_def)

end
