(* ===== verification/Scanner.thy ===== *)
theory Scanner
  imports Calls
begin

text \<open>
  The scanner of \<^verbatim>\<open>scripts/DCSGen.py\<close> (with \<^verbatim>\<open>common.py\<close>), which finds the functions and events that the headers register: the clean-up of a
  header into logical lines, the conditional blocks, and the search for the marked declarations with the scopes they stand in. A line is
  kept with its newline, as Python reads it; an exception of Python is \<open>None\<close>.
\<close>

section \<open>Texts\<close>

abbreviation newline :: char where "newline \<equiv> CHR 0x0A"
abbreviation tabulator :: char where "tabulator \<equiv> CHR 0x09"

definition is_blank :: "char \<Rightarrow> bool" where
  "is_blank c \<longleftrightarrow> c \<in> {CHR '' '', tabulator, newline, CHR 0x0B, CHR 0x0C, CHR 0x0D}"

definition lstrip :: "string \<Rightarrow> string" where
  "lstrip = dropWhile is_blank"

definition strip :: "string \<Rightarrow> string" where
  "strip s = rev (dropWhile is_blank (rev (lstrip s)))"

definition starts_with :: "string \<Rightarrow> string \<Rightarrow> bool" where
  "starts_with p s \<longleftrightarrow> take (length p) s = p"

definition ends_with :: "char \<Rightarrow> string \<Rightarrow> bool" where
  "ends_with c s \<longleftrightarrow> s \<noteq> [] \<and> last s = c"

definition chomp :: "string \<Rightarrow> string" where
  "chomp = filter (\<lambda>c. c \<noteq> newline)"

text \<open>\<^verbatim>\<open>str.splitlines\<close> and \<^verbatim>\<open>file.readlines\<close>: the newline stays at the end of its line.\<close>

fun splitlines :: "string \<Rightarrow> string list" where
  "splitlines [] = []"
| "splitlines (c # cs) =
     (if c = newline then [c] # splitlines cs
      else case splitlines cs of [] \<Rightarrow> [[c]] | l # ls \<Rightarrow> (c # l) # ls)"

text \<open>The last word of a line that has one, \<^verbatim>\<open>content[0].split()[-1]\<close>.\<close>

definition last_word :: "string \<Rightarrow> string" where
  "last_word s = rev (takeWhile (\<lambda>c. \<not> is_blank c) (dropWhile is_blank (rev s)))"

section \<open>Conditional blocks\<close>

text \<open>The text before and after the first occurrence of a pattern.\<close>

fun cut_at :: "string \<Rightarrow> string \<Rightarrow> (string \<times> string) option" where
  "cut_at p [] = (if p = [] then Some ([], []) else None)"
| "cut_at p (c # cs) =
     (if starts_with p (c # cs) then Some ([], drop (length p) (c # cs))
      else map_option (\<lambda>(a, b). (c # a, b)) (cut_at p cs))"

text \<open>
  A match of the regular expression \<^verbatim>\<open>#ifn?def +(.*?)\n(.*?)(#endif.*?\n)\<close> at the start of a text: its second group and the rest.
\<close>

definition block_at :: "string \<Rightarrow> (string \<times> string) option" where
  "block_at s =
     (let hd_len = (if starts_with ''#ifdef '' s then Some 7 else if starts_with ''#ifndef '' s then Some 8 else None)
      in case hd_len of None \<Rightarrow> None
         | Some n \<Rightarrow> (case cut_at [newline] (drop n s) of None \<Rightarrow> None
           | Some (_, r) \<Rightarrow> (case cut_at ''#endif'' r of None \<Rightarrow> None
             | Some (inner, r) \<Rightarrow> map_option (\<lambda>(_, r). (inner, r)) (cut_at [newline] r))))"

lemma cut_at_length: "cut_at p s = Some (a, b) \<Longrightarrow> length a + length b + length p = length s"
proof (induction p s arbitrary: a b rule: cut_at.induct)
  case (2 p c cs)
  show ?case
  proof (cases "starts_with p (c # cs)")
    case True
    then have "length p \<le> length (c # cs)" unfolding starts_with_def by (metis length_take min.cobounded1)
    then show ?thesis using True 2 by auto
  next
    case False
    then show ?thesis using 2 by auto
  qed
qed (auto split: if_splits)

lemma block_at_length: "block_at s = Some (i, r) \<Longrightarrow> length i + length r < length s"
  unfolding block_at_def Let_def
  by (auto split: if_splits option.splits prod.splits dest!: cut_at_length)

text \<open>\<^verbatim>\<open>re.sub\<close> replaces every match in the text, by the inner text of the block or by nothing.\<close>

function sub_blocks :: "bool \<Rightarrow> string \<Rightarrow> string" where
  "sub_blocks keep [] = []"
| "sub_blocks keep (c # cs) =
     (case block_at (c # cs) of
        Some (i, r) \<Rightarrow> (if keep then i else []) @ sub_blocks keep r
      | None \<Rightarrow> c # sub_blocks keep cs)"
  by pat_completeness auto

termination sub_blocks
proof (relation "measure (length \<circ> snd)")
  fix keep c cs x i r
  assume "block_at (c # cs) = Some x" "(i, r) = x"
  then show "((keep, r), keep, c # cs) \<in> measure (length \<circ> snd)" using block_at_length [of "c # cs" i r] by auto
qed simp_all

definition checkBlockActive :: "string list \<Rightarrow> string list \<Rightarrow> string list" where
  "checkBlockActive compdef content =
     (case content of [] \<Rightarrow> []
      | l # _ \<Rightarrow>
        if (starts_with ''#ifdef'' l \<or> starts_with ''#ifndef'' l) \<and> starts_with ''NO'' (last_word l) then
          let keep = (if starts_with ''#ifdef'' l then last_word l \<in> set compdef else last_word l \<notin> set compdef)
          in splitlines (sub_blocks keep (concat content))
        else [])"

section \<open>Logical lines\<close>

text \<open>\<^verbatim>\<open>if '=' in c: c.split('=')[0]\<close>.\<close>

definition compdef_clean :: "string list \<Rightarrow> string list" where
  "compdef_clean = map (takeWhile (\<lambda>c. c \<noteq> CHR ''=''))"

definition is_comment :: "string \<Rightarrow> bool" where
  "is_comment ns \<longleftrightarrow> starts_with ''/*'' ns \<or> starts_with ''*'' ns \<or> starts_with ''//'' ns \<or> starts_with ''#'' ns"

definition completes :: "string \<Rightarrow> bool" where
  "completes ns \<longleftrightarrow> ends_with (CHR '';'') ns \<or> ends_with (CHR ''}'') ns \<or> ends_with (CHR ''{'') ns"

definition lstrip_spaces :: "string \<Rightarrow> string" where
  "lstrip_spaces = dropWhile (\<lambda>c. c = CHR '' '')"

text \<open>
  The loop over the lines of a file. When a line opens a conditional block, the lines from this one on are replaced, but the loop
  has already taken its step: the first line of the replacement is passed over.
\<close>

definition next_lines :: "string list \<Rightarrow> string \<Rightarrow> string list \<Rightarrow> string list" where
  "next_lines compdef l ls =
     (let plist = checkBlockActive compdef (l # ls) in if plist = [] then ls else tl plist)"

lemma concat_splitlines [simp]: "concat (splitlines s) = s"
  by (induction s) (auto split: list.splits)

lemma splitlines_nonempty: "l \<in> set (splitlines s) \<Longrightarrow> l \<noteq> []"
  by (induction s arbitrary: l) (auto split: list.splits if_splits)

lemma length_sub_blocks: "length (sub_blocks keep s) \<le> length s"
proof (induction keep s rule: sub_blocks.induct)
  case (2 keep c cs)
  show ?case
  proof (cases "block_at (c # cs)")
    case None
    then show ?thesis using 2 by simp
  next
    case (Some ir)
    obtain i r where ir: "ir = (i, r)" by (cases ir)
    have "length i + length r < length (c # cs)" using block_at_length Some unfolding ir by blast
    then show ?thesis using 2 Some ir by force
  qed
qed simp

lemma next_lines_shorter:
  "length (concat (next_lines compdef l ls)) < length (concat (l # ls)) \<or> next_lines compdef l ls = ls"
proof (cases "checkBlockActive compdef (l # ls) = []")
  case False
  then obtain keep where k: "checkBlockActive compdef (l # ls) = splitlines (sub_blocks keep (concat (l # ls)))"
    by (auto simp: checkBlockActive_def Let_def split: if_splits)
  obtain x xs where x: "checkBlockActive compdef (l # ls) = x # xs" using False by (cases "checkBlockActive compdef (l # ls)") auto
  then have "x \<noteq> []" using splitlines_nonempty [of x] k by (metis list.set_intros(1))
  moreover have "length (concat (x # xs)) \<le> length (concat (l # ls))"
    using length_sub_blocks [of keep "concat (l # ls)"] x k by (metis concat_splitlines)
  ultimately have "length (concat xs) < length (concat (l # ls))" by (cases x) simp_all
  then show ?thesis using x by (simp add: next_lines_def)
qed (simp add: next_lines_def)

function clean :: "string list \<Rightarrow> string \<Rightarrow> string list \<Rightarrow> string list" where
  "clean compdef p [] = []"
| "clean compdef p (l # ls) =
     (let ns = chomp (lstrip l) in
      if ns = [] then clean compdef p ls
      else if is_comment ns then clean compdef p (next_lines compdef l ls)
      else if \<not> completes ns then clean compdef (p @ '' '' @ ns) (next_lines compdef l ls)
      else lstrip_spaces (p @ '' '' @ ns) # clean compdef [] (next_lines compdef l ls))"
  by pat_completeness auto

termination clean
proof (relation "measures [\<lambda>(_, _, ls). length (concat ls), \<lambda>(_, _, ls). length ls]")
qed (use next_lines_shorter in \<open>fastforce+\<close>)

declare clean.simps(2) [simp del]

text \<open>The lines of all the files.\<close>

definition cleanFiles :: "string list \<Rightarrow> string list list \<Rightarrow> string list list" where
  "cleanFiles compdef files = map (clean (compdef_clean compdef) []) files"

section \<open>The search for the marked declarations\<close>

abbreviation token_call :: string where "token_call \<equiv> ''DCS_REGISTER_CALL''"
abbreviation token_evt :: string where "token_evt \<equiv> ''DCS_REGISTER_EVENT''"

text \<open>
  What a declaration gives: its name with its scopes, the type of its result (empty for \<^verbatim>\<open>void\<close>) and of its arguments (one empty text
  for none).
\<close>

record found =
  fd_name :: string
  fd_ret :: string
  fd_args :: "string list"

record scan =
  f_prefix :: "string list"
  oc :: "string \<Rightarrow> int"
  scope :: string
  funcs :: "found list"
  evts :: "string list"

text \<open>\<^verbatim>\<open>xs[-2]\<close>.\<close>

definition second_last :: "'a list \<Rightarrow> 'a option" where
  "second_last xs = (if length xs < 2 then None else Some (xs ! (length xs - 2)))"

definition intersperse_scopes :: "string list \<Rightarrow> string" where
  "intersperse_scopes ps = concat (map (\<lambda>p. p @ ''::'') ps)"

text \<open>\<^verbatim>\<open>'::'.join(f_prefix) + '::' + name\<close>: without a scope the name still gets the separator.\<close>

definition scoped :: "string list \<Rightarrow> string \<Rightarrow> string" where
  "scoped ps nm = (if ps = [] then ''::'' @ nm else intersperse_scopes ps @ nm)"

definition declared_name :: "string \<Rightarrow> string option" where
  "declared_name v = map_option (\<lambda>w. last (split_on (CHR '' '') w)) (second_last (split_on (CHR ''('') v))"

text \<open>\<^verbatim>\<open>re.findall('\\((.*?)\\)', v)[0]\<close>.\<close>

definition first_parens :: "string \<Rightarrow> string option" where
  "first_parens v =
     (case dropWhile (\<lambda>c. c \<noteq> CHR ''('') v of [] \<Rightarrow> None
      | _ # r \<Rightarrow> if CHR '')'' \<in> set r then Some (takeWhile (\<lambda>c. c \<noteq> CHR '')'') r) else None)"

definition scan_scope :: "string \<Rightarrow> scan \<Rightarrow> scan option" where
  "scan_scope v st =
     (if starts_with ''namespace'' v \<or> starts_with ''class'' v \<or> starts_with ''struct'' v then
        map_option (\<lambda>n. st\<lparr>scope := n, f_prefix := f_prefix st @ [n], oc := (oc st)(n := 1)\<rparr>) (second_last (split_on (CHR '' '') v))
      else if scope st \<noteq> [] then
        let k = oc st (scope st) + int (count_list v (CHR ''{'')) - int (count_list v (CHR ''}''));
            st = st\<lparr>oc := (oc st)(scope st := k)\<rparr>
        in Some (if k = 0 \<and> f_prefix st \<noteq> []
                 then (let ps = butlast (f_prefix st)
                       in st\<lparr>f_prefix := ps, scope := (if ps = [] then scope st else last ps)\<rparr>)
                 else st)
      else Some st)"

definition scan_token :: "string \<Rightarrow> scan \<Rightarrow> scan option" where
  "scan_token v st =
     (if starts_with token_call v then
        (case (declared_name v, first_parens v) of
           (Some nm, Some inner) \<Rightarrow>
             (let raw = map strip (split_on (CHR '','') inner)
              in Some (st\<lparr>funcs := funcs st @
                   [\<lparr>fd_name = scoped (f_prefix st) nm, fd_ret = (if hd raw = ''void'' then [] else hd raw),
                     fd_args = (if 1 < length raw then tl raw else [[]])\<rparr>]\<rparr>))
         | _ \<Rightarrow> None)
      else if starts_with token_evt v then
        map_option (\<lambda>nm. st\<lparr>evts := evts st @ [scoped (f_prefix st) nm]\<rparr>) (declared_name v)
      else Some st)"

fun scan_lines :: "string list \<Rightarrow> scan \<Rightarrow> scan option" where
  "scan_lines [] st = Some st"
| "scan_lines (v # vs) st = Option.bind (Option.bind (scan_scope v st) (scan_token v)) (scan_lines vs)"

text \<open>The scopes start anew with every file.\<close>

fun scan_files :: "string list list \<Rightarrow> found list \<Rightarrow> string list \<Rightarrow> (found list \<times> string list) option" where
  "scan_files [] fs es = Some (fs, es)"
| "scan_files (d # ds) fs es =
     Option.bind (scan_lines d \<lparr>f_prefix = [], oc = (\<lambda>_. 0), scope = [], funcs = fs, evts = es\<rparr>)
       (\<lambda>st. scan_files ds (funcs st) (evts st))"

definition getTokenSymbols :: "string list list \<Rightarrow> (found list \<times> string list) option" where
  "getTokenSymbols files = scan_files files [] []"

section \<open>Headers\<close>

text \<open>
  The headers as they are written: scopes, marked declarations on two lines, declarations that run over several lines, blocks in braces
  such as enumerations, and comments. A scope has its keyword and its name, its items, and lines that run on into the text that closes it
  (fields with a comment behind them).
\<close>

datatype item =
    Scope string string "item list" "string list" string
  | RegCall string "string list" string string string
  | RegEvent string string string
  | Decl "string list" string
  | Block "string list" string "string list" string
  | Remark string

definition line :: "nat \<Rightarrow> string \<Rightarrow> string" where
  "line d s = replicate d tabulator @ s @ [newline]"

definition comma_list :: "string list \<Rightarrow> string" where
  "comma_list ts = concat (map (\<lambda>t. '', '' @ t) ts)"

definition call_mark :: "string \<Rightarrow> string list \<Rightarrow> string" where
  "call_mark r as = token_call @ ''('' @ r @ comma_list as @ '')''"

definition signature :: "string \<Rightarrow> string \<Rightarrow> string \<Rightarrow> string" where
  "signature pre nm params = pre @ '' '' @ nm @ ''('' @ params @ '');''"

fun print_item :: "nat \<Rightarrow> item \<Rightarrow> string list" where
  "print_item d (Scope kw n its tail cl) =
     [line d (kw @ '' '' @ n), line d ''{''] @ concat (map (print_item (Suc d)) its) @ map (line (Suc d)) tail @ [line d cl]"
| "print_item d (RegCall r as pre nm params) = [line d (call_mark r as), line d (signature pre nm params)]"
| "print_item d (RegEvent pre nm params) = [line d token_evt, line d (signature pre nm params)]"
| "print_item d (Decl frags l) = map (line d) frags @ [line d l]"
| "print_item d (Block frags op body cl) = map (line d) frags @ [line d op] @ map (line (Suc d)) body @ [line d cl]"
| "print_item d (Remark c) = [line d c, [newline]]"

text \<open>What a header registers.\<close>

fun item_calls :: "string list \<Rightarrow> item \<Rightarrow> found list" where
  "item_calls ps (Scope kw n its tail cl) = concat (map (item_calls (ps @ [n])) its)"
| "item_calls ps (RegCall r as pre nm params) =
     [\<lparr>fd_name = scoped ps nm, fd_ret = (if r = ''void'' then [] else r), fd_args = (if as = [] then [[]] else as)\<rparr>]"
| "item_calls ps _ = []"

fun item_events :: "string list \<Rightarrow> item \<Rightarrow> string list" where
  "item_events ps (Scope kw n its tail cl) = concat (map (item_events (ps @ [n])) its)"
| "item_events ps (RegEvent pre nm params) = [scoped ps nm]"
| "item_events ps _ = []"

section \<open>Well-formed headers\<close>

definition plain :: "string \<Rightarrow> string \<Rightarrow> bool" where
  "plain forbidden s \<longleftrightarrow> list_all (\<lambda>c. c \<notin> set forbidden \<and> c \<noteq> newline) s"

text \<open>A text that can stand on a line of its own: it starts with a visible character and is not a comment.\<close>

definition visible :: "string \<Rightarrow> bool" where
  "visible s \<longleftrightarrow> s \<noteq> [] \<and> \<not> is_blank (hd s) \<and> plain [] s \<and> \<not> is_comment s"

definition keyword_free :: "string \<Rightarrow> bool" where
  "keyword_free v \<longleftrightarrow> list_all (\<lambda>k. \<not> starts_with k v) [''namespace'', ''class'', ''struct'', token_call, token_evt]"

definition ident :: "string \<Rightarrow> bool" where
  "ident n \<longleftrightarrow> n \<noteq> [] \<and> list_all (\<lambda>c. \<not> is_blank c \<and> c \<notin> set ''(){};,'') n"

definition type_text :: "string \<Rightarrow> bool" where
  "type_text r \<longleftrightarrow> r \<noteq> [] \<and> \<not> is_blank (hd r) \<and> \<not> is_blank (last r) \<and> plain ''(){},'' r"

definition frag :: "string \<Rightarrow> bool" where
  "frag s \<longleftrightarrow> visible s \<and> \<not> completes s \<and> plain ''{}'' s"

definition joined :: "string list \<Rightarrow> string \<Rightarrow> string" where
  "joined frags l = concat (map (\<lambda>f. f @ '' '') frags) @ l"

fun wf_item :: "string list \<Rightarrow> item \<Rightarrow> bool" where
  "wf_item ps (Scope kw n its tail cl) \<longleftrightarrow>
     ident n \<and> n \<notin> set ps \<and> visible kw \<and> plain ''{}'' kw
     \<and> (starts_with ''namespace'' kw \<or> starts_with ''class'' kw \<or> starts_with ''struct'' kw)
     \<and> list_all frag tail \<and> cl \<in> {''}'', ''};''} \<and> keyword_free (joined tail cl) \<and> list_all (wf_item (ps @ [n])) its"
| "wf_item ps (RegCall r as pre nm params) \<longleftrightarrow> type_text r \<and> list_all type_text as \<and> visible pre \<and> plain ''(){}'' pre \<and> ident nm \<and> plain ''(){}'' params"
| "wf_item ps (RegEvent pre nm params) \<longleftrightarrow> visible pre \<and> plain ''(){}'' pre \<and> ident nm \<and> plain ''(){}'' params"
| "wf_item ps (Decl frags l) \<longleftrightarrow>
     list_all frag frags \<and> visible l \<and> ends_with (CHR '';'') l \<and> plain ''{}'' l \<and> keyword_free (joined frags l)"
| "wf_item ps (Block frags op body cl) \<longleftrightarrow>
     list_all frag frags \<and> op = ''{'' \<and> keyword_free (joined frags op) \<and> list_all frag body \<and> cl \<in> {''}'', ''};''} \<and> keyword_free (joined body cl)"
| "wf_item ps (Remark c) \<longleftrightarrow> c \<noteq> [] \<and> \<not> is_blank (hd c) \<and> plain [] c \<and> is_comment c
     \<and> (starts_with ''#if'' c \<longrightarrow> \<not> starts_with ''NO'' (last_word c))"

section \<open>The logical lines of a header\<close>

fun logical :: "item \<Rightarrow> string list" where
  "logical (Scope kw n its tail cl) = [kw @ '' '' @ n @ '' {''] @ concat (map logical its) @ [joined tail cl]"
| "logical (RegCall r as pre nm params) = [call_mark r as @ '' '' @ signature pre nm params]"
| "logical (RegEvent pre nm params) = [token_evt @ '' '' @ signature pre nm params]"
| "logical (Decl frags l) = [joined frags l]"
| "logical (Block frags op body cl) = [joined frags op, joined body cl]"
| "logical (Remark c) = []"

lemma plain_newline: "plain f s \<Longrightarrow> newline \<notin> set s"
  by (auto simp: plain_def list_all_iff)

lemma chomp_id: "newline \<notin> set s \<Longrightarrow> chomp s = s"
  by (simp add: chomp_def filter_id_conv) blast

lemma line_text:
  assumes "s \<noteq> []" "\<not> is_blank (hd s)" "plain [] s"
  shows "chomp (lstrip (line d s)) = s"
proof -
  have "dropWhile is_blank (replicate d tabulator @ s @ [newline]) = dropWhile is_blank (s @ [newline])"
    by (subst dropWhile_append2) (auto simp: is_blank_def)
  also have "\<dots> = s @ [newline]" using assms(1,2) by (cases s) auto
  finally have "lstrip (line d s) = s @ [newline]" by (simp add: lstrip_def line_def)
  then show ?thesis using chomp_id [OF plain_newline [OF assms(3)]] by (simp add: chomp_def)
qed

lemma starts_with_iff: "starts_with p s \<longleftrightarrow> (\<exists>t. s = p @ t)"
  by (auto simp: starts_with_def) (metis append_take_drop_id)

lemma starts_with_Cons [simp]: "starts_with (p # ps) (c # cs) \<longleftrightarrow> p = c \<and> starts_with ps cs"
  by (auto simp: starts_with_def)

lemma starts_with_Nil [simp]: "starts_with [] s" "\<not> starts_with (p # ps) []"
  by (simp_all add: starts_with_def)

lemma starts_with_append: "starts_with p s \<Longrightarrow> starts_with p (s @ t)"
  by (auto simp: starts_with_iff)

lemma starts_with_trans: "starts_with (p @ k) s \<Longrightarrow> starts_with p s"
  by (auto simp: starts_with_iff)

lemma starts_with_snoc:
  assumes "starts_with p (s @ [c])" "c \<notin> set p"
  shows "starts_with p s"
proof -
  obtain t where t: "s @ [c] = p @ t" using assms(1) by (auto simp: starts_with_iff)
  show ?thesis
  proof (cases t rule: rev_cases)
    case Nil
    then show ?thesis using t assms(2) by (metis append_Nil2 in_set_conv_decomp)
  next
    case (snoc t' x)
    then show ?thesis using t by (auto simp: starts_with_iff)
  qed
qed

lemma no_block:
  assumes "\<not> starts_with ''#if'' s"
  shows "next_lines compdef (line d s) ls = ls"
proof -
  have "\<not> starts_with ''#ifdef'' (line d s) \<and> \<not> starts_with ''#ifndef'' (line d s)"
  proof (cases d)
    case 0
    have "starts_with ''#if'' s" if "starts_with (''#if'' @ k) (s @ [newline])" "newline \<notin> set k" for k
      using starts_with_trans [OF starts_with_snoc [OF that(1)]] that(2) by simp
    from this [of "''def''"] this [of "''ndef''"] assms 0 show ?thesis by (auto simp: line_def)
  next
    case (Suc n)
    then show ?thesis by (simp add: line_def)
  qed
  then show ?thesis by (simp add: next_lines_def checkBlockActive_def)
qed

lemma visible_no_if: "visible s \<Longrightarrow> \<not> starts_with ''#if'' s"
  by (cases s) (auto simp: visible_def is_comment_def)

section \<open>Cleaning a header gives its logical lines\<close>

lemma visibleD: "visible s \<Longrightarrow> s \<noteq> [] \<and> chomp (lstrip (line d s)) = s \<and> \<not> is_comment s \<and> next_lines compdef (line d s) ls = ls"
  using line_text [of s d] no_block [OF visible_no_if] by (auto simp: visible_def)

lemma clean_frag: "frag s \<Longrightarrow> clean compdef p (line d s # ls) = clean compdef (p @ '' '' @ s) ls"
  using visibleD [of s d compdef ls] by (auto simp: frag_def clean.simps(2))

lemma clean_end: "visible s \<Longrightarrow> completes s \<Longrightarrow> clean compdef p (line d s # ls) = lstrip_spaces (p @ '' '' @ s) # clean compdef [] ls"
  using visibleD [of s d compdef ls] by (auto simp: clean.simps(2))

lemma clean_frags:
  "list_all frag frags \<Longrightarrow> clean compdef p (map (line d) frags @ ls) = clean compdef (p @ concat (map (\<lambda>f. '' '' @ f) frags)) ls"
  by (induction frags arbitrary: p) (simp_all add: clean_frag)

lemma space_joined: "concat (map (\<lambda>f. '' '' @ f) frags) @ '' '' @ l = '' '' @ joined frags l"
  by (induction frags) (simp_all add: joined_def)

lemma lstrip_joined:
  assumes "list_all frag frags" "visible l"
  shows "lstrip_spaces ('' '' @ joined frags l) = joined frags l"
proof -
  have "joined frags l \<noteq> [] \<and> \<not> is_blank (hd (joined frags l))"
    using assms by (cases frags) (auto simp: joined_def frag_def visible_def)
  then have "hd (joined frags l) \<noteq> CHR '' ''" "joined frags l \<noteq> []" by (auto simp: is_blank_def)
  then show ?thesis by (cases "joined frags l") (simp_all add: lstrip_spaces_def)
qed

lemma clean_statement:
  assumes "list_all frag frags" "visible l" "completes l"
  shows "clean compdef [] (map (line d) frags @ line d' l # ls) = joined frags l # clean compdef [] ls"
  using clean_frags [OF assms(1), of compdef "[]" d "line d' l # ls"] clean_end [OF assms(2,3)] lstrip_joined [OF assms(1,2)]
    space_joined [of frags l] by simp

lemma braces_visible [simp]: "visible ''{''" "visible ''}''" "visible ''};''"
  by (simp_all add: visible_def plain_def is_blank_def is_comment_def)

lemma braces_complete [simp]: "completes ''{''" "completes ''}''" "completes ''};''"
  by (simp_all add: completes_def ends_with_def)

lemma last_word_line:
  assumes "s \<noteq> []" "\<not> is_blank (hd s)"
  shows "last_word (line d s) = last_word s"
proof -
  define x where "x = dropWhile is_blank (rev s)"
  have h: "hd s \<in> set (rev s)" using assms(1) by simp
  have "rev (line d s) = newline # rev s @ replicate d tabulator" by (simp add: line_def)
  moreover have "is_blank newline" by (simp add: is_blank_def)
  ultimately have "dropWhile is_blank (rev (line d s)) = dropWhile is_blank (rev s @ replicate d tabulator)" by simp
  also have "\<dots> = x @ replicate d tabulator" unfolding x_def using h assms(2) by (rule dropWhile_append1)
  finally have "dropWhile is_blank (rev (line d s)) = x @ replicate d tabulator" .
  moreover have "takeWhile (\<lambda>c. \<not> is_blank c) (x @ replicate d tabulator) = takeWhile (\<lambda>c. \<not> is_blank c) x" for x
  proof -
    have "takeWhile (\<lambda>c. \<not> is_blank c) (replicate d tabulator) = []" by (cases d) (simp_all add: is_blank_def)
    then show ?thesis by (induction x) simp_all
  qed
  ultimately show ?thesis by (simp only: last_word_def x_def)
qed

lemma no_cond:
  assumes "c \<noteq> []" "\<not> is_blank (hd c)" "starts_with ''#if'' c \<longrightarrow> \<not> starts_with ''NO'' (last_word c)"
  shows "next_lines compdef (line d c) ls = ls"
proof (cases "starts_with ''#if'' c")
  case True
  then show ?thesis using assms last_word_line [OF assms(1,2), of d] by (simp add: next_lines_def checkBlockActive_def)
qed (rule no_block)

lemma clean_remark:
  assumes "c \<noteq> []" "\<not> is_blank (hd c)" "plain [] c" "is_comment c" "starts_with ''#if'' c \<longrightarrow> \<not> starts_with ''NO'' (last_word c)"
  shows "clean compdef p (line d c # [newline] # ls) = clean compdef p ls"
  using line_text [OF assms(1-3), of d] no_cond [OF assms(1,2,5)] assms(1,4)
  by (simp add: clean.simps(2) lstrip_def chomp_def is_blank_def)

lemma plain_append [simp]: "plain f (a @ b) \<longleftrightarrow> plain f a \<and> plain f b"
  by (auto simp: plain_def)

lemma plain_Cons [simp]: "plain f (c # s) \<longleftrightarrow> c \<notin> set f \<and> c \<noteq> newline \<and> plain f s" "plain f []"
  by (auto simp: plain_def)

lemma plain_mono: "plain f s \<Longrightarrow> set g \<subseteq> set f \<Longrightarrow> plain g s"
  by (auto simp: plain_def list_all_iff)

lemma is_comment_append: "s \<noteq> [] \<Longrightarrow> is_comment (s @ CHR '' '' # r) = is_comment s"
  by (cases s; cases "tl s") (auto simp: is_comment_def)

lemma visible_append: "visible s \<Longrightarrow> plain [] r \<Longrightarrow> visible (s @ '' '' @ r)"
  by (auto simp: visible_def is_comment_append)

lemma not_completes: "s \<noteq> [] \<Longrightarrow> last s \<notin> set '';{}'' \<Longrightarrow> \<not> completes s"
  by (auto simp: completes_def ends_with_def)

lemma ident_plain: "ident n \<Longrightarrow> plain f n \<longleftrightarrow> list_all (\<lambda>c. c \<notin> set f) n"
  by (auto simp: ident_def plain_def list_all_iff is_blank_def)

lemma identD: "ident n \<Longrightarrow> n \<noteq> [] \<and> plain ''(){};, '' n \<and> last n \<notin> set '';{}''"
  using last_in_set [of n] by (auto simp: ident_def plain_def list_all_iff is_blank_def)

lemma scope_head_frag:
  assumes "visible kw" "plain ''{}'' kw" "ident n"
  shows "frag (kw @ '' '' @ n)"
proof -
  have n: "n \<noteq> []" "plain [] n" "plain ''{}'' n" "last n \<notin> set '';{}''"
    using identD [OF assms(3)] plain_mono [of "''(){};, ''" n "[]"] plain_mono [of "''(){};, ''" n "''{}''"] by auto
  have "\<not> completes (kw @ '' '' @ n)" using n by (intro not_completes) simp_all
  then show ?thesis using visible_append [OF assms(1) n(2)] assms(2) n(3) by (simp add: frag_def)
qed

lemma comma_plain: "list_all type_text as \<Longrightarrow> plain ''(){}'' (comma_list as)"
  using plain_mono [of "''(){},''" _ "''(){}''"] by (induction as) (auto simp: comma_list_def type_text_def)

lemma call_mark_plain:
  assumes "type_text r" "list_all type_text as"
  shows "plain ''(){}'' (r @ comma_list as)"
  using assms comma_plain [OF assms(2)] plain_mono [of "''(){},''" r "''(){}''"] by (auto simp: type_text_def)

lemma mark_frags:
  "type_text r \<Longrightarrow> list_all type_text as \<Longrightarrow> frag (call_mark r as)" "frag token_evt"
proof -
  assume "type_text r" "list_all type_text as"
  then have p: "plain ''{}'' (r @ comma_list as)" "plain [] (r @ comma_list as)"
    using call_mark_plain [of r as] plain_mono [of "''(){}''" "r @ comma_list as"] by auto
  moreover have "\<not> completes (call_mark r as)" by (intro not_completes) (simp_all add: call_mark_def)
  ultimately show "frag (call_mark r as)" by (simp add: frag_def visible_def call_mark_def is_blank_def is_comment_def)
qed (simp add: frag_def visible_def plain_def is_blank_def is_comment_def completes_def ends_with_def)

lemma signature_line:
  assumes "visible pre" "plain ''(){}'' pre" "ident nm" "plain ''(){}'' params"
  shows "visible (signature pre nm params)" "completes (signature pre nm params)"
proof -
  have "plain [] (nm @ ''('' @ params @ '');'')"
    using identD [OF assms(3)] assms(4) plain_mono [of "''(){};, ''" nm "[]"] plain_mono [of "''(){}''" params "[]"] by auto
  from visible_append [OF assms(1) this] show "visible (signature pre nm params)" by (simp add: signature_def)
  show "completes (signature pre nm params)" by (simp add: completes_def ends_with_def signature_def)
qed

lemma joined_single: "joined [f] l = f @ '' '' @ l"
  by (simp add: joined_def)

lemma clean_item: "wf_item ps it \<Longrightarrow> clean compdef [] (print_item d it @ ls) = logical it @ clean compdef [] ls"
proof (induction it arbitrary: ps d ls)
  case (Scope kw n its tail cl)
  have its: "clean compdef [] (concat (map (print_item (Suc d)) xs) @ rest) = concat (map logical xs) @ clean compdef [] rest"
    if "set xs \<subseteq> set its" for xs rest
    using that
  proof (induction xs)
    case (Cons x xs)
    then have "wf_item (ps @ [n]) x" using Scope.prems by (auto simp: list_all_iff)
    then show ?case using Scope.IH [of x "ps @ [n]" "Suc d" "concat (map (print_item (Suc d)) xs) @ rest"] Cons by simp
  qed simp
  have h: "frag (kw @ '' '' @ n)" using Scope.prems by (intro scope_head_frag) simp_all
  have open_line: "clean compdef [] (line d (kw @ '' '' @ n) # line d ''{'' # rest) = (kw @ '' '' @ n @ '' {'') # clean compdef [] rest" for rest
    using clean_statement [of "[kw @ '' '' @ n]" "''{''" compdef d d rest] h by (simp add: joined_single)
  have close_line: "clean compdef [] (map (line (Suc d)) tail @ line d cl # ls) = joined tail cl # clean compdef [] ls"
    using clean_statement [of tail cl compdef "Suc d" d ls] Scope.prems by auto
  show ?case using open_line its [of its "map (line (Suc d)) tail @ line d cl # ls"] close_line by simp
next
  case (RegCall r as pre nm params)
  then show ?case
    using clean_statement [of "[call_mark r as]" "signature pre nm params" compdef d d ls] mark_frags(1) [of r as] signature_line [of pre nm params]
    by (simp add: joined_single)
next
  case (RegEvent pre nm params)
  then show ?case
    using clean_statement [of "[token_evt]" "signature pre nm params" compdef d d ls] mark_frags(2) signature_line [of pre nm params]
    by (simp add: joined_single)
next
  case (Decl frags l)
  then show ?case using clean_statement [of frags l compdef d d ls] by (auto simp: completes_def)
next
  case (Block frags op body cl)
  have "clean compdef [] (map (line d) frags @ line d op # rest) = joined frags op # clean compdef [] rest" for rest
    using Block clean_statement [of frags op compdef d d rest] by auto
  moreover have "clean compdef [] (map (line (Suc d)) body @ line d cl # ls) = joined body cl # clean compdef [] ls"
    using Block clean_statement [of body cl compdef "Suc d" d ls] by auto
  ultimately show ?case by simp
next
  case (Remark c)
  then show ?case using clean_remark [of c compdef "[]" d ls] by simp
qed

section \<open>Scanning the logical lines gives the declarations\<close>

text \<open>The scanner stands in the scopes \<open>ps\<close>, of which the innermost has \<open>k\<close> more braces open than its own.\<close>

definition stands_in :: "int \<Rightarrow> string list \<Rightarrow> scan \<Rightarrow> bool" where
  "stands_in k ps st \<longleftrightarrow> f_prefix st = ps
     \<and> (ps \<noteq> [] \<longrightarrow> scope st = last ps \<and> oc st (last ps) = 1 + k \<and> (\<forall>n\<in>set (butlast ps). oc st n = 1))"

definition names_ok :: "string list \<Rightarrow> bool" where
  "names_ok ps \<longleftrightarrow> distinct ps \<and> [] \<notin> set ps"

definition braces :: "string \<Rightarrow> int" where
  "braces v = int (count_list v (CHR ''{'')) - int (count_list v (CHR ''}''))"

definition opens_scope :: "string \<Rightarrow> bool" where
  "opens_scope v \<longleftrightarrow> starts_with ''namespace'' v \<or> starts_with ''class'' v \<or> starts_with ''struct'' v"

lemma braces_append [simp]: "braces (a @ b) = braces a + braces b"
  by (simp add: braces_def)

lemma braces_Cons [simp]: "braces (c # v) = (if c = CHR ''{'' then 1 else if c = CHR ''}'' then -1 else 0) + braces v" "braces [] = 0"
  by (simp_all add: braces_def)

lemma braces_plain: "plain ''{}'' v \<Longrightarrow> braces v = 0"
  by (induction v) simp_all

lemma braces_joined: "list_all frag frags \<Longrightarrow> braces (joined frags l) = braces l"
  by (induction frags) (auto simp: joined_def frag_def braces_plain)

lemma names_ok_last: "names_ok ps \<Longrightarrow> ps \<noteq> [] \<Longrightarrow> last ps \<noteq> []"
  unfolding names_ok_def by (metis last_in_set)

lemma last_not_before: "names_ok ps \<Longrightarrow> ps \<noteq> [] \<Longrightarrow> n \<in> set (butlast ps) \<Longrightarrow> n \<noteq> last ps"
  by (cases ps rule: rev_cases) (auto simp: names_ok_def)

text \<open>A line without a keyword moves the count of the innermost scope.\<close>

lemma scan_scope_inside:
  assumes "stands_in k ps st" "names_ok ps" "\<not> opens_scope v" "ps \<noteq> [] \<Longrightarrow> 1 + k + braces v \<noteq> 0"
  shows "\<exists>st'. scan_scope v st = Some st' \<and> stands_in (k + braces v) ps st' \<and> funcs st' = funcs st \<and> evts st' = evts st"
proof (cases "ps = []")
  case True
  then show ?thesis using assms(1,3) by (auto simp: scan_scope_def opens_scope_def stands_in_def Let_def)
next
  case False
  then have s: "f_prefix st = ps" "scope st = last ps" "oc st (last ps) = 1 + k" "last ps \<noteq> []"
    using assms(1) names_ok_last [OF assms(2)] by (auto simp: stands_in_def)
  then have "scan_scope v st = Some (st\<lparr>oc := (oc st)(last ps := 1 + k + braces v)\<rparr>)"
    using assms(3,4) False by (auto simp: scan_scope_def opens_scope_def Let_def braces_def algebra_simps)
  then show ?thesis using assms(1) last_not_before [OF assms(2) False] False by (auto simp: stands_in_def)
qed

lemma scan_scope_leave:
  assumes "stands_in 0 (ps @ [n]) st" "names_ok (ps @ [n])" "\<not> opens_scope v" "braces v = -1"
  shows "\<exists>st'. scan_scope v st = Some st' \<and> stands_in 0 ps st' \<and> funcs st' = funcs st \<and> evts st' = evts st"
proof -
  have "n \<noteq> []" "n \<notin> set ps" "f_prefix st = ps @ [n]" "scope st = n" "oc st n = 1" "\<forall>m\<in>set ps. oc st m = 1"
    using assms(1,2) by (auto simp: stands_in_def names_ok_def)
  moreover from this have "\<forall>m\<in>set (butlast ps). m \<noteq> n" "ps \<noteq> [] \<longrightarrow> last ps \<noteq> n" "ps \<noteq> [] \<longrightarrow> oc st (last ps) = 1"
    using last_in_set [of ps] in_set_butlastD [of _ ps] by metis+
  ultimately show ?thesis
    using assms(3,4) by (auto simp: scan_scope_def opens_scope_def stands_in_def Let_def braces_def algebra_simps dest: in_set_butlastD)
qed

lemma second_last_snoc [simp]: "second_last (xs @ [a, b]) = Some a"
  by (simp add: second_last_def nth_append)

lemma scan_scope_enter:
  assumes "stands_in 0 ps st" "names_ok ps" "opens_scope kw" "ident n" "n \<notin> set ps"
  shows "\<exists>st'. scan_scope (kw @ '' '' @ n @ '' {'') st = Some st' \<and> stands_in 0 (ps @ [n]) st' \<and> funcs st' = funcs st \<and> evts st' = evts st"
proof -
  have o: "opens_scope (kw @ '' '' @ n @ '' {'')" using assms(3) by (auto simp: opens_scope_def intro: starts_with_append)
  have "CHR '' '' \<notin> set n" using assms(4) by (auto simp: ident_def is_blank_def list_all_iff)
  then have "split_on (CHR '' '') (kw @ '' '' @ n @ '' {'') = split_on (CHR '' '') kw @ [n, ''{'']"
    using split_on_append [of "CHR '' ''" kw "n @ '' {''"] split_on_append [of "CHR '' ''" n "''{''"] by (simp add: split_on_absent)
  then have "scan_scope (kw @ '' '' @ n @ '' {'') st = Some (st\<lparr>scope := n, f_prefix := ps @ [n], oc := (oc st)(n := 1)\<rparr>)"
    using o assms(1) by (simp add: scan_scope_def opens_scope_def stands_in_def)
  moreover have "\<forall>m\<in>set ps. oc st m = 1"
    using assms(1) by (cases ps rule: rev_cases) (auto simp: stands_in_def)
  ultimately show ?thesis using assms(1,5) by (auto simp: stands_in_def)
qed

lemma scan_token_other: "\<not> starts_with token_call v \<Longrightarrow> \<not> starts_with token_evt v \<Longrightarrow> scan_token v st = Some st"
  by (simp add: scan_token_def)

text \<open>Reading a marked declaration.\<close>

lemma declared_name_signature:
  assumes "ident nm" "plain ''(){}'' params"
  shows "declared_name (u @ '' '' @ signature pre nm params) = Some nm"
proof -
  let ?w = "u @ '' '' @ pre @ '' '' @ nm"
  have "CHR ''('' \<notin> set (params @ '');'')" "CHR '' '' \<notin> set nm" "CHR ''('' \<notin> set nm"
    using assms by (auto simp: plain_def ident_def list_all_iff is_blank_def)
  moreover from this have "last (split_on (CHR '' '') (last (split_on (CHR ''('') ?w))) = nm"
  proof -
    obtain a where a: "last (split_on (CHR ''('') ?w) = a @ '' '' @ nm"
    proof (cases "CHR ''('' \<in> set (u @ '' '' @ pre @ '' '')")
      case True
      then obtain x y where "u @ '' '' @ pre @ '' '' = x @ CHR ''('' # y" "CHR ''('' \<notin> set y" by (metis split_list_last)
      then obtain y' where y: "u @ '' '' @ pre @ '' '' = x @ CHR ''('' # y' @ '' ''" "CHR ''('' \<notin> set y'"
        by (cases y rule: rev_cases) auto
      have w: "?w = x @ CHR ''('' # (y' @ '' '' @ nm)" using y(1) by (metis append.assoc append_Cons)
      have "last (split_on (CHR ''('') ?w) = y' @ '' '' @ nm"
        unfolding w by (rule last_split_on) (use y(2) \<open>CHR ''('' \<notin> set nm\<close> in auto)
      then show ?thesis by (rule that)
    next
      case False
      then have "split_on (CHR ''('') ?w = [?w]" using \<open>CHR ''('' \<notin> set nm\<close> by (intro split_on_absent) auto
      then show ?thesis using that [of "u @ '' '' @ pre"] by simp
    qed
    then show ?thesis using last_split_on [of "CHR '' ''" nm a] \<open>CHR '' '' \<notin> set nm\<close> by simp
  qed
  moreover have "u @ '' '' @ signature pre nm params = ?w @ CHR ''('' # params @ '');''" by (simp add: signature_def)
  ultimately have s: "split_on (CHR ''('') (u @ '' '' @ signature pre nm params) = split_on (CHR ''('') ?w @ [params @ '');'']"
    using split_on_append [of "CHR ''(''" ?w "params @ '');''"] by (simp add: split_on_absent)
  obtain xs x where "split_on (CHR ''('') ?w = xs @ [x]" by (cases "split_on (CHR ''('') ?w" rule: rev_cases) auto
  then show ?thesis
    using s \<open>last (split_on (CHR '' '') (last (split_on (CHR ''('') ?w))) = nm\<close> by (simp add: declared_name_def)
qed

lemma first_parens_call:
  assumes "plain ''(){}'' s"
  shows "first_parens (token_call @ ''('' @ s @ '')'' @ w) = Some s"
proof -
  have "takeWhile (\<lambda>c. c \<noteq> CHR '')'') (s @ '')'' @ w) = s" using assms by (subst takeWhile_append2) (auto simp: plain_def list_all_iff)
  then show ?thesis by (simp add: first_parens_def)
qed

lemma strip_id: "t \<noteq> [] \<Longrightarrow> \<not> is_blank (hd t) \<Longrightarrow> \<not> is_blank (last t) \<Longrightarrow> strip t = t"
proof -
  assume t: "t \<noteq> []" "\<not> is_blank (hd t)" "\<not> is_blank (last t)"
  then have "lstrip t = t" by (cases t) (simp_all add: lstrip_def)
  moreover have "dropWhile is_blank (rev t) = rev t" using t by (cases t rule: rev_cases) simp_all
  ultimately show "strip t = t" by (simp add: strip_def)
qed

lemma types_read:
  assumes "type_text r" "list_all type_text as"
  shows "map strip (split_on (CHR '','') (r @ comma_list as)) = r # as"
  using assms
proof (induction as arbitrary: r)
  case Nil
  then have "CHR '','' \<notin> set r" by (auto simp: type_text_def plain_def list_all_iff)
  then show ?case using Nil by (simp add: comma_list_def split_on_absent strip_id type_text_def)
next
  case (Cons a as)
  have r: "CHR '','' \<notin> set r" using Cons.prems by (auto simp: type_text_def plain_def list_all_iff)
  have "split_on (CHR '','') (r @ comma_list (a # as)) = r # split_on (CHR '','') ('' '' @ a @ comma_list as)"
    using split_on_append [of "CHR '',''" r "'' '' @ a @ comma_list as"] r by (simp add: comma_list_def split_on_absent)
  moreover obtain x xs where x: "split_on (CHR '','') (a @ comma_list as) = x # xs" by (cases "split_on (CHR '','') (a @ comma_list as)") auto
  moreover from x have "split_on (CHR '','') ('' '' @ a @ comma_list as) = ('' '' @ x) # xs" by simp
  moreover have "strip ('' '' @ x) = strip x" by (simp add: strip_def lstrip_def is_blank_def)
  moreover have "map strip (x # xs) = a # as" using Cons.IH [of a] Cons.prems x by simp
  ultimately show ?case using Cons.prems by (simp add: strip_id type_text_def)
qed

section \<open>The scanner finds what a header registers\<close>

lemma keyword_freeD: "keyword_free v \<Longrightarrow> \<not> opens_scope v \<and> \<not> starts_with token_call v \<and> \<not> starts_with token_evt v"
  by (simp add: keyword_free_def opens_scope_def)

lemma scan_line_inside:
  assumes "stands_in k ps st" "names_ok ps" "keyword_free v" "ps \<noteq> [] \<Longrightarrow> 1 + k + braces v \<noteq> 0"
  shows "\<exists>st'. scan_lines (v # vs) st = scan_lines vs st' \<and> stands_in (k + braces v) ps st' \<and> funcs st' = funcs st \<and> evts st' = evts st"
proof -
  obtain st' where "scan_scope v st = Some st'" "stands_in (k + braces v) ps st'" "funcs st' = funcs st" "evts st' = evts st"
    using scan_scope_inside [OF assms(1,2) _ assms(4)] keyword_freeD [OF assms(3)] by blast
  then show ?thesis using scan_token_other keyword_freeD [OF assms(3)] by auto
qed

lemma closing_free [simp]: "keyword_free ''}''" "keyword_free ''};''"
  by (simp_all add: keyword_free_def)

lemma opens_no_token: "opens_scope v \<Longrightarrow> \<not> starts_with token_call v \<and> \<not> starts_with token_evt v"
  by (cases v) (auto simp: opens_scope_def)

lemma opens_append: "opens_scope v \<Longrightarrow> opens_scope (v @ w)"
  by (auto simp: opens_scope_def intro: starts_with_append)

lemma scan_declaration:
  assumes "stands_in 0 ps st" "names_ok ps" "starts_with ''DCS_REGISTER'' v" "plain ''{}'' v" "scan_token v = f"
  shows "\<exists>st1. scan_lines (v # vs) st = Option.bind (f st1) (scan_lines vs) \<and> stands_in 0 ps st1 \<and> funcs st1 = funcs st \<and> evts st1 = evts st"
proof -
  have "\<not> opens_scope v" using assms(3) by (cases v) (auto simp: opens_scope_def)
  then show ?thesis using scan_scope_inside [OF assms(1,2), of v] braces_plain [OF assms(4)] assms(5) by auto
qed

lemma stands_in_found [simp]:
  "stands_in k ps (st\<lparr>funcs := x\<rparr>) = stands_in k ps st" "stands_in k ps (st\<lparr>evts := y\<rparr>) = stands_in k ps st"
  by (simp_all add: stands_in_def)

lemma scan_item:
  assumes "wf_item ps it" "stands_in 0 ps st" "names_ok ps"
  shows "\<exists>st'. scan_lines (logical it @ vs) st = scan_lines vs st' \<and> stands_in 0 ps st'
    \<and> funcs st' = funcs st @ item_calls ps it \<and> evts st' = evts st @ item_events ps it"
  using assms
proof (induction it arbitrary: ps st vs)
  case (Scope kw n its tail cl)
  have n: "ident n" "n \<notin> set ps" "names_ok (ps @ [n])" "opens_scope kw"
    using Scope.prems by (auto simp: names_ok_def ident_def opens_scope_def)
  have its: "\<exists>st'. scan_lines (concat (map logical xs) @ vs) st = scan_lines vs st' \<and> stands_in 0 (ps @ [n]) st'
      \<and> funcs st' = funcs st @ concat (map (item_calls (ps @ [n])) xs) \<and> evts st' = evts st @ concat (map (item_events (ps @ [n])) xs)"
    if "set xs \<subseteq> set its" "stands_in 0 (ps @ [n]) st" for xs vs st
    using that
  proof (induction xs arbitrary: st)
    case (Cons x xs)
    then have "wf_item (ps @ [n]) x" "x \<in> set its" using Scope.prems(1) by (auto simp: list_all_iff)
    then obtain st1 where st1: "scan_lines (logical x @ concat (map logical xs) @ vs) st = scan_lines (concat (map logical xs) @ vs) st1"
      "stands_in 0 (ps @ [n]) st1" "funcs st1 = funcs st @ item_calls (ps @ [n]) x" "evts st1 = evts st @ item_events (ps @ [n]) x"
      using Scope.IH [of x "ps @ [n]" st "concat (map logical xs) @ vs"] Cons.prems n(3) by auto
    then show ?case using Cons.IH [OF _ st1(2)] Cons.prems by auto
  qed auto
  let ?v = "kw @ '' '' @ n @ '' {''"
  obtain st1 where st1: "scan_scope ?v st = Some st1" "stands_in 0 (ps @ [n]) st1" "funcs st1 = funcs st" "evts st1 = evts st"
    using scan_scope_enter [OF Scope.prems(2,3) n(4,1,2)] by blast
  obtain st2 where st2: "scan_lines (concat (map logical its) @ joined tail cl # vs) st1 = scan_lines (joined tail cl # vs) st2" "stands_in 0 (ps @ [n]) st2"
    "funcs st2 = funcs st1 @ concat (map (item_calls (ps @ [n])) its)" "evts st2 = evts st1 @ concat (map (item_events (ps @ [n])) its)"
    using its [OF _ st1(2), of its "joined tail cl # vs"] by auto
  have cl: "\<not> opens_scope (joined tail cl)" "braces (joined tail cl) = -1"
    "\<not> starts_with token_call (joined tail cl)" "\<not> starts_with token_evt (joined tail cl)"
    using Scope.prems(1) keyword_freeD [of "joined tail cl"] braces_joined [of tail cl] by auto
  obtain st3 where st3: "scan_scope (joined tail cl) st2 = Some st3" "stands_in 0 ps st3" "funcs st3 = funcs st2" "evts st3 = evts st2"
    using scan_scope_leave [OF st2(2) n(3) cl(1,2)] by blast
  have "scan_token ?v st1 = Some st1" using opens_no_token [OF opens_append [OF n(4)]] by (intro scan_token_other) blast+
  moreover have "scan_token (joined tail cl) st3 = Some st3" using cl by (intro scan_token_other)
  ultimately have "scan_lines (logical (Scope kw n its tail cl) @ vs) st = scan_lines vs st3" using st1(1) st2(1) st3(1) by simp
  then show ?case using st1(3,4) st2(3,4) st3(2-4) by (intro exI [of _ st3]) simp
next
  case (RegCall r as pre nm params)
  let ?v = "call_mark r as @ '' '' @ signature pre nm params"
  have wf: "type_text r" "list_all type_text as" "ident nm" "plain ''(){}'' params" "plain ''(){}'' pre" using RegCall.prems(1) by auto
  have args: "plain ''(){}'' (r @ comma_list as)" using call_mark_plain wf by blast
  have v: "?v = token_call @ ''('' @ (r @ comma_list as) @ '')'' @ '' '' @ signature pre nm params" by (simp add: call_mark_def)
  have "plain ''{}'' ?v"
    using plain_mono [OF args] plain_mono [OF wf(4)] plain_mono [OF wf(5)] plain_mono [of "''(){};, ''" nm] identD [OF wf(3)]
    by (simp add: call_mark_def signature_def)
  then obtain st1 where st1: "scan_lines (?v # vs) st = Option.bind (scan_token ?v st1) (scan_lines vs)" "stands_in 0 ps st1"
    "funcs st1 = funcs st" "evts st1 = evts st"
    using scan_declaration [OF RegCall.prems(2,3), of ?v "scan_token ?v" vs] by (auto simp: call_mark_def)
  have "f_prefix st1 = ps" using st1(2) by (simp add: stands_in_def)
  then have "scan_token ?v st1 = Some (st1\<lparr>funcs := funcs st1 @ item_calls ps (RegCall r as pre nm params)\<rparr>)"
    using declared_name_signature [OF wf(3,4), of "call_mark r as" pre] first_parens_call [OF args] types_read [OF wf(1,2)]
    unfolding scan_token_def v by (simp add: call_mark_def)
  then show ?case using st1
    by (intro exI [of _ "st1\<lparr>funcs := funcs st1 @ item_calls ps (RegCall r as pre nm params)\<rparr>"]) (simp del: item_calls.simps(2))
next
  case (RegEvent pre nm params)
  let ?v = "token_evt @ '' '' @ signature pre nm params"
  have wf: "ident nm" "plain ''(){}'' params" "plain ''(){}'' pre" using RegEvent.prems(1) by auto
  have "plain ''{}'' ?v"
    using plain_mono [OF wf(2)] plain_mono [OF wf(3)] plain_mono [of "''(){};, ''" nm] identD [OF wf(1)] by (simp add: signature_def)
  then obtain st1 where st1: "scan_lines (?v # vs) st = Option.bind (scan_token ?v st1) (scan_lines vs)" "stands_in 0 ps st1"
    "funcs st1 = funcs st" "evts st1 = evts st"
    using scan_declaration [OF RegEvent.prems(2,3), of ?v "scan_token ?v" vs] by auto
  have "f_prefix st1 = ps" using st1(2) by (simp add: stands_in_def)
  then have "scan_token ?v st1 = Some (st1\<lparr>evts := evts st1 @ item_events ps (RegEvent pre nm params)\<rparr>)"
    using declared_name_signature [OF wf(1,2), of token_evt pre] by (simp add: scan_token_def)
  then show ?case using st1
    by (intro exI [of _ "st1\<lparr>evts := evts st1 @ item_events ps (RegEvent pre nm params)\<rparr>"]) simp
next
  case (Decl frags l)
  then have "braces (joined frags l) = 0" "keyword_free (joined frags l)" using braces_joined [of frags l] braces_plain [of l] by auto
  then show ?case using scan_line_inside [OF Decl.prems(2,3), of "joined frags l" vs] by auto
next
  case (Block frags op body cl)
  then have b: "braces (joined frags op) = 1" "keyword_free (joined frags op)" "braces (joined body cl) = -1" "keyword_free (joined body cl)"
    using braces_joined [of frags op] braces_joined [of body cl] by auto
  obtain st1 where st1: "scan_lines (joined frags op # joined body cl # vs) st = scan_lines (joined body cl # vs) st1"
    "stands_in 1 ps st1" "funcs st1 = funcs st" "evts st1 = evts st"
    using scan_line_inside [OF Block.prems(2,3) b(2), of "joined body cl # vs"] b(1) by auto
  then show ?case using scan_line_inside [OF st1(2) Block.prems(3) b(4), of vs] b(3) by auto
qed auto

lemma clean_items:
  "list_all (wf_item ps) its \<Longrightarrow> clean compdef [] (concat (map (print_item d) its) @ ls) = concat (map logical its) @ clean compdef [] ls"
  by (induction its) (simp_all add: clean_item [of ps])

lemma scan_items:
  assumes "list_all (wf_item ps) its" "stands_in 0 ps st" "names_ok ps"
  shows "\<exists>st'. scan_lines (concat (map logical its) @ vs) st = scan_lines vs st' \<and> stands_in 0 ps st'
    \<and> funcs st' = funcs st @ concat (map (item_calls ps) its) \<and> evts st' = evts st @ concat (map (item_events ps) its)"
  using assms
proof (induction its arbitrary: st)
  case (Cons x xs)
  then obtain st1 where st1: "scan_lines (logical x @ concat (map logical xs) @ vs) st = scan_lines (concat (map logical xs) @ vs) st1"
    "stands_in 0 ps st1" "funcs st1 = funcs st @ item_calls ps x" "evts st1 = evts st @ item_events ps x"
    using scan_item [of ps x st "concat (map logical xs) @ vs"] by auto
  then show ?case using Cons.IH [OF _ st1(2)] Cons.prems by auto
qed auto

text \<open>A header is printed as its items.\<close>

definition print_header :: "item list \<Rightarrow> string list" where
  "print_header its = concat (map (print_item 0) its)"

definition header_finds :: "item list \<Rightarrow> found list \<times> string list" where
  "header_finds its = (concat (map (item_calls []) its), concat (map (item_events []) its))"

lemma clean_header: "list_all (wf_item []) its \<Longrightarrow> clean compdef [] (print_header its) = concat (map logical its)"
  using clean_items [of "[]" its compdef 0 "[]"] by (simp add: print_header_def)

abbreviation scan_start :: "found list \<Rightarrow> string list \<Rightarrow> scan" where
  "scan_start fs es \<equiv> \<lparr>f_prefix = [], oc = (\<lambda>_. 0), scope = [], funcs = fs, evts = es\<rparr>"

lemma start_ok [simp]: "stands_in 0 [] (scan_start fs es)" "names_ok []"
  by (simp_all add: stands_in_def names_ok_def)

lemma scan_header:
  assumes "list_all (wf_item []) its"
  shows "\<exists>st. scan_lines (clean compdef [] (print_header its)) (scan_start fs es) = Some st
    \<and> funcs st = fs @ fst (header_finds its) \<and> evts st = es @ snd (header_finds its)"
  using scan_items [OF assms, of "scan_start fs es" "[]"] clean_header [OF assms] by (auto simp: header_finds_def)

text \<open>
  C34. Printing and scanning. Whatever registered functions and events are declared in the headers, in whatever scopes, and
  whatever other declarations, blocks in braces and comments stand between them: the scanner finds exactly the registered ones, in
  their order, each with the names of its scopes, the type of its result and the types of its arguments.
\<close>

theorem scanner_finds_declarations:
  assumes "list_all (list_all (wf_item [])) headers"
  shows "getTokenSymbols (cleanFiles compdef (map print_header headers))
    = Some (concat (map (fst \<circ> header_finds) headers), concat (map (snd \<circ> header_finds) headers))"
proof -
  have "scan_files (map (clean c [] \<circ> print_header) headers) fs es
      = Some (fs @ concat (map (fst \<circ> header_finds) headers), es @ concat (map (snd \<circ> header_finds) headers))" for c fs es
    using assms
  proof (induction headers arbitrary: fs es)
    case (Cons h hs)
    then obtain st where "scan_lines (clean c [] (print_header h)) (scan_start fs es) = Some st"
      "funcs st = fs @ fst (header_finds h)" "evts st = es @ snd (header_finds h)"
      using scan_header [of h c fs es] by auto
    then show ?case using Cons by simp
  qed simp
  then show ?thesis by (simp add: getTokenSymbols_def cleanFiles_def comp_def)
qed

theorem scanner_finds_declarations_witness:
  "getTokenSymbols (cleanFiles [''NO_ENCODER_AVAILABLE''] [print_header
      [Remark ''#pragma once'',
       Scope ''namespace'' ''DCS''
         [Block [''enum class Unit''] ''{'' [''A, // first'', ''B''] ''};'',
          Scope ''namespace'' ''DAQ'' [RegCall ''DCS::u16'' [''DCS::i8'', ''DCS::f64''] ''DCS_API u16'' ''Read'' ''i8 axis, f64 rate'',
            RegEvent ''DCS_API void'' ''Moved'' []] [] ''}'',
          RegCall ''void'' [] ''DCS_API void'' ''Stop'' []] [] ''}'']])
    = Some ([\<lparr>fd_name = ''DCS::DAQ::Read'', fd_ret = ''DCS::u16'', fd_args = [''DCS::i8'', ''DCS::f64'']\<rparr>,
          \<lparr>fd_name = ''DCS::Stop'', fd_ret = [], fd_args = [[]]\<rparr>],
        [''DCS::DAQ::Moved''])"
proof -
  let ?its = "[Remark ''#pragma once'',
       Scope ''namespace'' ''DCS''
         [Block [''enum class Unit''] ''{'' [''A, // first'', ''B''] ''};'',
          Scope ''namespace'' ''DAQ'' [RegCall ''DCS::u16'' [''DCS::i8'', ''DCS::f64''] ''DCS_API u16'' ''Read'' ''i8 axis, f64 rate'',
            RegEvent ''DCS_API void'' ''Moved'' []] [] ''}'',
          RegCall ''void'' [] ''DCS_API void'' ''Stop'' []] [] ''}'']"
  have "list_all (list_all (wf_item [])) [?its]" by code_simp
  moreover have "concat (map (fst \<circ> header_finds) [?its]) = [\<lparr>fd_name = ''DCS::DAQ::Read'', fd_ret = ''DCS::u16'', fd_args = [''DCS::i8'', ''DCS::f64'']\<rparr>,
      \<lparr>fd_name = ''DCS::Stop'', fd_ret = [], fd_args = [[]]\<rparr>]"
    by code_simp
  moreover have "concat (map (snd \<circ> header_finds) [?its]) = [''DCS::DAQ::Moved'']" by code_simp
  ultimately show ?thesis using scanner_finds_declarations [of "[?its]" "[''NO_ENCODER_AVAILABLE'']"] by (simp del: wf_item.simps)
qed

end
