(* ===== verification/Headers.thy ===== *)
theory Headers
  imports Scanner
begin

text \<open>
  The headers of the repository that register functions and events, as they are written, and what the scanner of \<^verbatim>\<open>scripts/DCSGen.py\<close>
  finds in them: exactly the tables of \<^verbatim>\<open>Calls\<close>. Of each header the scopes are kept that register something; comments on lines of
  their own are left out, comments behind a declaration are kept, with blanks for their tabulators.
\<close>

section \<open>The scopes\<close>

definition database_items :: "item list" where
  "database_items =
     [Block [''enum class Authority''] ''{'' [''SYS, ///< I/O Operations as system.'', ''USER ///< I/O Operations as the logged in user.''] ''};'',
      Decl [] ''DCS_API void Open();'',
      Decl [] ''DCS_API void Close();'',
      RegCall ''void'' [] ''DCS_API void'' ''InvalidateCache'' [],
      RegCall ''DCS::f64'' [''DCS::Utils::BasicString''] ''const DCS_API f64'' ''ReadValuef64'' ''Utils::BasicString variable'',
      RegCall ''DCS::Utils::BasicString'' [''DCS::Utils::BasicString''] ''const DCS_API Utils::BasicString'' ''ReadValueString'' ''Utils::BasicString variable'',
      RegCall ''void'' [''DCS::Database::Authority'', ''DCS::Utils::BasicString'', ''DCS::f64'', ''DCS::Utils::BasicString''] ''DCS_API void'' ''WriteValuef64'' ''Authority auth, Utils::BasicString variable, f64 value, Utils::BasicString description'',
      RegCall ''void'' [''DCS::Database::Authority'', ''DCS::Utils::BasicString'', ''DCS::Utils::BasicString'', ''DCS::Utils::BasicString''] ''DCS_API void'' ''WriteValueString'' ''Authority auth, Utils::BasicString variable, Utils::BasicString value, Utils::BasicString description'',
      RegCall ''void'' [''DCS::Database::Authority'', ''DCS::Utils::BasicString''] ''DCS_API void'' ''DeleteValue'' ''Authority auth, Utils::BasicString variable'']"

definition threading_items :: "item list" where
  "threading_items =
     [RegCall ''DCS::u16'' [] ''const DCS_API u16'' ''GetMaxHardwareConcurrency'' []]"

definition control_items :: "item list" where
  "control_items =
     [Block [''enum class UnitTarget''] ''{'' [''ESP301,  ///< The ESP301 rotation stage controller target.'', ''PMC8742, ///< The PMC8742 tilt stage controller target.'', ''XPSRLD4  ///< The XPS-RLD4 rotation stage controller target.''] ''};'',
      Decl [] ''DCS_API void StartServices(const char* esp301_com = \"COM3\", const char* pmc8742_usb = \"104D-4000\", const char* xps_rld4 = \"10.80.0.100\");'',
      Decl [] ''DCS_API void StopServices();'',
      RegCall ''void'' [''DCS::Control::UnitTarget'', ''DCS::Utils::BasicString''] ''DCS_API void'' ''IssueGenericCommand'' ''UnitTarget target, DCS::Utils::BasicString full_command'',
      RegCall ''DCS::Utils::BasicString'' [''DCS::Control::UnitTarget'', ''DCS::Utils::BasicString''] ''DCS_API DCS::Utils::BasicString'' ''IssueGenericCommandResponse'' ''UnitTarget target, DCS::Utils::BasicString full_command'',
      Block [''enum class PIDStatus''] ''{'' [''OFF, ///< Manual PID control is disabled.'', ''READY, ///< Manual PID control is ready to work.'', ''WORKING ///< Manual PID control is busy working.''] ''};'',
      Scope ''struct'' ''PIDStatusGroup''
       []
       [''UnitTarget target;        ///< The configuration's target.'', ''DCS::Utils::BasicString group; ///< The configuration's group.'', ''PIDStatus status;      ///< The configuration's status.''] ''};'',
      RegCall ''void'' [''DCS::Control::UnitTarget'', ''DCS::Utils::BasicString'', ''DCS::i8'', ''DCS::f64'', ''DCS::f64'', ''DCS::f64''] ''DCS_API void'' ''SetPIDControlVariables'' ''UnitTarget target, DCS::Utils::BasicString group, i8 encoder_axis, f64 Kp, f64 Ki, f64 Kd'',
      RegCall ''void'' [''DCS::Control::UnitTarget'', ''DCS::Utils::BasicString'', ''DCS::f64''] ''DCS_API void'' ''MoveAbsolutePID'' ''UnitTarget target, DCS::Utils::BasicString group, f64 target_position'',
      RegCall ''void'' [''DCS::Control::UnitTarget'', ''DCS::Utils::BasicString'', ''DCS::f64''] ''DCS_API void'' ''MoveRelative'' ''UnitTarget target, DCS::Utils::BasicString group, f64 target_position'',
      RegEvent ''DCS_API void'' ''MoveAbsolutePIDChanged'' ''PIDStatusGroup status_group'']"

definition daq_items :: "item list" where
  "daq_items =
     [Block [''enum class ChannelType''] ''{'' [''None,    ///< No channel.'', ''Voltage, ///< A voltage channel.'', ''Digital, ///< A digital channel.'', ''Counter, ///< A counter channel. Freq out for outputs.'', ''PTGen    ///< A Pulse train generator channel (AKA signal generator).''] ''};'',
      Block [''enum class ChannelRef''] ''{'' [''None               =      0, ///< No reference. Will cause an error if used.'', ''Default            =     -1, ///< Let DAQmx use the default reference for the current channel.'', ''SingleEnded        =  10083, ///< Use referenced single ended signal.'', ''NoRefSingleEnded   =  10078, ///< Use unreferenced single ended signal.'', ''Differential       =  10106, ///< Use differential signal.'', ''PseudoDifferential =  12529  ///< Use pseudo-differential signal. See <a href=\"https://knowledge.ni.com/KnowledgeArticleDetails?id=kA00Z0000019YuUSAU&l=pt-PT\">here</a> for more info.''] ''};'',
      Scope ''struct DCS_API'' ''ChannelLimits''
       []
       [''DCS::f64 min = -10.0; ///< Minimum DAQ accepted value.'', ''DCS::f64 max =  10.0; ///< Maximum DAQ accepted value.''] ''};'',
      Block [''enum class ChannelCountRef''] ''{'' [''CountUp = 10128, ///< Count up from 0.'', ''CountDown = 10124 ///< Count down from defined value.''] ''};'',
      Scope ''struct DCS_INTERNAL_TEST'' ''EventData''
       []
       [''Math::CountResult counts;                      ///< Counts from the main detector this event.'', ''u64               counts_delta;                ///< Count difference this event (ideally zero).'', ''Timer::Timestamp  timestamp_wall;              ///< CPU time for this event.'', ''u64               timestamp_real;              ///< Hardware time for this event.'', ''f64               angle_c1;                    ///< Crystal 1 rotation measurement for this event.'', ''f64               angle_c2;                    ///< Crystal 2 rotation measurement for this event.'', ''f64               angle_table;                 ///< Table rotation measurement for this event.'', ''f64               angle_detector;              ///< Detector rotation measurement for this event.'', ''f64               angle_eqv_bragg;             ///< Calculated bragg angle for this event.'', ''f64               temp_c1;                     ///< Crystal 1 temperature measurement for this event.'', ''f64               temp_c2;                     ///< Crystal 2 temperature measurement for this event.'', ''f64               lattice_spacing_uncorrected; ///< Lattice spacing value for this event (fixed depending on crystal type).'', ''f64               lattice_spacing_corrected;   ///< Lattice spacing value for this event (temperature corrected).'', ''u64               bin_number_uncorrected;      ///< Bin id where this will land.'', ''u64               bin_number_corrected;        ///< Bin id where this will land (temperature corrected).''] ''};'',
      Scope ''struct DCS_API'' ''DCSCountEventData''
       []
       [''DCS::u64 counts;                 ///< The total X-ray unique counts.'', ''DCS::Timer::Timestamp timestamp; ///< The time these counts were performed (software time).'', ''DCS::u64 deterministicET;        ///< The time these counts were performed (theoretical time).'', ''DCS::f64 expected_angle;         ///< The expected angle of the engine at time of counts (x = vt).'', ''DCS::f64 measured_angle;         ///< The measured angle of the engine at time of counts.''] ''};'',
      Scope ''struct DCS_API'' ''MCACountEventData''
       []
       [''DCS::u64 count;                  ///< Stores `bins` array size in words (16-bit windows like for 64-bit machines).'', ''DCS::Timer::Timestamp timestamp; ///< The time these counts were performed (software time).'', ''DCS::u16 total_max_bin_count;    ///< Max size of channels in the MCA (typically 1024 / 2048 / ... / 65535 (max for NI-6229))'', ''DCS::u16 bins[128];              ///< The bins value array (this is not a frequency list).''] ''};'',
      Scope ''struct DCS_API'' ''ClinometerEventData''
       [Decl [] ''f64 list_cliX[500];'',
        Decl [] ''f64 list_cliY[500];'',
        Decl [] ''DCS::Timer::Timestamp timestamp;'']
       [] ''};'',
      Decl [] ''DCS_API void Init();'',
      Decl [] ''DCS_API void Terminate();'',
      RegCall ''void'' [''DCS::Utils::BasicString'', ''DCS::Utils::BasicString'', ''DCS::DAQ::ChannelRef'', ''DCS::DAQ::ChannelLimits''] ''DCS_API void'' ''NewAIVChannel'' ''DCS::Utils::BasicString name, DCS::Utils::BasicString channel_name, ChannelRef ref, ChannelLimits lim'',
      RegCall ''void'' [''DCS::Utils::BasicString''] ''DCS_API void'' ''DeleteChannel'' ''DCS::Utils::BasicString name'',
      RegCall ''void'' [''DCS::Utils::BasicString'', ''DCS::f64''] ''DCS_API void'' ''StartAIAcquisition'' ''DCS::Utils::BasicString clock_trigger_channel, DCS::f64 samplerate'',
      RegCall ''void'' [] ''DCS_API void'' ''StopAIAcquisition'' [],
      RegCall ''void'' [''DCS::Utils::BasicString'', ''DCS::Utils::BasicString'', ''DCS::DAQ::ChannelCountRef''] ''DCS_API void'' ''NewCIChannel'' ''DCS::Utils::BasicString name, DCS::Utils::BasicString channel_name, ChannelCountRef ref'',
      RegCall ''void'' [''DCS::Utils::BasicString'', ''DCS::Utils::BasicString'', ''DCS::f64''] ''DCS_API void'' ''NewPTGChannel'' ''DCS::Utils::BasicString name, DCS::Utils::BasicString channel_name, f64 rate'',
      RegCall ''void'' [''DCS::Utils::BasicString'', ''DCS::Utils::BasicString'', ''DCS::Utils::BasicString'', ''DCS::f64''] ''DCS_API void'' ''StartCIAcquisition'' ''DCS::Utils::BasicString clock_trigger_channel, DCS::Utils::BasicString pause_trigger_channel, DCS::Utils::BasicString reset_trigger_channel, f64 rate'',
      RegCall ''void'' [] ''DCS_API void'' ''StopCIAcquisition'' [],
      RegCall ''void'' [''DCS::f64''] ''DCS_API void'' ''StartDIAcquisition'' ''DCS::f64 samplerate'',
      RegCall ''void'' [] ''DCS_API void'' ''StopDIAcquisition'' [],
      RegCall ''DCS::u16'' [] ''DCS_API u16'' ''GetMCANumChannels'' [],
      RegCall ''void'' [''DCS::u16''] ''DCS_API void'' ''SetMCANumChannels'' ''u16 nChannels'',
      RegCall ''DCS::f64'' [] ''DCS_API f64'' ''GetADCMaxInternalClock'' [],
      RegCall ''DCS::Utils::BasicString'' [] ''DCS_API DCS::Utils::BasicString'' ''GetConnectedDevicesAliases'' [],
      RegEvent ''DCS_API void'' ''DCSCountEvent'' [],
      RegEvent ''DCS_API void'' ''MCACountEvent'' ''u16 mca_num_channels'',
      RegEvent ''DCS_API void'' ''ClinometerEvent'' []]"

definition temp_items :: "item list" where
  "temp_items =
     [Scope ''struct DCS_API'' ''TemperatureData''
       []
       [''f64 crystals[2]; //< Temperature data for both crystals''] ''};'',
      RegCall ''DCS::Temp::TemperatureData'' [] ''DCS_API TemperatureData'' ''InspectLastTemperatureValues'' [],
      Decl [] ''DCS_API void Init(const char* com_port);'',
      Decl [] ''DCS_API void Terminate();'']"

definition enc_items :: "item list" where
  "enc_items =
     [Scope ''struct DCS_API'' ''EncoderAxisData''
       []
       [''i8  axis;            //< Axis value'', ''i64 position;        //< Position value'', ''f64 calpos;          //< Double converted position'', ''u16 status;          //< Status word'', ''u16 triggerCounter;  //< Trigger counter value'', ''u32 timestamp;       //< Timestamp'', ''i64 ref[2];          //< Reference position values''] ''};'',
      Scope ''struct DCS_API'' ''EncoderData''
       [Decl [] ''i8 numAxis;              //< Number of axis present;'']
       [''EncoderAxisData axis[4]; //< Encoder axes list''] ''};'',
      RegCall ''DCS::ENC::EncoderData'' [] ''DCS_API EncoderData'' ''InspectLastEncoderValues'' [],
      RegCall ''DCS::u32'' [] ''DCS_API u32'' ''GetTriggerPeriod'' [],
      RegCall ''DCS::u8'' [] ''DCS_API u8'' ''EncoderNeedsRefRun'' [],
      Decl [] ''DCS_API void Init(const char* ip, i8 axis, f64 sigperiods[4]);'',
      Decl [] ''DCS_API void Terminate();'']"

definition callback_items :: "item list" where
  "callback_items =
     [Decl [] ''typedef void* TaskHandle;'',
      RegEvent ''DCS::i32'' ''VoltageEvent'' ''TaskHandle taskHandle, DCS::i32 everyNsamplesEventType, DCS::u32 nSamples, void *callbackData'',
      RegEvent ''DCS::i32'' ''CountEvent'' ''TaskHandle taskHandle, DCS::i32 everyNsamplesEventType, DCS::u32 nSamples, void *callbackData'']"

definition message_items :: "item list" where
  "message_items =
     [Decl [] ''DCS_API DCS::Utils::AsyncItem<DCS::Registry::SVReturn> SendAsync(Operation op, u8 *data, i32 size);'',
      Decl [] ''DCS_API Registry::SVReturn SendSync(Operation op, u8 *data, i32 size);'',
      RegEvent ''DCS_API void'' ''FibSeqEvt'' []]"

section \<open>The files\<close>

datatype header_file = Core_file | Engine_file | Acquisition_file | Acquisition_internal_file | Network_file

abbreviation in_namespace :: "string \<Rightarrow> item list \<Rightarrow> item" where
  "in_namespace n its \<equiv> Scope ''namespace'' n its [] ''}''"

text \<open>The lines around the namespace \<^verbatim>\<open>DCS\<close>.\<close>

definition guard_open :: "string \<Rightarrow> item list" where
  "guard_open g = [Remark (''#ifndef '' @ g), Remark (''#define '' @ g), Remark ''#pragma once'',
     Remark ''#include \"../../config/exports.h\"'', Remark ''#include \"../../DCS_Utils/include/DCS_ModuleUtils.h\"'']"

definition guard_close :: "string \<Rightarrow> item list" where
  "guard_close g = [Remark (''#endif //'' @ g)]"

definition core_header :: "item list" where
  "core_header = guard_open ''_DCS_CORE_H''
     @ [in_namespace ''DCS'' [in_namespace ''Database'' database_items, in_namespace ''Threading'' threading_items]]
     @ guard_close ''_DCS_CORE_H''"

definition engine_header :: "item list" where
  "engine_header = guard_open ''_DCS_ENGINECONTROL_H''
     @ [in_namespace ''DCS'' [in_namespace ''Control'' control_items]]
     @ guard_close ''_DCS_ENGINECONTROL_H''"

definition acquisition_internal_header :: "item list" where
  "acquisition_internal_header =
     [Remark ''#pragma once'', Remark ''#include \"DCS_ModuleAcquisition.h\"'', Remark ''#include \"../../config/exports.h\"'',
      Remark ''#define INTERNAL_SAMP_SIZE 1000'', Remark ''#define INTERNAL_ADC_MAX_CHAN 65535'',
      Remark ''#define INTERNAL_ADC_MAX_CLK 250000.0'', in_namespace ''DCS'' [in_namespace ''DAQ'' callback_items]]"

definition network_header :: "item list" where
  "network_header = guard_open ''_DCS_NETWORK_H''
     @ [in_namespace ''DCS'' [in_namespace ''Network'' [in_namespace ''Message'' message_items]]]
     @ guard_close ''_DCS_NETWORK_H''"

text \<open>The header of the acquisition has the encoder's part in a conditional block.\<close>

definition acq_scopes :: "item list" where
  "acq_scopes = [in_namespace ''DAQ'' daq_items, in_namespace ''Temp'' temp_items]"

definition enc_scope :: item where
  "enc_scope = in_namespace ''ENC'' enc_items"

definition acquisition_lines :: "string list" where
  "acquisition_lines = print_header (guard_open ''_DCS_ACQ_H'')
     @ [line 0 ''namespace DCS'', line 0 ''{''] @ concat (map (print_item 1) acq_scopes)
     @ [line 0 ''#ifndef NO_ENCODER_AVAILABLE'', line 0 ''#define DCS_MODULE_ENCODER''] @ print_item 1 enc_scope
     @ [line 0 ''#endif //NO_ENCODER_AVAILABLE'', line 0 ''}'', [newline], line 0 ''#endif //_DCS_ACQ_H'']"

fun file_lines :: "header_file \<Rightarrow> string list" where
  "file_lines Core_file = print_header core_header"
| "file_lines Engine_file = print_header engine_header"
| "file_lines Acquisition_file = acquisition_lines"
| "file_lines Acquisition_internal_file = print_header acquisition_internal_header"
| "file_lines Network_file = print_header network_header"

section \<open>They are well formed\<close>

lemmas item_tables = database_items_def threading_items_def control_items_def daq_items_def temp_items_def enc_items_def
  callback_items_def message_items_def

lemma wf_database: "list_all (wf_item [''DCS'', ''Database'']) database_items" by code_simp
lemma wf_threading: "list_all (wf_item [''DCS'', ''Threading'']) threading_items" by code_simp
lemma wf_control: "list_all (wf_item [''DCS'', ''Control'']) control_items" by code_simp
lemma wf_daq: "list_all (wf_item [''DCS'', ''DAQ'']) daq_items" by code_simp
lemma wf_temp: "list_all (wf_item [''DCS'', ''Temp'']) temp_items" by code_simp
lemma wf_enc: "list_all (wf_item [''DCS'', ''ENC'']) enc_items" by code_simp
lemma wf_callback: "list_all (wf_item [''DCS'', ''DAQ'']) callback_items" by code_simp
lemma wf_message: "list_all (wf_item [''DCS'', ''Network'', ''Message'']) message_items" by code_simp


lemma wf_namespace: "wf_item ps (in_namespace n its) \<longleftrightarrow> ident n \<and> n \<notin> set ps \<and> list_all (wf_item (ps @ [n])) its"
  by (auto simp: visible_def plain_def is_blank_def is_comment_def joined_def keyword_free_def)

lemma idents [simp]: "ident ''DCS''" "ident ''Database''" "ident ''Threading''" "ident ''Control''" "ident ''DAQ''" "ident ''Temp''"
  "ident ''ENC''" "ident ''Network''" "ident ''Message''"
  by (simp_all add: ident_def is_blank_def)

lemma wf_guards:
  "list_all (wf_item []) (guard_open ''_DCS_CORE_H'')" "list_all (wf_item []) (guard_close ''_DCS_CORE_H'')"
  "list_all (wf_item []) (guard_open ''_DCS_ENGINECONTROL_H'')" "list_all (wf_item []) (guard_close ''_DCS_ENGINECONTROL_H'')"
  "list_all (wf_item []) (guard_open ''_DCS_NETWORK_H'')" "list_all (wf_item []) (guard_close ''_DCS_NETWORK_H'')"
  "list_all (wf_item []) (guard_open ''_DCS_ACQ_H'')"
  by code_simp+

lemma wf_acq: "list_all (wf_item [''DCS'']) acq_scopes" "list_all (wf_item [''DCS'']) (acq_scopes @ [enc_scope])"
  by (simp_all add: acq_scopes_def enc_scope_def wf_namespace wf_daq wf_temp wf_enc del: wf_item.simps)

lemma wf_headers:
  "list_all (wf_item []) core_header" "list_all (wf_item []) engine_header" "list_all (wf_item []) network_header"
  unfolding core_header_def engine_header_def network_header_def
  by (simp_all add: wf_guards wf_namespace wf_database wf_threading wf_control wf_message del: wf_item.simps)

lemma wf_internal: "list_all (wf_item []) acquisition_internal_header"
proof -
  have "list_all (wf_item []) (butlast acquisition_internal_header)" by code_simp
  then show ?thesis by (simp add: acquisition_internal_header_def wf_namespace wf_callback del: wf_item.simps)
qed

section \<open>What they declare\<close>

fun ctype_text :: "ctype \<Rightarrow> string" where
  "ctype_text Ty_i8 = ''DCS::i8''"
| "ctype_text Ty_u8 = ''DCS::u8''"
| "ctype_text Ty_u16 = ''DCS::u16''"
| "ctype_text Ty_u32 = ''DCS::u32''"
| "ctype_text Ty_f64 = ''DCS::f64''"
| "ctype_text Ty_BasicString = ''DCS::Utils::BasicString''"
| "ctype_text Ty_UnitTarget = ''DCS::Control::UnitTarget''"
| "ctype_text Ty_Authority = ''DCS::Database::Authority''"
| "ctype_text Ty_ChannelRef = ''DCS::DAQ::ChannelRef''"
| "ctype_text Ty_ChannelLimits = ''DCS::DAQ::ChannelLimits''"
| "ctype_text Ty_ChannelCountRef = ''DCS::DAQ::ChannelCountRef''"
| "ctype_text Ty_TemperatureData = ''DCS::Temp::TemperatureData''"
| "ctype_text Ty_EncoderData = ''DCS::ENC::EncoderData''"

text \<open>The declaration of a call of the table, as the scanner gives it; the name of a wrapper has \<^verbatim>\<open>_\<close> for the \<^verbatim>\<open>::\<close> between its scopes.\<close>

definition colons :: "string \<Rightarrow> string" where
  "colons s = concat (map (\<lambda>c. if c = CHR ''_'' then ''::'' else [c]) s)"

definition declared :: "call \<Rightarrow> found" where
  "declared c = \<lparr>fd_name = ''DCS::'' @ colons (c_name c), fd_ret = (case c_ret c of None \<Rightarrow> [] | Some t \<Rightarrow> ctype_text t),
     fd_args = (if c_args c = [] then [[]] else map ctype_text (c_args c))\<rparr>"

fun call_header :: "header_file \<Rightarrow> header option" where
  "call_header Core_file = Some Core_h"
| "call_header Engine_file = Some EngineControl_h"
| "call_header Acquisition_file = Some Acquisition_h"
| "call_header _ = None"

fun event_header :: "header_file \<Rightarrow> evt_header option" where
  "event_header Engine_file = Some Engine_h"
| "event_header Acquisition_file = Some Acq_h"
| "event_header Acquisition_internal_file = Some Acq_internal_h"
| "event_header Network_file = Some Network_h"
| "event_header Core_file = None"

lemma declared_database: "concat (map (item_calls [''DCS'', ''Database'']) database_items) = map declared database_calls" by code_simp
lemma declared_threading: "concat (map (item_calls [''DCS'', ''Threading'']) threading_items) = map declared threading_calls" by code_simp
lemma declared_control: "concat (map (item_calls [''DCS'', ''Control'']) control_items) = map declared control_calls" by code_simp
lemma declared_daq: "concat (map (item_calls [''DCS'', ''DAQ'']) daq_items) = map declared daq_calls" by code_simp
lemma declared_temp: "concat (map (item_calls [''DCS'', ''Temp'']) temp_items) = map declared temp_calls" by code_simp
lemma declared_enc: "concat (map (item_calls [''DCS'', ''ENC'']) enc_items) = map declared enc_calls" by code_simp
lemma declared_none:
  "concat (map (item_calls [''DCS'', ''DAQ'']) callback_items) = []"
  "concat (map (item_calls [''DCS'', ''Network'', ''Message'']) message_items) = []"
  by code_simp+

lemma declared_events:
  "concat (map (item_events [''DCS'', ''Database'']) database_items) = []"
  "concat (map (item_events [''DCS'', ''Threading'']) threading_items) = []"
  "concat (map (item_events [''DCS'', ''Control'']) control_items) = control_events"
  "concat (map (item_events [''DCS'', ''DAQ'']) daq_items) = daq_events"
  "concat (map (item_events [''DCS'', ''Temp'']) temp_items) = []"
  "concat (map (item_events [''DCS'', ''ENC'']) enc_items) = []"
  "concat (map (item_events [''DCS'', ''DAQ'']) callback_items) = daq_callback_events"
  "concat (map (item_events [''DCS'', ''Network'', ''Message'']) message_items) = network_events"
  by code_simp+

lemmas declared_tables = declared_database declared_threading declared_control declared_daq declared_temp declared_enc declared_none
  declared_events

lemma guards_declare [simp]:
  "concat (map (item_calls ps) (guard_open g)) = []" "concat (map (item_calls ps) (guard_close g)) = []"
  "concat (map (item_events ps) (guard_open g)) = []" "concat (map (item_events ps) (guard_close g)) = []"
  by (simp_all add: guard_open_def guard_close_def)

lemma headers_find:
  "header_finds core_header = (map declared (database_calls @ threading_calls), [])"
  "header_finds engine_header = (map declared control_calls, control_events)"
  "header_finds acquisition_internal_header = ([], daq_callback_events)"
  "header_finds network_header = ([], network_events)"
  by (simp_all add: header_finds_def core_header_def engine_header_def acquisition_internal_header_def network_header_def declared_tables
      del: map_concat)


section \<open>The conditional block\<close>

lemma splitlines_line: "newline \<notin> set l \<Longrightarrow> splitlines (l @ newline # r) = (l @ [newline]) # splitlines r"
  by (induction l) auto

definition whole_line :: "string \<Rightarrow> bool" where
  "whole_line l \<longleftrightarrow> l \<noteq> [] \<and> last l = newline \<and> list_all (\<lambda>c. c \<noteq> newline) (butlast l)"

lemma splitlines_whole: "list_all whole_line ls \<Longrightarrow> splitlines (concat ls) = ls"
proof (induction ls)
  case (Cons l ls)
  then have w: "l \<noteq> []" "last l = newline" "list_all (\<lambda>c. c \<noteq> newline) (butlast l)" by (simp_all add: whole_line_def)
  then have "l = butlast l @ [newline]" using append_butlast_last_id [of l] by metis
  moreover have "newline \<notin> set (butlast l)" using w(3) by (auto simp: list_all_iff)
  ultimately have "splitlines (l @ concat ls) = l # splitlines (concat ls)"
    using splitlines_line [of "butlast l" "concat ls"] by (metis append.assoc append_Cons append_Nil)
  then show ?case using Cons by simp
qed simp

lemma cut_at_newline: "newline \<notin> set a \<Longrightarrow> cut_at [newline] (a @ newline # b) = Some (a, b)"
  by (induction a) auto

lemma cut_at_hash: "CHR ''#'' \<notin> set a \<Longrightarrow> cut_at (CHR ''#'' # p) (a @ b) = map_option (\<lambda>(x, y). (a @ x, y)) (cut_at (CHR ''#'' # p) b)"
  by (induction a) (simp_all add: option.map_comp comp_def case_prod_unfold option.map_ident)

lemma sub_blocks_skip: "CHR ''#'' \<notin> set a \<Longrightarrow> sub_blocks keep (a @ b) = a @ sub_blocks keep b"
  by (induction a) (auto simp: block_at_def)

lemma sub_block_here:
  assumes "newline \<notin> set nm" "newline \<notin> set e" "cut_at ''#endif'' (inner @ ''#endif'' @ e @ newline # r) = Some (inner, e @ newline # r)"
  shows "sub_blocks keep (''#ifndef '' @ nm @ newline # inner @ ''#endif'' @ e @ newline # r) = (if keep then inner else []) @ sub_blocks keep r"
  using assms cut_at_newline [OF assms(1), of "inner @ ''#endif'' @ e @ newline # r"] cut_at_newline [OF assms(2), of r]
  by (simp add: block_at_def)

text \<open>What follows the block in the acquisition's header.\<close>

definition acq_end :: "string list" where
  "acq_end = [line 0 ''}'', [newline], line 0 ''#endif //_DCS_ACQ_H'']"

lemma enc_lines: "CHR ''#'' \<notin> set (concat (print_item 1 enc_scope))" "list_all whole_line (print_item 1 enc_scope)"
proof -
  show "CHR ''#'' \<notin> set (concat (print_item 1 enc_scope))" by code_simp
  show "list_all whole_line (print_item 1 enc_scope)" by code_simp
qed

lemma acq_end_lines: "sub_blocks keep (concat acq_end) = concat acq_end" "list_all whole_line acq_end"
proof -
  have "sub_blocks True (concat acq_end) = concat acq_end" "sub_blocks False (concat acq_end) = concat acq_end" by code_simp+
  then show "sub_blocks keep (concat acq_end) = concat acq_end" by (cases keep) simp_all
  show "list_all whole_line acq_end" by code_simp
qed

lemma acquisition_block:
  "next_lines compdef (line 0 ''#ifndef NO_ENCODER_AVAILABLE'')
     (line 0 ''#define DCS_MODULE_ENCODER'' # print_item 1 enc_scope @ line 0 ''#endif //NO_ENCODER_AVAILABLE'' # acq_end)
   = (if ''NO_ENCODER_AVAILABLE'' \<in> set compdef then tl acq_end else print_item 1 enc_scope @ acq_end)"
proof -
  let ?d = "line 0 ''#define DCS_MODULE_ENCODER''"
  let ?E = "print_item 1 enc_scope"
  let ?keep = "''NO_ENCODER_AVAILABLE'' \<notin> set compdef"
  have cut: "cut_at ''#endif'' ((?d @ concat ?E) @ ''#endif'' @ '' //NO_ENCODER_AVAILABLE'' @ newline # concat acq_end)
      = Some (?d @ concat ?E, '' //NO_ENCODER_AVAILABLE'' @ newline # concat acq_end)"
    using cut_at_hash [OF enc_lines(1), of "''endif''" "''#endif'' @ '' //NO_ENCODER_AVAILABLE'' @ newline # concat acq_end"]
    by (simp add: line_def starts_with_def)
  have sub: "sub_blocks ?keep (concat (line 0 ''#ifndef NO_ENCODER_AVAILABLE'' # ?d # ?E @ line 0 ''#endif //NO_ENCODER_AVAILABLE'' # acq_end))
      = (if ?keep then ?d @ concat ?E else []) @ concat acq_end"
    using sub_block_here [OF _ _ cut, of "''NO_ENCODER_AVAILABLE''" ?keep] acq_end_lines(1) by (simp add: line_def)
  have lw: "last_word (line 0 ''#ifndef NO_ENCODER_AVAILABLE'') = ''NO_ENCODER_AVAILABLE''" by code_simp
  have d: "whole_line ?d" by code_simp
  have "splitlines (concat (?d # ?E @ acq_end)) = ?d # ?E @ acq_end" "splitlines (concat acq_end) = acq_end"
    using enc_lines(2) acq_end_lines(2) d by (intro splitlines_whole; simp)+
  then have "splitlines ((if ?keep then ?d @ concat ?E else []) @ concat acq_end) = (if ?keep then ?d # ?E else []) @ acq_end"
    by simp
  then have "checkBlockActive compdef (line 0 ''#ifndef NO_ENCODER_AVAILABLE'' # ?d # ?E @ line 0 ''#endif //NO_ENCODER_AVAILABLE'' # acq_end)
      = (if ?keep then ?d # ?E else []) @ acq_end"
    using sub lw by (simp add: checkBlockActive_def line_def)
  then show ?thesis by (simp add: next_lines_def acq_end_def)
qed


section \<open>The scanner on the acquisition's header\<close>

definition acq_item :: "item list \<Rightarrow> item" where
  "acq_item its = in_namespace ''DCS'' its"

lemma clean_conditional:
  "clean compdef [] (line 0 ''#ifndef NO_ENCODER_AVAILABLE'' # ls)
    = clean compdef [] (next_lines compdef (line 0 ''#ifndef NO_ENCODER_AVAILABLE'') ls)"
proof -
  have "chomp (lstrip (line 0 ''#ifndef NO_ENCODER_AVAILABLE'')) = ''#ifndef NO_ENCODER_AVAILABLE''"
    by (rule line_text) (simp_all add: is_blank_def)
  then show ?thesis by (simp add: clean.simps(2) is_comment_def)
qed

lemma clean_acq_end: "clean compdef [] acq_end = [''}'']" "clean compdef [] (tl acq_end) = []"
proof -
  have e: "clean compdef [] [[newline], line 0 ''#endif //_DCS_ACQ_H''] = []"
    by (simp add: clean.simps(2) next_lines_def checkBlockActive_def line_def lstrip_def chomp_def is_blank_def is_comment_def)
  then show "clean compdef [] (tl acq_end) = []" by (simp add: acq_end_def)
  show "clean compdef [] acq_end = [''}'']"
    using clean_statement [of "[]" "''}''" compdef 0 0 "[[newline], line 0 ''#endif //_DCS_ACQ_H'']"] e by (simp add: acq_end_def joined_def)
qed

lemma clean_acquisition:
  "clean compdef [] acquisition_lines
    = (if ''NO_ENCODER_AVAILABLE'' \<in> set compdef then butlast (logical (acq_item acq_scopes)) else logical (acq_item (acq_scopes @ [enc_scope])))"
proof -
  have open_line: "clean compdef [] (line 0 ''namespace DCS'' # line 0 ''{'' # ls) = ''namespace DCS {'' # clean compdef [] ls" for ls
    using clean_statement [of "[''namespace DCS'']" "''{''" compdef 0 0 ls]
    by (simp add: frag_def visible_def plain_def is_blank_def is_comment_def completes_def ends_with_def joined_def)
  have guards: "clean compdef [] (print_header (guard_open ''_DCS_ACQ_H'') @ ls) = clean compdef [] ls" for ls
    using clean_items [of "[]" "guard_open ''_DCS_ACQ_H''" compdef 0 ls] wf_guards(7)
    by (simp add: print_header_def guard_open_def)
  have scopes: "clean compdef [] (concat (map (print_item 1) acq_scopes) @ ls) = concat (map logical acq_scopes) @ clean compdef [] ls" for ls
    using clean_items [OF wf_acq(1)] .
  have enc: "clean compdef [] (print_item 1 enc_scope @ ls) = logical enc_scope @ clean compdef [] ls" for ls
    using clean_item [of "[''DCS'']" enc_scope compdef 1 ls] wf_acq(2) by (simp del: wf_item.simps)
  have "clean compdef [] acquisition_lines = ''namespace DCS {'' # concat (map logical acq_scopes)
      @ clean compdef [] (if ''NO_ENCODER_AVAILABLE'' \<in> set compdef then tl acq_end else print_item 1 enc_scope @ acq_end)"
    unfolding acquisition_block [symmetric]
    using clean_conditional [of compdef]
    by (simp add: acquisition_lines_def guards open_line scopes acq_end_def del: One_nat_def)
  then show ?thesis
    using enc [of acq_end] clean_acq_end by (simp add: acq_item_def joined_def butlast_append)
qed

lemma scan_lines_snoc: "scan_lines (vs @ [v]) st = Option.bind (scan_lines vs st) (\<lambda>st. Option.bind (scan_scope v st) (scan_token v))"
  by (induction vs arbitrary: st) (auto simp: bind_eq_Some_conv split: bind_splits)

lemma scan_close_finds: "Option.bind (scan_scope ''}'' st) (scan_token ''}'') = Some st' \<Longrightarrow> funcs st' = funcs st \<and> evts st' = evts st"
  by (auto simp: scan_scope_def scan_token_def Let_def split: if_splits)

text \<open>What a list of logical lines makes the scanner find.\<close>

definition yields :: "string list \<Rightarrow> found list \<Rightarrow> string list \<Rightarrow> bool" where
  "yields vs fs' es' \<longleftrightarrow> (\<forall>fs es. \<exists>st. scan_lines vs (scan_start fs es) = Some st \<and> funcs st = fs @ fs' \<and> evts st = es @ es')"

lemma yields_header: "list_all (wf_item []) its \<Longrightarrow> yields (clean compdef [] (print_header its)) (fst (header_finds its)) (snd (header_finds its))"
  unfolding yields_def using scan_header by blast

lemma yields_open:
  assumes "yields (vs @ [''}'']) fs es"
  shows "yields vs fs es"
proof -
  have "\<exists>st. scan_lines vs (scan_start f e) = Some st \<and> funcs st = f @ fs \<and> evts st = e @ es" for f e
  proof -
    obtain st where st: "scan_lines (vs @ [''}'']) (scan_start f e) = Some st" "funcs st = f @ fs" "evts st = e @ es"
      using assms unfolding yields_def by blast
    then obtain st1 where "scan_lines vs (scan_start f e) = Some st1" "Option.bind (scan_scope ''}'' st1) (scan_token ''}'') = Some st"
      unfolding scan_lines_snoc by (auto simp: bind_eq_Some_conv)
    then show ?thesis using scan_close_finds st(2,3) by metis
  qed
  then show ?thesis unfolding yields_def by blast
qed

lemma acq_finds:
  "header_finds [acq_item acq_scopes] = (map declared (daq_calls @ temp_calls), daq_events)"
  "header_finds [acq_item (acq_scopes @ [enc_scope])] = (map declared (daq_calls @ temp_calls @ enc_calls), daq_events)"
  by (simp_all add: header_finds_def acq_item_def acq_scopes_def enc_scope_def declared_tables del: map_concat)

lemma yields_acquisition:
  "yields (clean compdef [] acquisition_lines)
     (map declared (header_calls (''NO_ENCODER_AVAILABLE'' \<in> set compdef) Acquisition_h)) daq_events"
proof -
  have wf: "list_all (wf_item []) [acq_item its]" if "list_all (wf_item [''DCS'']) its" for its
    using that by (simp add: acq_item_def wf_namespace del: wf_item.simps)
  have y: "yields (logical (acq_item its)) (fst (header_finds [acq_item its])) (snd (header_finds [acq_item its]))"
    if "list_all (wf_item [''DCS'']) its" for its
    using yields_header [OF wf [OF that], of compdef] clean_header [OF wf [OF that], of compdef] by simp
  have "logical (acq_item its) = butlast (logical (acq_item its)) @ [''}'']" for its
    by (simp add: acq_item_def joined_def butlast_append)
  then have "yields (butlast (logical (acq_item acq_scopes))) (map declared (daq_calls @ temp_calls)) daq_events"
    using y [OF wf_acq(1)] yields_open acq_finds(1) by (metis fst_conv snd_conv)
  then show ?thesis using y [OF wf_acq(2)] by (simp add: clean_acquisition acq_finds)
qed

section \<open>The scanner on the repository's headers\<close>

lemma yields_file:
  "yields (clean compdef [] (file_lines f))
     (map declared (case call_header f of None \<Rightarrow> [] | Some h \<Rightarrow> header_calls (''NO_ENCODER_AVAILABLE'' \<in> set compdef) h))
     (case event_header f of None \<Rightarrow> [] | Some h \<Rightarrow> header_events h)"
proof (cases f)
  case Core_file
  then show ?thesis using yields_header [OF wf_headers(1), of compdef] by (simp add: headers_find)
next
  case Engine_file
  then show ?thesis using yields_header [OF wf_headers(2), of compdef] by (simp add: headers_find)
next
  case Acquisition_file
  then show ?thesis using yields_acquisition [of compdef] by simp
next
  case Acquisition_internal_file
  then show ?thesis using yields_header [OF wf_internal, of compdef] by (simp add: headers_find)
next
  case Network_file
  then show ?thesis using yields_header [OF wf_headers(3), of compdef] by (simp add: headers_find)
qed

lemma scan_files_tables:
  "scan_files (map (\<lambda>f. clean compdef [] (file_lines f)) files) fs es
    = Some (fs @ map declared (registered_calls (''NO_ENCODER_AVAILABLE'' \<in> set compdef) (List.map_filter call_header files)),
        es @ registered_events (List.map_filter event_header files))"
proof (induction files arbitrary: fs es)
  case Nil
  then show ?case by (simp add: registered_calls_def registered_events_def map_filter_simps)
next
  case (Cons f files)
  obtain st where "scan_lines (clean compdef [] (file_lines f)) (scan_start fs es) = Some st"
    "funcs st = fs @ map declared (case call_header f of None \<Rightarrow> [] | Some h \<Rightarrow> header_calls (''NO_ENCODER_AVAILABLE'' \<in> set compdef) h)"
    "evts st = es @ (case event_header f of None \<Rightarrow> [] | Some h \<Rightarrow> header_events h)"
    using yields_file [of compdef f] unfolding yields_def by blast
  then show ?case
    using Cons by (simp add: map_filter_simps registered_calls_def registered_events_def split: option.split)
qed



section \<open>The generated names\<close>

text \<open>\<^verbatim>\<open>replace('::', '_')\<close> and \<^verbatim>\<open>split('::')\<close>.\<close>

fun replace_colons :: "string \<Rightarrow> string" where
  "replace_colons (c # d # r) = (if c = CHR '':'' \<and> d = CHR '':'' then CHR ''_'' # replace_colons r else c # replace_colons (d # r))"
| "replace_colons s = s"

fun split_colons :: "string \<Rightarrow> string \<Rightarrow> string list" where
  "split_colons w (c # d # r) = (if c = CHR '':'' \<and> d = CHR '':'' then w # split_colons [] r else split_colons (w @ [c]) (d # r))"
| "split_colons w s = [w @ s]"

definition join_bar :: "string list \<Rightarrow> string" where
  "join_bar ws = (case ws of [] \<Rightarrow> [] | w # r \<Rightarrow> w @ concat (map (\<lambda>v. CHR ''_'' # v) r))"

text \<open>The macros of a call, of the type of an argument and of an event, the name of a wrapper, and the numbers that go with them.\<close>

definition call_definition :: "string \<Rightarrow> string" where
  "call_definition sig = ''SV_CALL_'' @ replace_colons sig"

definition arg_definition :: "string \<Rightarrow> string" where
  "arg_definition a = ''SV_ARG_'' @ concat (map (\<lambda>c. if c = CHR '' '' then ''_'' else if c = CHR ''*'' then ''_ptr'' else [c]) (replace_colons a))"

definition evt_definition :: "string \<Rightarrow> string" where
  "evt_definition e = ''SV_EVT_'' @ replace_colons e"

definition wrapper_name :: "string \<Rightarrow> string" where
  "wrapper_name sig = (let ws = split_colons [] sig in join_bar (drop (length ws - 2) ws))"

definition numbered :: "string list \<Rightarrow> (string \<times> nat) list" where
  "numbered ds = zip ds [1..<Suc (length ds)]"

definition call_defines :: "found list \<Rightarrow> (string \<times> nat) list" where
  "call_defines fs = numbered (map (call_definition \<circ> fd_name) fs) @ [(''MAX_CALL'', length fs + 1)]"

definition evt_defines :: "string list \<Rightarrow> (string \<times> nat) list" where
  "evt_defines es = (''MAX_SUB'', length es) # numbered (map evt_definition es)"

lemma declared_names:
  assumes "c \<in> set (registered_calls no_enc order)"
  shows "wrapper_name (fd_name (declared c)) = c_name c \<and> call_definition (fd_name (declared c)) = ''SV_CALL_DCS_'' @ c_name c"
proof -
  have "list_all (\<lambda>c. wrapper_name (fd_name (declared c)) = c_name c \<and> call_definition (fd_name (declared c)) = ''SV_CALL_DCS_'' @ c_name c)
      (database_calls @ threading_calls @ control_calls @ daq_calls @ temp_calls @ enc_calls)" by code_simp
  then show ?thesis using registered_call_cases [OF assms] by (simp only: list_all_iff)
qed

lemma table_names_distinct:
  assumes "distinct order"
  shows "distinct (map c_name (registered_calls no_enc order))"
proof -
  have "distinct (map c_name (header_calls True Core_h @ header_calls True EngineControl_h @ header_calls True Acquisition_h))"
    "distinct (map c_name (header_calls False Core_h @ header_calls False EngineControl_h @ header_calls False Acquisition_h))"
    by code_simp+
  then have d: "distinct (map c_name (header_calls no_enc Core_h @ header_calls no_enc EngineControl_h @ header_calls no_enc Acquisition_h))"
    by (cases no_enc) (simp_all only:)
  have "distinct (map c_name (concat (map (header_calls no_enc) hs)))" if "distinct hs" for hs
    using that
  proof (induction hs)
    case (Cons h hs)
    have "set (map c_name (header_calls no_enc h)) \<inter> set (map c_name (header_calls no_enc g)) = {}" if "g \<noteq> h" for g
      using d that by (cases g; cases h) (auto simp del: header_calls.simps)
    moreover have "distinct (map c_name (header_calls no_enc h))" using d by (cases h) (simp_all del: header_calls.simps)
    ultimately show ?case using Cons by fastforce
  qed simp
  then show ?thesis using assms by (simp add: registered_calls_def)
qed

lemma numbered_ok: "distinct ds \<Longrightarrow> k < length ds \<Longrightarrow> map_of (numbered ds) (ds ! k) = Some (Suc k)"
  using map_of_zip_nth [of ds "[1..<Suc (length ds)]" k] by (simp add: numbered_def nth_append del: upt_Suc)

text \<open>
  No two functions share a macro or a wrapper, and the number behind the macro of the \<open>k\<close>-th call is the code that the model gives it.
\<close>

lemma call_macros:
  assumes "distinct order" "k < length (registered_calls no_enc order)"
  shows "\<exists>n. map_of (call_defines (map declared (registered_calls no_enc order))) (''SV_CALL_DCS_'' @ c_name (registered_calls no_enc order ! k)) = Some n
    \<and> call_code k = word_of_nat n"
    and "distinct (map (wrapper_name \<circ> fd_name \<circ> declared) (registered_calls no_enc order))"
proof -
  let ?cs = "registered_calls no_enc order" and ?f = "\<lambda>c. call_definition (fd_name (declared c))"
  have eq: "map ?f ?cs = map (\<lambda>c. ''SV_CALL_DCS_'' @ c_name c) ?cs" "map (wrapper_name \<circ> fd_name \<circ> declared) ?cs = map c_name ?cs"
    using declared_names by (auto intro!: map_cong)
  have "distinct (map ?f ?cs)"
    using table_names_distinct [OF assms(1), of no_enc] unfolding eq(1) by (simp add: distinct_map inj_on_def)
  then have "map_of (numbered (map ?f ?cs)) (map ?f ?cs ! k) = Some (Suc k)"
    using assms(2) by (intro numbered_ok) (simp_all add: eq(1) comp_def)
  moreover have "map ?f ?cs ! k = ''SV_CALL_DCS_'' @ c_name (?cs ! k)" using assms(2) by (simp add: eq(1))
  ultimately show "\<exists>n. map_of (call_defines (map declared ?cs)) (''SV_CALL_DCS_'' @ c_name (?cs ! k)) = Some n \<and> call_code k = word_of_nat n"
    by (simp add: call_defines_def map_add_def call_code_def comp_def add.commute)
  show "distinct (map (wrapper_name \<circ> fd_name \<circ> declared) ?cs)" unfolding eq(2) by (rule table_names_distinct [OF assms(1)])
qed

section \<open>Texts that mislead the scanner\<close>

abbreviation finds :: "string list \<Rightarrow> string list \<Rightarrow> (found list \<times> string list) option" where
  "finds compdef ls \<equiv> getTokenSymbols (cleanFiles compdef [map (line 0) ls])"

text \<open>The text of a block replaces the lines from its opening on, but the loop has moved on by one: the first line inside is passed over.\<close>

lemma first_line_of_block_lost:
  "finds [] [''#ifndef NO_MOTOR'', ''DCS_REGISTER_EVENT'', ''DCS_API void Moved();'', ''#endif''] = Some ([], [])"
  "finds [] [''#ifndef NO_MOTOR'', ''#define MOTOR'', ''DCS_REGISTER_EVENT'', ''DCS_API void Moved();'', ''#endif''] = Some ([], [''::Moved''])"
  by code_simp+

text \<open>A block that is left out takes the line after it away too.\<close>

lemma line_after_block_lost:
  "finds [''NO_MOTOR''] [''#ifndef NO_MOTOR'', ''void Move();'', ''#endif'', ''DCS_REGISTER_EVENT'', ''DCS_API void Moved();''] = Some ([], [])"
  by code_simp

text \<open>The decision of one block is taken for all blocks behind it, whatever they ask for.\<close>

lemma blocks_share_decision:
  "finds [''NO_MOTOR''] [''#ifndef NO_MOTOR'', ''void Move();'', ''#endif'', ''void Stop();'', ''#ifndef _WIN32'', ''DCS_REGISTER_EVENT'',
     ''DCS_API void Stopped();'', ''#endif''] = Some ([], [])"
  "finds [] [''void Stop();'', ''#ifndef _WIN32'', ''DCS_REGISTER_EVENT'', ''DCS_API void Stopped();'', ''#endif''] = Some ([], [''::Stopped''])"
  by code_simp+

text \<open>
  A declaration of a class without its body is taken for a scope, named by the word before its name. Names found after it carry
  that scope.
\<close>

lemma forward_declaration_is_scope:
  "finds [] [''class Motor;'', ''DCS_REGISTER_EVENT'', ''DCS_API void Moved();''] = Some ([], [''class::Moved''])"
  by code_simp

text \<open>A line that does not end with \<open>;\<close> or a brace, a comment behind it being enough, is joined with the next ones, and the mark is then not at
  the start of a logical line.\<close>

lemma open_line_hides_mark:
  "finds [] [''void Move(); // moves'', ''DCS_REGISTER_EVENT'', ''DCS_API void Moved();''] = Some ([], [])"
  "finds [] [''void Move();'', ''DCS_REGISTER_EVENT'', ''DCS_API void Moved();''] = Some ([], [''::Moved''])"
  by code_simp+

text \<open>A scope inside one of the same name shares its counter: when the inner one closes, the next line closes the outer one.\<close>

lemma same_name_closes_both:
  "finds [] [''namespace A'', ''{'', ''namespace A'', ''{'', ''}'', ''DCS_REGISTER_EVENT'', ''DCS_API void Moved();'', ''}'']
    = Some ([], [''::Moved''])"
  by code_simp

text \<open>A mark without parentheses ends the script by an exception.\<close>

lemma mark_without_parentheses:
  "finds [] [''DCS_REGISTER_CALL'', ''DCS_API int count;''] = None"
  by code_simp

end
