(* ===== verification/Payload.thy ===== *)
theory Payload
  imports EventLoop Calls
begin

text \<open>
  The data of the acquisition's events on the wire: \<^verbatim>\<open>DCS_EMIT_EVT\<close> sends the bytes of an array or of a structure, and the callback of the
  client reads them at the addresses that the layout gives. A field of the structure is stored with the least significant byte first.
\<close>

section \<open>Values of a fixed size\<close>

locale codec =
  fixes enc :: "'a \<Rightarrow> bytes" and dec :: "bytes \<Rightarrow> 'a" and sz :: nat
  assumes length_enc: "length (enc x) = sz"
    and dec_enc: "dec (enc x @ bs) = x"
begin

lemma dec_at: "length pre = n \<Longrightarrow> dec (drop n (pre @ enc x @ bs)) = x"
  by (simp add: dec_enc)

lemma length_array: "length (concat (map enc xs)) = sz * length xs"
  by (induction xs) (simp_all add: length_enc)

lemma dec_array: "i < length xs \<Longrightarrow> dec (drop (sz * i) (concat (map enc xs) @ bs)) = xs ! i"
proof (induction xs arbitrary: i)
  case (Cons x xs)
  then show ?case
  proof (cases i)
    case (Suc k)
    have "drop (sz * Suc k) (enc x @ concat (map enc xs) @ bs) = drop (sz * k) (concat (map enc xs) @ bs)"
      by (simp add: length_enc)
    then show ?thesis using Cons Suc by simp
  qed (simp add: dec_enc)
qed simp

lemma inj: "enc x = enc y \<Longrightarrow> x = y"
  using dec_enc [of _ "[]"] by metis

end

text \<open>Reading the elements of an array: \<^verbatim>\<open>reinterpret_cast\<close> and an index.\<close>

definition read_array :: "(bytes \<Rightarrow> 'a) \<Rightarrow> nat \<Rightarrow> nat \<Rightarrow> bytes \<Rightarrow> 'a list" where
  "read_array dec sz n bs = map (\<lambda>i. dec (drop (sz * i) bs)) [0..<n]"

context codec begin

lemma read_array_enc: "read_array dec sz (length xs) (concat (map enc xs) @ bs) = xs"
  by (rule nth_equalityI) (simp_all add: read_array_def dec_array del: drop_append)

end

lemma get16_append [simp]: "get16 (put16 w @ bs) = w"
  using unsigned_less [of w, where ?'a = nat] by (simp add: get16_def put16_def)

interpretation u16: codec put16 get16 2
  by unfold_locales simp_all

interpretation u32: codec put32 get32 4
  by unfold_locales simp_all

interpretation u64: codec put64 get64 8
  by unfold_locales simp_all

section \<open>The structure of a spectrum\<close>

definition Timestamp_layout :: layout where
  "Timestamp_layout = struct_of (replicate 6 (scalar 2))"

definition MCACountEventData_fields :: "layout list" where
  "MCACountEventData_fields = [scalar 8, Timestamp_layout, scalar 2, array_of 128 (scalar 2)]"

text \<open>Where the fields of a structure start.\<close>

fun offsets :: "nat \<Rightarrow> layout list \<Rightarrow> nat list" where
  "offsets off [] = []"
| "offsets off (l # ls) = align_up (snd l) off # offsets (align_up (snd l) off + fst l) ls"

lemma MCACountEventData_layout:
  "offsets 0 MCACountEventData_fields = [0, 8, 20, 22]" "struct_of MCACountEventData_fields = (280, 8)"
  by code_simp+

definition Timestamp_bytes :: "Timestamp \<Rightarrow> bytes" where
  "Timestamp_bytes t = concat (map put16 [hour t, minutes t, sec t, millis t, micros t, nanos t])"

text \<open>\<open>gap\<close> are the two bytes behind the bins that no field uses.\<close>

definition MCACountEventData_bytes :: "bytes \<Rightarrow> MCACountEventData \<Rightarrow> bytes" where
  "MCACountEventData_bytes gap d =
     put64 (word_of_nat (mca_count d)) @ Timestamp_bytes (mca_timestamp d) @ put16 (total_max_bin_count d)
     @ concat (map put16 (bins d)) @ gap"

definition Timestamp_read :: "bytes \<Rightarrow> Timestamp" where
  "Timestamp_read bs = \<lparr>hour = get16 bs, minutes = get16 (drop 2 bs), sec = get16 (drop 4 bs), millis = get16 (drop 6 bs),
     micros = get16 (drop 8 bs), nanos = get16 (drop 10 bs)\<rparr>"

definition MCACountEventData_read :: "bytes \<Rightarrow> MCACountEventData" where
  "MCACountEventData_read bs =
     \<lparr>mca_count = unat (get64 bs), mca_timestamp = Timestamp_read (drop 8 bs), total_max_bin_count = get16 (drop 20 bs),
      bins = read_array get16 2 128 (drop 22 bs)\<rparr>"

lemma length_Timestamp_bytes [simp]: "length (Timestamp_bytes t) = 12"
  by (simp add: Timestamp_bytes_def)

lemma Timestamp_read_bytes: "Timestamp_read (Timestamp_bytes t @ bs) = t"
  by (simp add: Timestamp_read_def Timestamp_bytes_def)

lemma length_MCACountEventData_bytes:
  "length (bins d) = 128 \<Longrightarrow> length gap = 2 \<Longrightarrow> length (MCACountEventData_bytes gap d) = fst (struct_of MCACountEventData_fields)"
  by (simp add: MCACountEventData_bytes_def u16.length_array MCACountEventData_layout)

lemma MCACountEventData_read_bytes:
  assumes "length (bins d) = 128" "mca_count d < 2 ^ 64"
  shows "MCACountEventData_read (MCACountEventData_bytes gap d) = d"
proof -
  let ?b = "concat (map put16 (bins d)) @ gap"
  have "drop 8 (MCACountEventData_bytes gap d) = Timestamp_bytes (mca_timestamp d) @ put16 (total_max_bin_count d) @ ?b"
    "drop 20 (MCACountEventData_bytes gap d) = put16 (total_max_bin_count d) @ ?b"
    "drop 22 (MCACountEventData_bytes gap d) = ?b"
    by (simp_all add: MCACountEventData_bytes_def)
  then show ?thesis
    using assms u16.read_array_enc [of "bins d" gap] Timestamp_read_bytes
    by (simp add: MCACountEventData_read_def) (simp add: MCACountEventData_bytes_def)
qed

section \<open>The arrays of samples\<close>

definition CountSamples_bytes :: "u32 list \<Rightarrow> bytes" where
  "CountSamples_bytes cs = concat (map put32 cs)"

lemma CountSamples_read: "length cs = INTERNAL_SAMP_SIZE \<Longrightarrow> read_array get32 4 INTERNAL_SAMP_SIZE (CountSamples_bytes cs) = cs"
  using u32.read_array_enc [of cs "[]"] by (simp add: CountSamples_bytes_def)

end
