(* ===== verification/AcqMachine.thy ===== *)
theory AcqMachine
  imports Acquisition
begin

text \<open>
  The acquisition as its user sees it: a small machine with a mode, a table of channels and a number of spectrum channels. The commands of
  theory \<open>Acquisition\<close> implement it exactly, failures included, whatever the driver answers.
\<close>

section \<open>Commands that may fail, against a partial specification\<close>

locale simulating_commands = invariant_commands +
  fixes abs :: "'b \<Rightarrow> 'm" and spec :: "'a \<Rightarrow> 'm \<Rightarrow> 'm option"
  assumes exec_spec: "inv s \<Longrightarrow> spec c (abs s) = (case exec c s of Ok s' \<Rightarrow> Some (abs s') | _ \<Rightarrow> None)"

text \<open>The run of a partial specification.\<close>

fun run_partial :: "('c \<Rightarrow> 'm \<Rightarrow> 'm option) \<Rightarrow> 'c list \<Rightarrow> 'm \<Rightarrow> 'm option" where
  "run_partial spec [] m = Some m"
| "run_partial spec (c # cs) m = Option.bind (spec c m) (run_partial spec cs)"

context simulating_commands
begin

lemma run_simulates: "inv s \<Longrightarrow> run_partial spec cs (abs s) = (case run_cmds exec cs s of Ok s' \<Rightarrow> Some (abs s') | _ \<Rightarrow> None)"
proof (induction cs arbitrary: s)
  case (Cons c cs)
  show ?case
  proof (cases "exec c s")
    case (Ok s1)
    then show ?thesis using Cons.IH [of s1] exec_inv [OF Ok Cons.prems] exec_spec [OF Cons.prems, of c] by simp
  qed (use exec_spec [OF Cons.prems, of c] in simp_all)
qed simp

end

section \<open>The machine\<close>

datatype acq_mode = Idle | Analog | Counting

text \<open>A channel has the connector that it is bound to and its kind.\<close>

record machine =
  acq_mode :: acq_mode
  channels :: "string \<rightharpoonup> string \<times> ChannelType"
  spectrum_channels :: u16

definition machine_start :: machine where
  "machine_start = \<lparr>acq_mode = Idle, channels = Map.empty, spectrum_channels = 2048\<rparr>"

text \<open>A new channel needs a name and a connector that are both free; otherwise nothing happens.\<close>

definition add_channel :: "string \<Rightarrow> string \<Rightarrow> ChannelType \<Rightarrow> machine \<Rightarrow> machine" where
  "add_channel nm con ty m =
     (if nm \<in> dom (channels m) \<or> con \<in> fst ` ran (channels m) then m
      else m\<lparr>channels := (channels m)(nm \<mapsto> (con, ty))\<rparr>)"

fun machine_step :: "'f daq_cmd \<Rightarrow> machine \<Rightarrow> machine option" where
  "machine_step (CNewAIV v n c r l) m = Some (add_channel (cstr n) (cstr c) Voltage m)"
| "machine_step (CNewCI v n c r) m = Some (add_channel (cstr n) (cstr c) Counter m)"
| "machine_step (CNewPTG v n c r) m = Some (add_channel (cstr n) (cstr c) PTGen m)"
| "machine_step (CDelete n) m = Some (m\<lparr>channels := (channels m)(cstr n := None)\<rparr>)"
| "machine_step (CStartAI now clk r) m =
     (if acq_mode m \<noteq> Idle then Some m else if Voltage \<in> snd ` ran (channels m) then Some (m\<lparr>acq_mode := Analog\<rparr>) else None)"
| "machine_step CStopAI m = Some (if acq_mode m = Analog then m\<lparr>acq_mode := Idle\<rparr> else m)"
| "machine_step (CStartCI now clk r) m = Some (if acq_mode m = Idle then m\<lparr>acq_mode := Counting\<rparr> else m)"
| "machine_step CStopCI m = Some (if acq_mode m = Counting then m\<lparr>acq_mode := Idle\<rparr> else m)"
| "machine_step (CSetMCA n) m = Some (m\<lparr>spectrum_channels := n\<rparr>)"
| "machine_step CTerminate m = Some m"

text \<open>What the machine sees of the state of the code.\<close>

definition channel_table :: "(string \<times> 'f VirtualChannel) list \<Rightarrow> string \<rightharpoonup> string \<times> ChannelType" where
  "channel_table vcs = map_of (map (\<lambda>(k, vc). (k, vc_channel_name vc, vc_type vc)) vcs)"

definition machine_of :: "'f daq \<Rightarrow> machine" where
  "machine_of s = \<lparr>acq_mode = (if voltage_task_running s then Analog else if count_task_running s then Counting else Idle),
     channels = channel_table (virtual_channels s), spectrum_channels = MCA_NumChannels s\<rparr>"

section \<open>The table of channels\<close>

lemma dom_channel_table: "dom (channel_table vcs) = fst ` set vcs"
  by (simp add: channel_table_def dom_map_of_conv_image_fst image_image case_prod_unfold)

lemma ran_channel_table:
  assumes "channels_ok vcs"
  shows "ran (channel_table vcs) = (\<lambda>(k, vc). (vc_channel_name vc, vc_type vc)) ` set vcs"
proof -
  have "distinct (map fst (map (\<lambda>(k, vc). (k, vc_channel_name vc, vc_type vc)) vcs))"
    using assms by (simp add: channels_ok_def strict_sorted_iff comp_def case_prod_unfold)
  then show ?thesis by (simp add: channel_table_def ran_distinct image_image case_prod_unfold)
qed

lemma taken_iff:
  assumes "channels_ok (virtual_channels s)"
  shows "channel_taken k c s \<longleftrightarrow> k \<in> dom (channels (machine_of s)) \<or> c \<in> fst ` ran (channels (machine_of s))"
  by (auto simp: channel_taken_def machine_of_def dom_channel_table ran_channel_table [OF assms] list_ex_iff image_image case_prod_unfold)

lemma table_emplace: "k \<notin> fst ` set m \<Longrightarrow> channel_table (map_emplace k v m) = (channel_table m)(k \<mapsto> (vc_channel_name v, vc_type v))"
  by (induction k v m rule: map_emplace.induct) (auto simp: channel_table_def)

lemma table_filter: "channel_table (filter (\<lambda>(k, _). k \<noteq> n) m) = (channel_table m)(n := None)"
  by (induction m) (auto simp: channel_table_def)

lemma voltage_iff:
  assumes "channels_ok (virtual_channels s)"
  shows "CountVirtualChannelsOfType Voltage s = 0 \<longleftrightarrow> Voltage \<notin> snd ` ran (channels (machine_of s))"
  by (auto simp: CountVirtualChannelsOfType_def machine_of_def ran_channel_table [OF assms] image_iff filter_empty_conv)

lemma add_channel_refines:
  assumes "channels_ok (virtual_channels s)"
  shows "machine_of (if channel_taken k (vc_channel_name v) s then s else s\<lparr>virtual_channels := map_emplace k v (virtual_channels s)\<rparr>)
    = add_channel k (vc_channel_name v) (vc_type v) (machine_of s)"
proof (cases "channel_taken k (vc_channel_name v) s")
  case True
  then show ?thesis using taken_iff [OF assms] by (simp add: add_channel_def)
next
  case False
  then have "k \<notin> fst ` set (virtual_channels s)" by (auto simp: channel_taken_def list_ex_iff)
  from table_emplace [OF this, of v] show ?thesis
    using False taken_iff [OF assms, of k "vc_channel_name v"] by (simp add: add_channel_def machine_of_def)
qed

section \<open>The commands implement the machine\<close>

lemma u16_bound: "\<not> INTERNAL_ADC_MAX_CHAN < uint (n :: u16)"
  using uint_lt2p [of n] by simp

lemma start_analog:
  assumes "daq_inv s"
  shows "machine_step (CStartAI now clk r :: 'f::linordered_field daq_cmd) (machine_of s)
    = (case StartAIAcquisition d now clk r s of Ok s' \<Rightarrow> Some (machine_of s') | _ \<Rightarrow> None)"
proof -
  have ch: "channels_ok (virtual_channels s)" and ex: "\<not> (voltage_task_running s \<and> count_task_running s)" using assms by (simp_all add: daq_inv_def)
  show ?thesis
  proof (cases "voltage_task_running s \<or> count_task_running s")
    case True
    then show ?thesis using ex by (auto simp: StartAIAcquisition_def machine_of_def Let_def)
  next
    case False
    then show ?thesis using voltage_iff [OF ch]
      by (auto simp: StartAIAcquisition_def machine_of_def Let_def CountVirtualChannelsOfType_def split: prod.splits)
  qed
qed

lemma start_counting:
  "machine_step (CStartCI now clk r :: 'f::linordered_field daq_cmd) (machine_of s)
    = (case StartCIAcquisition d now clk r s of Ok s' \<Rightarrow> Some (machine_of s') | _ \<Rightarrow> None)"
  by (auto simp: StartCIAcquisition_def machine_of_def Let_def split: prod.splits)

lemma stop_analog:
  assumes "daq_inv s"
  shows "Some (if voltage_task_running s then (machine_of s)\<lparr>acq_mode := Idle\<rparr> else machine_of s)
    = (case StopAIAcquisition d s of Ok s' \<Rightarrow> Some (machine_of s') | _ \<Rightarrow> None)"
  using assms by (auto simp: StopAIAcquisition_def StopEventLoop_def Let_def machine_of_def daq_inv_def threads_ok_def)

lemma stop_counting:
  assumes "daq_inv s"
  shows "Some (if \<not> voltage_task_running s \<and> count_task_running s then (machine_of s)\<lparr>acq_mode := Idle\<rparr> else machine_of s)
    = (case StopCIAcquisition d s of Ok s' \<Rightarrow> Some (machine_of s') | _ \<Rightarrow> None)"
  using assms by (auto simp: StopCIAcquisition_def StopEventLoop_def Let_def machine_of_def daq_inv_def threads_ok_def)

lemma daq_exec_machine:
  assumes "daq_inv s"
  shows "machine_step c (machine_of s) = (case daq_exec d c s of Ok s' \<Rightarrow> Some (machine_of s') | _ \<Rightarrow> None)"
proof -
  have ch: "channels_ok (virtual_channels s)" using assms by (simp add: daq_inv_def)
  have mode: "acq_mode (machine_of s) = Analog \<longleftrightarrow> voltage_task_running s"
    "acq_mode (machine_of s) = Counting \<longleftrightarrow> \<not> voltage_task_running s \<and> count_task_running s" by (simp_all add: machine_of_def)
  show ?thesis
  proof (cases c)
    case (CNewAIV v n c r l)
    then show ?thesis
      using add_channel_refines [OF ch, of "cstr n" "v\<lparr>vc_channel_name := cstr c, vc_ref := r, vc_lim := l, vc_type := Voltage\<rparr>"]
      by (simp add: NewAIVChannel_def)
  next
    case (CNewCI v n c r)
    then show ?thesis
      using add_channel_refines [OF ch, of "cstr n" "v\<lparr>vc_channel_name := cstr c, vc_count_ref := r, vc_type := Counter\<rparr>"]
      by (simp add: NewCIChannel_def)
  next
    case (CNewPTG v n c r)
    then show ?thesis
      using add_channel_refines [OF ch, of "cstr n" "v\<lparr>vc_channel_name := cstr c, ptg_rate := r, vc_type := PTGen\<rparr>"]
      by (simp add: NewPTGChannel_def)
  next
    case (CStartAI now clk r)
    then show ?thesis using start_analog [OF assms] by simp
  next
    case CStopAI
    then show ?thesis using stop_analog [OF assms] mode(1) by simp
  next
    case (CStartCI now clk r)
    then show ?thesis using start_counting [of now clk r s d] by (simp split: if_splits)
  next
    case CStopCI
    then show ?thesis using stop_counting [OF assms] mode(2) by simp
  qed (simp_all add: DeleteChannel_def SetMCANumChannels_def DAQ_Terminate_def u16_bound machine_of_def table_filter)
qed

interpretation acq: simulating_commands "daq_exec d" daq_inv machine_of machine_step for d
  by unfold_locales (rule daq_exec_machine)

text \<open>
  C16. The acquisition implements its machine. For every sequence of commands and every driver: the commands succeed exactly when those of the
  machine do, and then the mode, the channels and the size of the spectrum are those of the machine. Nothing that the driver answers shows.
\<close>

theorem acquisition_refines_machine:
  "run_partial machine_step cs machine_start = (case daq_run d cs daq_start of Ok s \<Rightarrow> Some (machine_of s) | _ \<Rightarrow> None)"
proof -
  have "machine_of (daq_start :: 'a daq) = machine_start" by (simp add: machine_of_def machine_start_def daq_start_def channel_table_def)
  then show ?thesis using acq.run_simulates [OF daq_inv_start, of cs d] by simp
qed

end
