(* ===== verification/UnitTests.thy ===== *)
theory UnitTests
  imports Pools Diagnostics Sockets Crypto Calls Systems
begin

text \<open>
  The unit tests of \<^verbatim>\<open>tests/src\<close> that compute something, on the models of what they test: which of them pass, and which cannot. The result of
  a test is the number of its failed assertions.
\<close>

definition assert_that :: "bool \<Rightarrow> nat" where
  "assert_that b = (if b then 0 else 1)"

section \<open>test_memory\<close>

text \<open>\<^verbatim>\<open>la.allocate<int>(v)\<close> with the memory of the integers; a test that follows a null pointer faults.\<close>

type_synonym ints = "u64 \<Rightarrow> int"

definition new_int :: "int \<Rightarrow> linear \<times> ints \<Rightarrow> (u64 \<times> linear \<times> ints) outcome" where
  "new_int v = (\<lambda>(a, mem). case allocate 4 a of
       (Some p, a) \<Rightarrow> if p = 0 then Fault NullPointer else Ok (p, a, mem(p := v))
     | (None, a) \<Rightarrow> Fault NullPointer)"

definition test_memory :: "u64 option \<Rightarrow> ints \<Rightarrow> nat outcome" where
  "test_memory block mem =
     obind (new_int 3 (LinearAllocator_new block 8 0, mem)) (\<lambda>(a, la, mem).
     obind (new_int 4 (la, mem)) (\<lambda>(b, la, mem).
     let failed = assert_that (mem a = 3) + assert_that (mem b = 4) in
     obind (new_int 5 (reset la, mem)) (\<lambda>(c, la, mem).
     obind (new_int 6 (la, mem)) (\<lambda>(d, la, mem).
     Ok (failed + assert_that (mem c = 5) + assert_that (mem d = 6))))))"

lemma test_memory_passes:
  assumes "0 < unat p" "unat p + 8 < 2 ^ 64"
  shows "test_memory (Some p) mem = Ok 0"
proof -
  have "unat (p + 4) = unat p + 4" using assms(2) by (simp add: unat_word_ariths)
  then have "p \<noteq> 0" "p + 4 \<noteq> 0" using assms(1) by (metis unsigned_0 less_numeral_extra(3) add_gr_0)+
  then show ?thesis
    by (simp add: test_memory_def new_int_def allocate_def LinearAllocator_new_def reset_def assert_that_def Let_def)
qed

section \<open>test_timer\<close>

text \<open>The test waits for 100 milliseconds by the clock; \<open>now\<close> is the reading of the time stamp.\<close>

definition test_timer :: "int \<Rightarrow> int \<Rightarrow> nat" where
  "test_timer point now =
     (let ts = getTimestamp point now in assert_that (sint (millis ts) = 100) + assert_that (sint (micros ts) \<le> 100))"

text \<open>It passes when the thread runs on within 101 microseconds, and fails on a machine that is busy for longer.\<close>

lemma test_timer_passes:
  assumes "100 * ns_ms \<le> now - point" "now - point < ns_s"
  shows "test_timer point now = 0 \<longleftrightarrow> now - point < 100 * ns_ms + 101 * ns_us"
proof -
  define e where "e = now - point"
  have e: "100 * ns_ms \<le> e" "e < ns_s" using assms by (simp_all add: e_def)
  have ms: "0 \<le> e div ns_ms" "e div ns_ms < 1000" using e by linarith+
  have us: "0 \<le> e div ns_us - e div ns_ms * 1000" "e div ns_us - e div ns_ms * 1000 < 1000" using e by linarith+
  have c: "cast_to ns_s e = 0" "cast_to ns_ms e = e div ns_ms" "cast_to ns_us e = e div ns_us" using e by (simp_all add: cast_to_def)
  have "sint (millis (getTimestamp point now)) = e div ns_ms" "sint (micros (getTimestamp point now)) = e div ns_us - e div ns_ms * 1000"
    using ms us c by (simp_all add: getTimestamp_def Let_def e_def [symmetric] sint_add_field)
  then have "test_timer point now = 0 \<longleftrightarrow> e div ns_ms = 100 \<and> e div ns_us - e div ns_ms * 1000 \<le> 100"
    by (simp add: test_timer_def assert_that_def Let_def)
  also have "\<dots> \<longleftrightarrow> e < 100 * ns_ms + 101 * ns_us"
  proof
    assume "e div ns_ms = 100 \<and> e div ns_us - e div ns_ms * 1000 \<le> 100"
    then have "e div ns_us \<le> 100100" by simp
    then show "e < 100 * ns_ms + 101 * ns_us" by linarith
  next
    assume l: "e < 100 * ns_ms + 101 * ns_us"
    then have "e div ns_ms = 100" using e by linarith
    moreover have "e div ns_us \<le> 100100" using l by linarith
    ultimately show "e div ns_ms = 100 \<and> e div ns_us - e div ns_ms * 1000 \<le> 100" by simp
  qed
  finally show ?thesis by (simp add: e_def)
qed

section \<open>test_socket\<close>

text \<open>
  The loop of receives: the result of \<^verbatim>\<open>ReceiveData\<close> is kept as \<^verbatim>\<open>size_t\<close>, and every receive stores its bytes at the start of the buffer. \<open>rs\<close>
  are the results of the calls to come.
\<close>

fun socket_loop :: "(int \<times> bytes) list \<Rightarrow> bytes \<Rightarrow> bytes outcome" where
  "socket_loop [] buf = Blocked"
| "socket_loop ((r, d) # rs) buf =
     obind (memcpy_to buf 0 d) (\<lambda>buf. if 0 < (word_of_int r :: u64) then socket_loop rs buf else Ok buf)"

definition test_socket :: "bytes \<Rightarrow> (int \<times> bytes) list \<Rightarrow> nat outcome" where
  "test_socket msg rs =
     obind (socket_loop rs (replicate 256 0)) (\<lambda>buf. Ok (assert_that (takeWhile (\<lambda>b. b \<noteq> 0) buf = takeWhile (\<lambda>b. b \<noteq> 0) msg)))"

lemma u64_positive: "0 < r \<Longrightarrow> r < 2 ^ 64 \<Longrightarrow> 0 < (word_of_int r :: u64)"
  by (simp add: word_less_alt uint_word_of_int)

text \<open>It passes when the text comes in one piece.\<close>

lemma test_socket_one_piece:
  assumes "msg = text @ [0]" "0 \<notin> set text" "length msg \<le> 256"
  shows "test_socket msg [(int (length msg), msg), (0, [])] = Ok 0"
proof -
  let ?b = "blit (replicate 256 0) 0 msg"
  have "blit ?b 0 [] = ?b" by (simp add: blit_def)
  moreover have "takeWhile (\<lambda>b. b \<noteq> 0) (text @ 0 # r) = text" for r :: bytes using assms(2) by (subst takeWhile_append2) auto
  then have "takeWhile (\<lambda>b. b \<noteq> 0) ?b = text" "takeWhile (\<lambda>b. b \<noteq> 0) msg = text" unfolding assms(1) blit_def by simp_all
  moreover have "0 < (word_of_int (int (length msg)) :: u64)" using assms(1,3) by (intro u64_positive) simp_all
  ultimately show ?thesis using assms(3) by (simp add: test_socket_def memcpy_to_def assert_that_def del: of_int_of_nat_eq)
qed

text \<open>In two pieces the second one overwrites the first.\<close>

lemma test_socket_two_pieces: "test_socket [97, 98, 99, 0] [(2, [97, 98]), (2, [99, 0]), (0, [])] = Ok 1"
  by code_simp

text \<open>An error is -1, which is positive as a \<^verbatim>\<open>size_t\<close>: the test asks the closed socket for ever.\<close>

lemma test_socket_spins: "test_socket msg (replicate n (-1, [])) = Blocked"
proof -
  have "socket_loop (replicate n (-1, [])) buf = Blocked" for buf
    by (induction n arbitrary: buf) (simp_all add: memcpy_to_def word_gt_0)
  then show ?thesis by (simp add: test_socket_def)
qed

section \<open>test_auth\<close>

text \<open>The test prints the hash in hexadecimal digits into an array without room for the terminator.\<close>

definition test_auth_hash :: "(string \<Rightarrow> bytes) \<Rightarrow> bytes \<Rightarrow> string \<Rightarrow> string option outcome" where
  "test_auth_hash sha256 hs0 hs_str = HexStringifyBytes (Some hs_str) (SHA256Str sha256 (Some (''hjf7$'' @ [NUL])) (Some hs0))"

lemma hex_loop_overruns: "bs \<noteq> [] \<Longrightarrow> length out = 2 * (i + length bs) \<Longrightarrow> hex_loop out i bs = Fault OutOfBounds"
proof (induction bs arbitrary: out i)
  case (Cons b bs)
  show ?case
  proof (cases "bs = []")
    case True
    then show ?thesis using Cons.prems by (simp add: memcpy_to_def hex_byte_def)
  next
    case False
    let ?w = "hex_byte b @ [NUL]"
    have w: "length ?w = 3" by (simp add: hex_byte_def)
    have "1 \<le> length bs" using False by (cases bs) auto
    then have fits: "i * 2 + length ?w \<le> length out" using Cons.prems(2) w by simp
    then have "hex_loop (blit out (i * 2) ?w) (i + 1) bs = Fault OutOfBounds" using Cons.prems(2) by (intro Cons.IH False) simp
    then show ?thesis using fits by (simp add: memcpy_to_def del: length_append)
  qed
qed simp

lemma test_auth_overruns:
  assumes "length hs0 = 32" "length hs_str = 64" "\<And>s. length (sha256 s) = 32"
  shows "test_auth_hash sha256 hs0 hs_str = Fault OutOfBounds"
proof -
  have "strlen (''hjf7$'' @ [NUL]) \<noteq> 0" by (simp add: strlen_def cstr_def)
  then have "SHA256Str sha256 (Some (''hjf7$'' @ [NUL])) (Some hs0) = Some (blit hs0 0 (sha256 (cstr (''hjf7$'' @ [NUL]))))"
    by (simp add: SHA256Str_def del: append.simps)
  moreover have "hex_loop hs_str 0 (blit hs0 0 h) = Fault OutOfBounds" if "length h = 32" for h
    using that assms(1,2) by (intro hex_loop_overruns) (auto simp: blit_def)
  ultimately show ?thesis using assms(3) by (simp add: test_auth_hash_def HexStringifyBytes_def del: append.simps)
qed

section \<open>test_nidaq\<close>

text \<open>
  The test asks for the start of an acquisition with the sample rate only; the registered function also wants the name of the clock's channel.
  The request is well formed, and the server that executes it ends by the exception of \<^verbatim>\<open>at\<close>.
\<close>

definition nidaq_start_args :: "ctype list \<Rightarrow> bytes \<Rightarrow> arg list" where
  "nidaq_start_args codes rate = [(arg_code codes Ty_f64, rate)]"

lemma test_nidaq_stops_server:
  assumes "distinct order" "k < length (registered_calls no_enc order)"
    and "c_name (registered_calls no_enc order ! k) = ''DAQ_StartAIAcquisition''"
  shows "Execute_gen uninit ptr0 ret_code codes (registered_calls no_enc order) impl \<lparr>fcode = call_code k, args = nidaq_start_args codes rate\<rparr> w
    = Fault OutOfRange"
proof -
  let ?c = "registered_calls no_enc order ! k"
  have "?c \<in> set (database_calls @ threading_calls @ control_calls @ daq_calls @ temp_calls @ enc_calls)"
    using assms(2) by (intro registered_call_cases [of _ no_enc order]) simp
  then have "length (c_args ?c) = 2" using assms(3) by (auto simp: call_tables)
  moreover have "length (registered_calls no_enc order) < 65535" using registered_calls_bound [OF assms(1), of no_enc] by simp
  ultimately show ?thesis using assms(2) by (intro missing_argument_throws) (simp_all add: nidaq_start_args_def)
qed

section \<open>test_threading\<close>

text \<open>
  The first worker sets the flag to 0, 2 and 1 and notifies after the last two; \<open>pc0\<close> is its next action. Each of the others waits for the 1: it
  tests the flag under the mutex, sleeps when it is something else, and tests again when it is woken.
\<close>

datatype waiter = Starting | Sleeping | Woken | Finished

record pool_run =
  flag :: int
  pc0 :: nat
  waiters :: "waiter list"

definition wake_waiter :: "waiter \<Rightarrow> waiter" where
  "wake_waiter w = (if w = Sleeping then Woken else w)"

definition notify_waiters :: "pool_run \<Rightarrow> pool_run" where
  "notify_waiters s = s\<lparr>waiters := map wake_waiter (waiters s)\<rparr>"

inductive pool_step :: "pool_run \<Rightarrow> pool_run \<Rightarrow> bool" where
  store0: "pc0 s = 0 \<Longrightarrow> pool_step s (s\<lparr>flag := 0, pc0 := 1\<rparr>)"
| store2: "pc0 s = 1 \<Longrightarrow> pool_step s (s\<lparr>flag := 2, pc0 := 2\<rparr>)"
| notify2: "pc0 s = 2 \<Longrightarrow> pool_step s ((notify_waiters s)\<lparr>pc0 := 3\<rparr>)"
| store1: "pc0 s = 3 \<Longrightarrow> pool_step s (s\<lparr>flag := 1, pc0 := 4\<rparr>)"
| notify1: "pc0 s = 4 \<Longrightarrow> pool_step s ((notify_waiters s)\<lparr>pc0 := 5\<rparr>)"
| test: "i < length (waiters s) \<Longrightarrow> waiters s ! i \<in> {Starting, Woken} \<Longrightarrow>
    pool_step s (s\<lparr>waiters := (waiters s)[i := if flag s = 1 then Finished else Sleeping]\<rparr>)"

definition pool_start :: "nat \<Rightarrow> pool_run" where
  "pool_start n = \<lparr>flag = 0, pc0 = 0, waiters = replicate n Starting\<rparr>"

definition pool_inv :: "nat \<Rightarrow> pool_run \<Rightarrow> bool" where
  "pool_inv n s \<longleftrightarrow> length (waiters s) = n \<and> pc0 s \<le> 5 \<and> (4 \<le> pc0 s \<longrightarrow> flag s = 1) \<and> (pc0 s = 5 \<longrightarrow> Sleeping \<notin> set (waiters s))"

definition awake :: "pool_run \<Rightarrow> nat" where
  "awake s = length (filter (\<lambda>w. w \<in> {Starting, Woken}) (waiters s))"

definition pool_rank :: "nat \<Rightarrow> pool_run \<Rightarrow> nat" where
  "pool_rank n s = (5 - pc0 s) * (n + 1) + awake s"

text \<open>All workers have returned, and the flag is what the test expects.\<close>

definition pool_joined :: "pool_run \<Rightarrow> bool" where
  "pool_joined s \<longleftrightarrow> pc0 s = 5 \<and> flag s = 1 \<and> set (waiters s) \<subseteq> {Finished}"

lemma awake_le: "awake s \<le> length (waiters s)"
  by (simp add: awake_def)

lemma awake_test:
  assumes "i < length (waiters s)" "waiters s ! i \<in> {Starting, Woken}" "w \<notin> {Starting, Woken}"
  shows "awake (s\<lparr>waiters := (waiters s)[i := w]\<rparr>) < awake s"
proof -
  have e: "waiters s = take i (waiters s) @ waiters s ! i # drop (Suc i) (waiters s)" using assms(1) by (rule id_take_nth_drop)
  have "length (filter (\<lambda>w. w \<in> {Starting, Woken}) (waiters s)) = length (filter (\<lambda>w. w \<in> {Starting, Woken}) (take i (waiters s)))
      + 1 + length (filter (\<lambda>w. w \<in> {Starting, Woken}) (drop (Suc i) (waiters s)))"
    using assms(2) by (subst e) simp
  moreover have "(waiters s)[i := w] = take i (waiters s) @ w # drop (Suc i) (waiters s)" using assms(1) by (rule upd_conv_take_nth_drop)
  ultimately show ?thesis using assms(3) by (simp add: awake_def)
qed

lemma no_sleeper: "Sleeping \<notin> set (map wake_waiter ws)"
  by (auto simp: wake_waiter_def)

lemma pool_step_inv: "pool_step s s' \<Longrightarrow> pool_inv n s \<Longrightarrow> pool_inv n s'"
proof (induction rule: pool_step.induct)
  case (test i s)
  then show ?case by (auto simp: pool_inv_def dest!: set_update_subset_insert [THEN subsetD])
qed (use no_sleeper in \<open>auto simp: pool_inv_def notify_waiters_def simp del: set_map\<close>)

lemma pool_step_rank: "pool_step s s' \<Longrightarrow> pool_inv n s \<Longrightarrow> pool_rank n s' < pool_rank n s"
proof (induction rule: pool_step.induct)
  case (notify2 s)
  then show ?case using awake_le [of "(notify_waiters s)\<lparr>pc0 := 3\<rparr>"] by (simp add: pool_rank_def pool_inv_def notify_waiters_def)
next
  case (notify1 s)
  then show ?case using awake_le [of "(notify_waiters s)\<lparr>pc0 := 5\<rparr>"] by (simp add: pool_rank_def pool_inv_def notify_waiters_def)
next
  case (test i s)
  then show ?case using awake_test [of i s "if flag s = 1 then Finished else Sleeping"] by (simp add: pool_rank_def)
qed (simp_all add: pool_rank_def awake_def)

lemma pool_progress:
  assumes "pool_inv n s" "\<not> pool_joined s"
  shows "\<exists>s'. pool_step s s'"
proof (cases "pc0 s = 5")
  case True
  then obtain w where w: "w \<in> set (waiters s)" "w \<noteq> Finished" using assms by (auto simp: pool_joined_def pool_inv_def)
  have "w \<noteq> Sleeping" using assms(1) True w(1) by (auto simp: pool_inv_def)
  with w(2) have "w \<in> {Starting, Woken}" by (cases w) simp_all
  then show ?thesis using w(1) by (metis in_set_conv_nth pool_step.test)
next
  case False
  then have "pc0 s = 0 \<or> pc0 s = 1 \<or> pc0 s = 2 \<or> pc0 s = 3 \<or> pc0 s = 4" using assms(1) by (auto simp: pool_inv_def)
  then show ?thesis using pool_step.intros(1-5) by blast
qed

interpretation pool: ranked_system pool_step "pool_inv n" "pool_rank n" pool_joined for n
  by unfold_locales (use pool_step_inv pool_step_rank pool_progress in blast)+

text \<open>Every schedule of the workers ends, and where it ends the join returns with the flag at 1: no notification is missed.\<close>

lemma test_threading_joins:
  assumes "pool_step\<^sup>*\<^sup>* (pool_start n) s"
  shows "(\<exists>s'. pool_step\<^sup>*\<^sup>* s s' \<and> pool_joined s') \<and> ((\<nexists>s'. pool_step s s') \<longrightarrow> pool_joined s)"
proof -
  have "pool_inv n (pool_start n)" by (simp add: pool_inv_def pool_start_def)
  then have "pool_inv n s" using pool.run_inv [OF assms] by blast
  then show ?thesis using pool.reaches_goal pool_progress by blast
qed

text \<open>
  The second pool of the test has twenty workers: on a machine with more threads than that it reads behind them, and with at most twenty the
  number of threads is as the test expects.
\<close>

lemma test_threading_large:
  assumes "length workers = 20" "hw < 65535"
  shows "unat hw \<le> 20 \<Longrightarrow> \<exists>pool. CreatePersistentPool hw (hw + 1) workers = Ok pool \<and> GetPoolWorkCount pool = unat hw"
    and "20 < unat hw \<Longrightarrow> CreatePersistentPool hw (hw + 1) workers = Fault OutOfBounds"
proof -
  have lt: "hw < hw + 1" using assms(2) by (simp add: word_less_nat_alt unat_word_ariths)
  show "unat hw \<le> 20 \<Longrightarrow> \<exists>pool. CreatePersistentPool hw (hw + 1) workers = Ok pool \<and> GetPoolWorkCount pool = unat hw"
    using CreatePersistentPool_ok [of hw "hw + 1" workers] lt assms(1) by (simp add: min_absorb1 GetPoolWorkCount_def)
  have past: "start_workers n i workers p = Fault OutOfBounds" if "length workers < i + n" "i \<le> length workers" for n i and p :: "'a TPool"
    using that
  proof (induction n arbitrary: i p)
    case (Suc n)
    show ?case
    proof (cases "i < length workers")
      case True
      then show ?thesis using Suc by (simp add: read_at_def)
    next
      case False
      then show ?thesis by (simp add: read_at_def)
    qed
  qed simp
  show "20 < unat hw \<Longrightarrow> CreatePersistentPool hw (hw + 1) workers = Fault OutOfBounds"
    using past [of 0 "unat hw"] lt assms(1) by (simp add: CreatePersistentPool_def Let_def)
qed

end
