(* ===== verification/Spec2Isabelle.thy ===== *)
theory Spec2Isabelle
  imports Sending Outbox Peaks Legacy Store Pid Pools Diagnostics EventThread Thermo CmdFlow PidMotion Cli Programs Headers Payload AcqMachine UnitTests
begin

text \<open>
  \<^bold>\<open>DCScan-ModulesAPI: a verification development.\<close>

  The program is the server and client library of a double-crystal spectrometer. A server process controls motors,
  counters, an encoder and thermometers; a client process on another machine calls the server's registered functions
  and subscribes to its events over one TCP connection. The modules are \<^verbatim>\<open>DCS_Utils\<close> (queues, strings, logging,
  timing), \<^verbatim>\<open>DCS_Core\<close> (data base, cryptography, pools, PID controller, peak counter), \<^verbatim>\<open>DCS_Network\<close> (sockets,
  messages, server, client, console), \<^verbatim>\<open>DCS_Acquisition\<close> (DAQ, events, thermometer, encoder) and
  \<^verbatim>\<open>DCS_EngineControl\<close> (serial and USB ports, command service, motion).

  \<^bold>\<open>Conventions.\<close> A class or struct is a record, an enum a datatype, a fixed-width integer a word. A piece of
  code returns an \<open>outcome\<close> (theory \<open>Prelude\<close>): a value, a \<open>Fault\<close> for everything the C++ standard gives no value to
  or that leaves by an exception, or \<open>Blocked\<close> for a thread asleep on a condition variable. Uninitialised memory is
  an explicit argument. Code outside the repository (Winsock, SQLite, OpenSSL, NI-DAQmx, the Windows serial and USB
  calls, the encoder box) is a parameter: a record of functions, a stream of results, or the results themselves;
  what is relied on of SQLite is a named predicate with an in-memory instance that satisfies it. Floating-point
  numbers are exact elements of an ordered field unless a division by zero matters, where infinities and NaN are
  values of their own. Logging calls are left out of the models.

  \<^bold>\<open>Theories, parts and what is shown.\<close>

  \<^item> \<open>Prelude\<close>: machine types, outcomes, raw memory copies, little-endian integers, C strings. \<open>Systems\<close>: the interfaces
    of step relations (\<open>invariant_system\<close>, \<open>ranked_system\<close>) and of command sequences (\<open>invariant_commands\<close>,
    \<open>total_commands\<close>, \<open>refining_commands\<close>), interpreted for the receiving end, the whole connection, the event thread, the
    command flow, the accept loop, the server's life cycle, the message traffic, the workers of a pool, the acquisition commands and the data base.
  \<^item> \<open>ByteQueue\<close> (\<^verbatim>\<open>DCS_Utils/include/internal.h\<close>, \<^verbatim>\<open>ByteQueue\<close>): the receive buffer on its physical array. The
    locale \<open>framed_queue\<close> states what a receiver relies on and is interpreted on the code. \<open>Link\<close> interleaves the
    receive thread with the decoder: messages arrive complete and in order, none is lost, no schedule gets stuck;
    and the two ways to break it, a negative length and a disconnect inside a message. \<open>Sending\<close> adds the sending thread and the
    threads that queue messages: what is queued is delivered in order, and all of it while the connection is up; and the place
    from which a stop does not end the sending thread.
  \<^item> \<open>MsgQueue\<close> (\<^verbatim>\<open>SMessageQueue\<close>): the blocking queue; locale \<open>fifo\<close>, interpreted for it and for the other queues.
  \<^item> \<open>Message\<close> (\<^verbatim>\<open>message.cpp\<close>): the wire format with its round trip, synchronous and asynchronous requests, and the
    races and length limits of the code. \<open>Outbox\<close>: in every history of packets, events and requests the messages in the queues
    of server and client have the size of their arrays.
  \<^item> \<open>Registry\<close> (the text that \<^verbatim>\<open>scripts/DCSGen.py\<close> generates): encoding of calls and the event table. \<open>Calls\<close>: the functions and
    events that the headers register, their numbers and sizes, the generated cases of \<^verbatim>\<open>Execute\<close> and the wrappers; which of them
    overrun their array. \<open>Scanner\<close> (the script itself and \<^verbatim>\<open>common.py\<close>): from the lines of a header to the declarations that it marks, which
    are found exactly, in every well-formed header. \<open>Headers\<close>: the repository's headers as texts; what the scanner finds in them are the
    tables of \<open>Calls\<close>, with the generated names and numbers; and texts that mislead it.
  \<^item> \<open>Sockets\<close> (\<^verbatim>\<open>socket.cpp\<close>): creation of sockets without leaks, sending and receiving, the address of a peer.
  \<^item> \<open>Database\<close> (\<^verbatim>\<open>db.cpp\<close>): variables with their cache, refining a finite map; users. \<open>Store\<close>: opening and closing the file, the tables
    and that they fit the statements of the code, and the program that initialises the variables. \<open>Crypto\<close> (\<^verbatim>\<open>auth.cpp\<close>).
  \<^item> \<open>Handshake\<close>, \<open>Server\<close>, \<open>Client\<close> (\<^verbatim>\<open>server.cpp\<close>, \<^verbatim>\<open>client.cpp\<close>): login, dispatch, events, life cycle of the threads.
    This theory composes them: calling the wrapper of a registered function runs the function once and returns its result, an asynchronous call
    fulfils its own future, an event reaches the callback that was registered for it, and a spectrum goes from the samples to the client.
  \<^item> \<open>Containers\<close> (\<^verbatim>\<open>String\<close> and \<^verbatim>\<open>Vector\<close>), \<open>Diagnostics\<close> (timer and logger), \<open>Pools\<close> (allocators and thread pools),
    \<open>Pid\<close> (\<^verbatim>\<open>pid.cpp\<close>), \<open>Peaks\<close> (\<^verbatim>\<open>math.cpp\<close>: the index loops find exactly the pulses of a specification), \<open>Legacy\<close> (the older
    counter of the same file: a trigger with hysteresis, which reads one element too many).
  \<^item> \<open>Daq\<close> (\<^verbatim>\<open>daq.cpp\<close>), \<open>Acquisition\<close> (commands: the invariant of every command sequence),
    \<open>AcqMachine\<close> (they refine a machine with three modes, failures included), \<open>EventLoop\<close> (driver callbacks,
    spectrum and counts), \<open>EventThread\<close> (the event thread, the callback and a stop, interleaved), \<open>Payload\<close> (the bytes of the
    spectrum on the wire, by the layout of its structure; the locale \<open>codec\<close> is interpreted for the integers).
  \<^item> \<open>Serial\<close> (\<^verbatim>\<open>serial_win.cpp\<close>), \<open>Usb\<close> (\<^verbatim>\<open>winusb.cpp\<close>) and \<open>Thermo\<close> (\<^verbatim>\<open>temperature.cpp\<close>): reading a line, listing the
    ports, finding a device, the Modbus check sum, one reading.
  \<^item> \<open>Encoder\<close> (\<^verbatim>\<open>encoder.cpp\<close>): set-up of the device, the reference run (it ends exactly when every axis is referenced) and
    the data loop (what a client reads are the calibrated positions of the enabled axes).
  \<^item> \<open>Motion\<close> (\<^verbatim>\<open>Command\<close>, \<^verbatim>\<open>CmdBuffer\<close>, \<^verbatim>\<open>control_service.cpp\<close>) and \<open>CmdFlow\<close> (callers and service interleaved): queries
    are answered, commands stay in order, a waiting caller gets its response, and how a response is lost. \<open>PidMotion\<close>
    (\<^verbatim>\<open>DCS_EngineControl/src/external_cmds.cpp\<close>) puts controller, encoder and commands together: a steered motion issues
    only moves within its limits and ends at its target.
  \<^item> \<open>Listen\<close> (\<^verbatim>\<open>WaitForConnections\<close>, \<^verbatim>\<open>StopListening\<close>): the accept loop and its threads, the invariant of the server's life
    cycle. \<open>Terminal\<close> (\<^verbatim>\<open>DCS_Utils/src/internal.cpp\<close>) and \<open>Cli\<close> (\<^verbatim>\<open>cli.cpp\<close>): the console commands and their loop; the
    distance that it computes has a closed form, which is not the edit distance.
  \<^item> \<open>Bench\<close> and \<open>Programs\<close> (\<^verbatim>\<open>custom_targets/src\<close>): the demonstration programs for strings, precision and the acquisition driver,
    and those that steer a motion and read the encoder. \<open>UnitTests\<close> (\<^verbatim>\<open>tests/src\<close>): which tests pass, and which cannot; the workers of the
    thread pool, interleaved.

  \<^bold>\<open>Bounds and fuel.\<close> Loops that end are total functions with a measure. Loops that wait for the outside run over a
  list of what the outside delivers, and \<open>Blocked\<close> at its end is a loop that has not ended yet; statements that a loop
  returns name the list on which it does. The loop of the legacy counter, which need not end, has fuel. Interleavings are step
  relations without a bound on their length.

  \<^bold>\<open>Not modelled.\<close> The reading and writing of files by the generator script and the text around the generated cases, the
  expansion of the formats that callers of the logger pass, rounding of floating-point numbers, the change of a controller's gains while its
  motion runs, and the unit tests that only call a running server or measure time. Of the demonstration programs the start and stop of the services around the modelled calls is left out.
\<close>

section \<open>A synchronous call, end to end\<close>

lemma fetch_transmitted:
  assumes "wf_msg m" "bq_live q" "content q = frame (body m) @ rest"
  shows "\<exists>q'. fetchNextMsg q = Ok (body m, word_of_nat (length (body m)), q') \<and> content q' = rest"
proof -
  have "fetch_begin q = Ok (Some (header (body m)))"
    using assms(2,3) fetch_begin_header [of q] by (simp add: bq_live_def frame_def)
  then show ?thesis
    using fetch_finish_frame [OF _ valid_body [OF assms(1)] assms(3)] assms(2)
    by (auto simp: fetchNextMsg_def bq_live_def)
qed

lemma client_gets_response:
  assumes "wf_msg m" "msg_op m = iop_code SYNC_RESPONSE" "length (payload m) = SVReturn_size" "length ret0 = SVReturn_size"
    and "bq_live q" "transmit m = Ok wire" "content q = wire @ rest"
  shows "\<exists>q' c' m2. fetchNextMsg q = Ok (body m, word_of_nat (SVReturn_size + 9), q') \<and> content q' = rest
      \<and> client_round j (word_of_nat (SVReturn_size + 9)) (body m @ stale) c = Ok c'
      \<and> WaitForId ret0 (msg_id m) (msgs c') = Ok (payload m, m2)"
proof -
  obtain p where p: "msg_ptr m = Some p" "payload m = p" "unat (msg_size m) = length p" using assms(1) by (rule wf_msgE)
  have len: "length (body m) = SVReturn_size + 9" using assms(3) by simp
  have "content q = frame (body m) @ rest" using assms(6,7) transmit_frame [OF assms(1)] by simp
  then obtain q' where q': "fetchNextMsg q = Ok (body m, word_of_nat (length (body m)), q')" "content q' = rest"
    using fetch_transmitted [OF assms(1,5)] by blast
  have d: "decode j (word_of_nat (SVReturn_size + 9)) (body m @ stale) = Ok m"
    using decode_body [OF assms(1), of j stale] unfolding len .
  have "client_round j (word_of_nat (SVReturn_size + 9)) (body m @ stale) c = Ok (c\<lparr>msgs := (msgs c)\<lparr>lmessage := m\<rparr>\<rparr>)"
    unfolding client_round_def d using assms(1,2)
    by (simp add: client_dispatch_def p(1) SetMsgIdCondition_def Let_def)
  moreover have "WaitForId ret0 (msg_id m) ((msgs c)\<lparr>lmessage := m\<rparr>) = Ok (payload m, (msgs c)\<lparr>lmessage := Delete m\<rparr>)"
    using p assms(3,4) by (simp add: WaitForId_def Let_def memcpy_from_def memcpy_to_def blit_def)
  ultimately show ?thesis using q' len by (auto simp del: of_nat_add)
qed

text \<open>
  A remote call returns the result of the function it names. Take a client that sends a synchronous
  request for function \<open>fc\<close> with arguments \<open>as\<close>; let the bytes its sending thread writes stand at the front of
  the server's queue, and the bytes that the server's sending thread writes for its answer at the front of the
  client's queue. Then the server executes the function once on exactly these arguments, and the caller's wait
  for the id of its request ends with exactly the bytes the function returned.
\<close>

theorem sync_call_end_to_end:
  assumes "args_typed arg_size as" and "length (enc_call fc as) + 9 < 2 ^ 16"
    and "Execute \<lparr>fcode = fc, args = as\<rparr> w = (r, w')" and "length r = SVReturn_size" and "length ret0 = SVReturn_size"
    and "SendSync_schedule j Op_REQUEST (enc_call fc as) (word_of_nat (length (enc_call fc as))) (msgs c) = Ok (i, m1)"
    and "transmit (last (outbound m1)) = Ok wire" and "bq_live sq" and "content sq = wire @ srest"
    and "bq_live cq"
  shows "\<exists>sq' s'. fetchNextMsg sq = Ok (body (last (outbound m1)), word_of_nat (length (enc_call fc as) + 9), sq')
      \<and> content sq' = srest
      \<and> server_round j arg_size Execute (word_of_nat (length (enc_call fc as) + 9)) (body (last (outbound m1)) @ stale) s w = Ok (s', w')
      \<and> (\<forall>wire2 crest. transmit (last (outbound_data_queue s')) = Ok wire2 \<longrightarrow> content cq = wire2 @ crest \<longrightarrow>
          (\<exists>cq' c' m2. fetchNextMsg cq = Ok (body (last (outbound_data_queue s')), word_of_nat (SVReturn_size + 9), cq')
            \<and> content cq' = crest
            \<and> client_round j (word_of_nat (SVReturn_size + 9)) (body (last (outbound_data_queue s')) @ stale) (c\<lparr>msgs := m1\<rparr>) = Ok c'
            \<and> WaitForId ret0 i (msgs c') = Ok (r, m2)))"
proof -
  let ?d = "enc_call fc as"
  let ?req = "request (iop_code SYNC_REQUEST) (nid (msgs c)) ?d"
  have dne: "0 < length ?d" by (simp add: enc_call_def)
  have m1: "i = nid (msgs c)" "last (outbound m1) = ?req"
    using assms(6) send_request_ok [OF dne assms(2), of 1 j Op_REQUEST "msgs c"]
    by (auto simp: SendSync_schedule_def Let_def)
  have wfq: "wf_msg ?req" using dne assms(2) by (intro wf_request) simp_all
  have "content sq = frame (body ?req) @ srest"
    using assms(7,9) transmit_frame [OF wfq] m1 by simp
  then obtain sq' where sq': "fetchNextMsg sq = Ok (body ?req, word_of_nat (length (body ?req)), sq')" "content sq' = srest"
    using fetch_transmitted [OF wfq assms(8)] by blast
  let ?resp = "request (iop_code SYNC_RESPONSE) i r"
  define s' where "s' = s\<lparr>outbound_data_queue := outbound_data_queue s @ [?resp]\<rparr>"
  have srv: "server_round j arg_size Execute (word_of_nat (length ?d + 9)) (body ?req @ stale) s w = Ok (s', w')"
    using request_ok [of arg_size as fc Execute w r w' SYNC_REQUEST j "nid (msgs c)" stale s] assms(1-4) m1(1)
    by (simp add: s'_def del: of_nat_add)
  have wfr: "wf_msg ?resp"
  proof (rule wf_request)
    show "r \<noteq> []" using assms(4) by auto
    show "length r + 13 < 2 ^ 31" using assms(4) by simp
  qed
  have cl: "\<exists>cq' c' m2. fetchNextMsg cq = Ok (body ?resp, word_of_nat (SVReturn_size + 9), cq') \<and> content cq' = crest
      \<and> client_round j (word_of_nat (SVReturn_size + 9)) (body ?resp @ stale) (c\<lparr>msgs := m1\<rparr>) = Ok c'
      \<and> WaitForId ret0 i (msgs c') = Ok (r, m2)"
    if "transmit ?resp = Ok wire2" "content cq = wire2 @ crest" for wire2 crest
    using client_gets_response [OF wfr _ _ assms(5,10) that] assms(4) by simp
  show ?thesis
    using sq' srv cl m1 by (intro exI [of _ sq'] exI [of _ s']) (simp add: s'_def)
qed

definition full_queue :: "bytes \<Rightarrow> byte_queue" where
  "full_queue b = \<lparr>buffer = b, internal_buff_size = word_of_nat (length b),
     internal_buff_max_size = word_of_nat (length b), ntf_unblock = False\<rparr>"

lemma full_queue_live: "length b + 512 < 2 ^ 64 \<Longrightarrow> bq_live (full_queue b) \<and> content (full_queue b) = b"
  by (simp add: full_queue_def bq_live_def bq_inv_def capacity_def content_def)

theorem sync_call_end_to_end_witness:
  "\<exists>c' m2. client_round j0 (word_of_nat (SVReturn_size + 9)) (body (request 5 0 (replicate 1025 5)) @ [])
       ((client_init 1 :: unit client)\<lparr>msgs := messaging_init\<lparr>nid := 1, outbound := [request 2 0 (enc_call 5 [])]\<rparr>\<rparr>) = Ok c'
     \<and> WaitForId (replicate 1025 0) 0 (msgs c') = Ok (replicate 1025 5, m2)"
proof -
  let ?d = "enc_call 5 []" and ?c = "client_init 1 :: unit client" and ?s = "server_init 1 :: unit server"
  let ?m1 = "messaging_init\<lparr>nid := 1, outbound := [request 2 0 ?d]\<rparr>"
  let ?resp = "request 5 0 (replicate 1025 5)"
  let ?sq = "full_queue (frame (body (request 2 0 ?d)))" and ?cq = "full_queue (frame (body ?resp))"
  have d: "length ?d = 2" by (simp add: enc_call_def)
  have m1: "SendSync_schedule j0 Op_REQUEST ?d (word_of_nat (length ?d)) (msgs ?c) = Ok (0, ?m1)"
    using send_request_ok [of ?d 1 j0 Op_REQUEST messaging_init] d
    by (simp add: SendSync_schedule_def client_init_def Let_def messaging_init_def)
  have wf1: "wf_msg (request 2 0 ?d)" using d by (intro wf_request) auto
  have wf2: "wf_msg ?resp" by (intro wf_request) simp_all
  have t1: "transmit (last (outbound ?m1)) = Ok (frame (body (request 2 0 ?d)))"
    using transmit_frame [OF wf1] by simp
  have s: "bq_live ?sq" "content ?sq = frame (body (request 2 0 ?d)) @ []"
    using full_queue_live [of "frame (body (request 2 0 ?d))"] d by simp_all
  have c: "bq_live ?cq" "content ?cq = frame (body ?resp)"
    using full_queue_live [of "frame (body ?resp)"] by simp_all
  have srv: "server_round j0 (\<lambda>_. None) exec_ex (word_of_nat (length ?d + 9)) (body (request 2 0 ?d) @ []) ?s 0
      = Ok (?s\<lparr>outbound_data_queue := outbound_data_queue ?s @ [?resp]\<rparr>, 1)"
    using request_ok [of "\<lambda>_. None" "[]" 5 exec_ex 0 "replicate 1025 5" 1 SYNC_REQUEST j0 0 "[]" ?s] d
    by (simp add: args_typed_def exec_ex_def del: of_nat_add)
  from sync_call_end_to_end [where arg_size = "\<lambda>_. None" and as = "[]" and fc = 5 and Execute = exec_ex and w = 0
      and r = "replicate 1025 5" and w' = 1 and ?ret0.0 = "replicate 1025 0" and j = j0 and c = ?c and stale = "[]" and s = ?s,
      OF _ _ _ _ _ m1 t1 s c(1)] srv c(2) transmit_frame [OF wf2] d
  show ?thesis by (auto simp: args_typed_def exec_ex_def simp del: of_nat_add)
qed

section \<open>A remote procedure call, end to end\<close>

text \<open>
  C2. Calling a wrapper of the namespace \<^verbatim>\<open>RPC\<close> calls the registered function on the server and returns its result. Take any registered
  function that is not one of the six whose arguments are too long, and values of its declared types. Let the wrapper write its request
  and send it; let the bytes its sending thread writes stand at the front of the server's queue, and the bytes that the
  server's sending thread writes for the answer at the front of the client's queue. Then the server calls exactly this function, once,
  on exactly these values, and the wait of the wrapper ends with an answer from which it reads exactly what the function returned.
\<close>

theorem rpc_end_to_end:
  assumes "distinct order" and "k < length (registered_calls no_enc order)" and "codes_ok codes (registered_calls no_enc order)"
    and "f = registered_calls no_enc order ! k" and "c_name f \<notin> set long_calls" and "vals_typed f vals"
    and "length arr = 1024" and "length ptr0 = 1024" and "length ret0 = SVReturn_size"
    and "impl (c_name f) vals w = (local, w')" and "\<And>t. c_ret f = Some t \<Longrightarrow> length local = size_of t"
    and "rpc_request codes (registered_calls no_enc order) arr k vals = Ok (b, n)"
    and "SendSync_schedule j Op_REQUEST b (word_of_nat n) (msgs c) = Ok (i, m1)"
    and "transmit (last (outbound m1)) = Ok wire" and "bq_live sq" and "content sq = wire @ srest" and "bq_live cq"
  shows "\<exists>sq' s' r. fetchNextMsg sq = Ok (body (last (outbound m1)), word_of_nat (n + 9), sq') \<and> content sq' = srest
      \<and> server_round j (gen_arg_size codes) (gen_execute uninit ptr0 ret_code codes (registered_calls no_enc order) impl)
          (word_of_nat (n + 9)) (body (last (outbound m1)) @ stale) s w = Ok (s', w')
      \<and> (c_ret f \<noteq> None \<longrightarrow> rpc_result f r = local)
      \<and> (\<forall>wire2 crest. transmit (last (outbound_data_queue s')) = Ok wire2 \<longrightarrow> content cq = wire2 @ crest \<longrightarrow>
          (\<exists>cq' c' m2. fetchNextMsg cq = Ok (body (last (outbound_data_queue s')), word_of_nat (SVReturn_size + 9), cq')
            \<and> client_round j (word_of_nat (SVReturn_size + 9)) (body (last (outbound_data_queue s')) @ stale) (c\<lparr>msgs := m1\<rparr>) = Ok c'
            \<and> WaitForId ret0 i (msgs c') = Ok (r, m2)))"
proof -
  let ?calls = "registered_calls no_enc order" and ?as = "coded_args codes f vals"
  let ?d = "enc_call (call_code k) ?as" and ?exec = "gen_execute uninit ptr0 ret_code codes ?calls impl"
  have f: "f \<in> set ?calls" using assms(2,4) by simp
  have len: "length ?d = call_bytes f" using assms(6) by (rule length_coded)
  have d: "n = length ?d" "take n b = ?d"
    using rpc_request_written [OF assms(2,4-7), of codes] assms(12) len by auto
  have small: "length ?d \<le> 1024" using call_bytes_registered [OF f] assms(5) len by simp
  have n: "0 < n" "n \<le> length b" "n + 9 < 2 ^ 16"
  proof -
    show "0 < n" unfolding d(1) by (simp add: enc_call_def)
    show "n \<le> length b" using d by (metis length_take min.absorb_iff2 min.commute)
    show "n + 9 < 2 ^ 16" using small unfolding d(1) by simp
  qed
  have snd: "SendSync_schedule j Op_REQUEST ?d (word_of_nat (length ?d)) (msgs c) = Ok (i, m1)"
    using assms(13) send_request_prefix [OF n, of 1 j Op_REQUEST "msgs c"] d by (simp add: SendSync_schedule_def)
  obtain r where r: "Execute_gen uninit ptr0 ret_code codes ?calls impl \<lparr>fcode = call_code k, args = ?as\<rparr> w = Ok (r, w')"
    "length r = SVReturn_size" "c_ret f \<noteq> None \<longrightarrow> rpc_result f r = local"
    using rpc_executed [where impl = impl and w = w and local = local and w' = w' and uninit = uninit and ret_code = ret_code and codes = codes,
        OF assms(1,2,4,6,8,10,11)] by auto
  have ex: "?exec \<lparr>fcode = call_code k, args = ?as\<rparr> w = (r, w')" using r(1) by (simp add: gen_execute_def)
  have "args_typed (gen_arg_size codes) ?as" using codes_typed [OF assms(3) f assms(6)] .
  from sync_call_end_to_end [where Execute = ?exec and w = w and stale = stale and s = s, OF this _ ex r(2) assms(9) snd assms(14-17)] small r(3)
  show ?thesis unfolding d(1) by (simp del: of_nat_add) blast
qed

theorem rpc_end_to_end_witness:
  "\<exists>r c' m2. client_round j0 (word_of_nat (SVReturn_size + 9)) (body (request 5 0 (1 # [8, 0] @ replicate 1022 0)) @ [])
       ((client_init 1 :: unit client)\<lparr>msgs := messaging_init\<lparr>nid := 1, outbound := [request 2 0 (put16 7)]\<rparr>\<rparr>) = Ok c'
     \<and> WaitForId (replicate 1025 0) 0 (msgs c') = Ok (r, m2) \<and> take 2 (drop 1 r) = [8, 0]"
proof -
  let ?calls = "registered_calls True [Core_h]" and ?f = "mk_call ''Threading_GetMaxHardwareConcurrency'' (Some Ty_u16) []"
  let ?codes = "[Ty_BasicString, Ty_f64, Ty_Authority]" and ?buf = "replicate 1024 (0 :: u8)" and ?uninit = "\<lambda>n. replicate n (0 :: u8)"
  let ?impl = "\<lambda>(name :: string) (vs :: bytes list) (w :: nat). ([8, 0 :: u8], w + 1)" and ?ret = "\<lambda>_ :: ctype. 1 :: u8"
  let ?c = "client_init 1 :: unit client" and ?s = "server_init 1 :: unit server" and ?b = "put16 7 @ replicate 1022 0"
  let ?m1 = "messaging_init\<lparr>nid := 1, outbound := [request 2 0 (put16 7)]\<rparr>"
  let ?r = "1 # [8, 0] @ replicate 1022 (0 :: u8)"
  let ?resp = "request 5 0 ?r"
  let ?sq = "full_queue (frame (body (request 2 0 (put16 7))))" and ?cq = "full_queue (frame (body ?resp))"
  have f: "?f = ?calls ! 6" and k: "6 < length ?calls" by (simp_all add: call_tables)
  have ok: "codes_ok ?codes ?calls" by (simp add: codes_ok_def call_tables)
  have code: "call_code 6 = 7" by (simp add: call_code_def)
  have req: "rpc_request ?codes ?calls ?buf 6 [] = Ok (?b, 2)"
    by (simp add: rpc_request_def f [symmetric] coded_args_def code GetDataFromParams_def memcpy_to_def blit_def)
  have m1: "SendSync_schedule j0 Op_REQUEST ?b (word_of_nat 2) (msgs ?c) = Ok (0, ?m1)"
    using send_request_prefix [of 2 ?b 1 j0 Op_REQUEST messaging_init] send_request_ok [of "put16 7" 1 j0 Op_REQUEST messaging_init]
    by (simp add: SendSync_schedule_def client_init_def Let_def messaging_init_def)
  have wf1: "wf_msg (request 2 0 (put16 7))" by (rule wf_request) (use length_put16 [of 7] in \<open>auto simp del: length_put16\<close>)
  have wf2: "wf_msg ?resp" by (intro wf_request) simp_all
  have t1: "transmit (last (outbound ?m1)) = Ok (frame (body (request 2 0 (put16 7))))" using transmit_frame [OF wf1] by simp
  have sq: "bq_live ?sq" "content ?sq = frame (body (request 2 0 (put16 7))) @ []"
    using full_queue_live [of "frame (body (request 2 0 (put16 7)))"] by simp_all
  have cq: "bq_live ?cq" "content ?cq = frame (body ?resp) @ []" using full_queue_live [of "frame (body ?resp)"] by simp_all
  have ex: "gen_execute ?uninit ?buf ?ret ?codes ?calls ?impl \<lparr>fcode = 7, args = []\<rparr> 0 = (?r, 1)"
    by (simp add: gen_execute_def Execute_gen_def f [symmetric] memcpy_to_def blit_def call_tables)
  have srv: "server_round j0 (gen_arg_size ?codes) (gen_execute ?uninit ?buf ?ret ?codes ?calls ?impl) (word_of_nat (2 + 9))
      (body (request 2 0 (put16 7)) @ []) ?s 0 = Ok (?s\<lparr>outbound_data_queue := outbound_data_queue ?s @ [?resp]\<rparr>, 1)"
    using request_ok [of "gen_arg_size ?codes" "[]" 7 "gen_execute ?uninit ?buf ?ret ?codes ?calls ?impl" 0 ?r 1 SYNC_REQUEST j0 0 "[]" ?s] ex
    by (simp add: args_typed_def enc_call_def del: of_nat_add)
  have "\<exists>r. rpc_result ?f r = [8, 0] \<and> (\<exists>c' m2. client_round j0 (word_of_nat (SVReturn_size + 9)) (body ?resp @ []) (?c\<lparr>msgs := ?m1\<rparr>) = Ok c'
      \<and> WaitForId (replicate 1025 0) 0 (msgs c') = Ok (r, m2))"
    using rpc_end_to_end [where order = "[Core_h]" and no_enc = True and k = 6 and codes = ?codes and f = ?f and vals = "[]" and arr = ?buf
        and ?ptr0.0 = ?buf and ?ret0.0 = "replicate 1025 0" and impl = ?impl and w = 0 and local = "[8, 0]" and w' = 1 and stale = "[]"
        and s = ?s and uninit = ?uninit and ret_code = ?ret, OF _ k ok f _ _ _ _ _ _ _ req m1 t1 sq cq(1)]
      srv cq(2) transmit_frame [OF wf2]
    by (simp add: long_calls_def vals_typed_def del: of_nat_add) blast
  then show ?thesis by (auto simp: rpc_result_def)
qed

section \<open>Events and asynchronous calls, end to end\<close>

lemma arrives:
  assumes "wf_msg m" "bq_live q" "transmit m = Ok wire" "content q = wire @ rest"
  shows "\<exists>q'. fetchNextMsg q = Ok (body m, word_of_nat (length (body m)), q') \<and> content q' = rest"
  using fetch_transmitted [OF assms(1,2), of rest] assms(3,4) transmit_frame [OF assms(1)] by simp

lemma body_size_nonzero: "wf_msg m \<Longrightarrow> (word_of_nat (length (body m)) :: u64) \<noteq> 0"
proof (erule wf_msgE)
  fix p assume "payload m = p" "length p + 13 < 2 ^ 31"
  then have "unat (word_of_nat (length (body m)) :: u64) = length p + 9" by (simp del: of_nat_add)
  then show ?thesis by (metis add_is_0 unsigned_0 zero_neq_numeral)
qed

lemma rounds_dispatch:
  assumes "wf_msg m"
  shows "client_round j (word_of_nat (length (body m))) (body m @ stale) c = client_dispatch m c"
    and "server_round j arg_size Execute (word_of_nat (length (body m))) (body m @ stale) s w = server_dispatch j arg_size Execute m s w"
  using decode_body [OF assms, of j stale] body_size_nonzero [OF assms]
  by (simp_all add: client_round_def server_round_def del: length_body of_nat_add)

lemma subscription_request:
  assumes "SendAsync j Op_EVT_SUB [e] 1 st = Ok (i, st1)"
  shows "last (outbound st1) = request (iop_code EVT_SUB) (nid st) [e] \<and> wf_msg (request (iop_code EVT_SUB) (nid st) [e])"
  using assms send_request_ok [of "[e]" 2 j Op_EVT_SUB st] wf_request [of "[e]" "iop_code EVT_SUB" "nid st"]
  by (auto simp: SendAsync_def SendAsync_schedule_def SendAsync_register_def Let_def)

text \<open>
  C3. An event reaches the callback that was registered for it. Take a client that registers a callback for an event it
  had none for and sends the subscription; let the bytes of the subscription stand at the front of the server's
  queue. Then the server subscribes the client, and when it next emits the event, whose bytes stand at the front of the
  client's queue, the client calls exactly this callback, once, with the event's data and the user's data.
\<close>

theorem event_end_to_end:
  assumes "e \<le> MAX_SUB (sreg s)" and "e \<le> MAX_SUB (creg c)" and "length data + 14 < 2 ^ 31"
    and "evt_callbacks (creg c) e = None" and "evt_userData (creg c) e = None" and "SetupEvent (creg c) e f ud = (d, r1)"
    and "SendAsync j Op_EVT_SUB d 1 (msgs c) = Ok (i, m1)" and "transmit (last (outbound m1)) = Ok wire"
    and "bq_live sq" and "content sq = wire @ srest"
    and "transmit (request (iop_code EVT_RESPONSE) (server_nid s) (e # data)) = Ok wire2"
    and "bq_live cq" and "content cq = wire2 @ crest"
  shows "\<exists>sub sz sq' s1 s2 b n cq'. fetchNextMsg sq = Ok (sub, sz, sq') \<and> content sq' = srest
    \<and> server_round j arg_size Execute sz (sub @ stale) s w = Ok (s1, w) \<and> EmitEvent j e data s1 = Ok s2
    \<and> outbound_data_queue s2 = outbound_data_queue s @ [request (iop_code EVT_RESPONSE) (server_nid s) (e # data)]
    \<and> fetchNextMsg cq = Ok (b, n, cq') \<and> content cq' = crest
    \<and> client_round j n (b @ stale) (c\<lparr>msgs := m1, creg := r1\<rparr>)
        = Ok (c\<lparr>msgs := m1, creg := r1, called := called c @ [(f, data, Some ud)]\<rparr>)"
proof -
  have reg: "d = [e]" "evt_callbacks r1 e = Some f" "evt_userData r1 e = Some ud" "MAX_SUB r1 = MAX_SUB (creg c)"
    using assms(4,5,6) by (auto simp: SetupEvent_def emplace_def)
  let ?sub = "request (iop_code EVT_SUB) (nid (msgs c)) [e]"
  let ?s1 = "s\<lparr>sreg := SetEvent (sreg s) e\<rparr>" and ?evt = "request (iop_code EVT_RESPONSE) (server_nid s) (e # data)"
  have sub: "last (outbound m1) = ?sub" "wf_msg ?sub" using subscription_request assms(7) reg(1) by blast+
  obtain sq' where sq': "fetchNextMsg sq = Ok (body ?sub, word_of_nat (length (body ?sub)), sq')" "content sq' = srest"
    using arrives [OF sub(2) assms(9) _ assms(10)] assms(8) sub(1) by auto
  have srv: "server_round j arg_size Execute (word_of_nat (length (body ?sub))) (body ?sub @ stale) s w = Ok (?s1, w)"
    unfolding rounds_dispatch(2) [OF sub(2)] by (simp add: server_dispatch_def read_at_def)
  have "CheckEvent (sreg ?s1) e = Ok True" using assms(1) by simp
  then obtain s2 where emit: "EmitEvent j e data ?s1 = Ok s2" "outbound_data_queue s2 = outbound_data_queue s @ [?evt]"
    using EmitEvent_subscribed [of ?s1 e data j] assms(3) by simp
  have wfe: "wf_msg ?evt" using assms(3) by (intro wf_request) simp_all
  let ?c = "c\<lparr>msgs := m1, creg := r1\<rparr>"
  have "client_dispatch ?evt ?c = Ok (?c\<lparr>called := called c @ [(f, data, Some ud)]\<rparr>)"
    using assms(2) reg by (simp add: client_dispatch_def on_event_def read_at_def GetEventCallback_def GetEventUserData_def)
  then have disp: "client_round j (word_of_nat (length (body ?evt))) (body ?evt @ stale) ?c
      = Ok (c\<lparr>msgs := m1, creg := r1, called := called c @ [(f, data, Some ud)]\<rparr>)"
    unfolding rounds_dispatch(1) [OF wfe] by simp
  obtain cq' where cq': "fetchNextMsg cq = Ok (body ?evt, word_of_nat (length (body ?evt)), cq')" "content cq' = crest"
    using arrives [OF wfe assms(12,11,13)] by blast
  show ?thesis using sq' srv emit cq' disp by blast
qed

theorem event_end_to_end_witness:
  "\<exists>b n c1 c2. client_round j0 n (b @ []) c1 = Ok c2 \<and> called c1 = ([] :: (nat \<times> bytes \<times> nat option) list)
     \<and> called c2 = [(7, [42], Some 9)]"
proof -
  let ?s = "server_init 1 :: unit server" and ?c = "client_init 1 :: nat client"
  let ?sub = "request 7 0 [1]" and ?evt = "request 8 0 [1, 42]"
  let ?m1 = "messaging_init\<lparr>nid := 1, outbound := [?sub], async_mess_prom := {0}\<rparr>"
  have m1: "SendAsync j0 Op_EVT_SUB [1] 1 (msgs ?c) = Ok (0, ?m1)"
    using send_request_ok [of "[1]" 2 j0 Op_EVT_SUB messaging_init]
    by (simp add: SendAsync_def SendAsync_schedule_def SendAsync_register_def client_init_def Let_def messaging_init_def)
  have t: "transmit (last (outbound ?m1)) = Ok (frame (body ?sub))"
    "transmit (request (iop_code EVT_RESPONSE) (server_nid ?s) [1, 42]) = Ok (frame (body ?evt))"
    using transmit_frame [of ?sub] transmit_frame [of ?evt] by (simp_all add: wf_request server_init_def)
  have q: "bq_live (full_queue (frame (body ?sub)))" "content (full_queue (frame (body ?sub))) = frame (body ?sub) @ []"
    "bq_live (full_queue (frame (body ?evt)))" "content (full_queue (frame (body ?evt))) = frame (body ?evt) @ []"
    using full_queue_live [of "frame (body ?sub)"] full_queue_live [of "frame (body ?evt)"] by simp_all
  have r1: "\<exists>r1. SetupEvent (creg ?c) 1 7 9 = ([1], r1)" by (simp add: SetupEvent_def)
  then obtain r1 where r1: "SetupEvent (creg ?c) 1 7 9 = ([1], r1)" by blast
  have "1 \<le> MAX_SUB (sreg ?s)" "1 \<le> MAX_SUB (creg ?c)" "length [42 :: u8] + 14 < 2 ^ 31"
    "evt_callbacks (creg ?c) 1 = None" "evt_userData (creg ?c) 1 = None"
    by (simp_all add: server_init_def client_init_def registry_init_def)
  from event_end_to_end [where arg_size = "\<lambda>_. None" and Execute = exec_ex and w = 0 and stale = "[]",
      OF this r1 m1 t(1) q(1,2) t(2) q(3,4)]
  obtain b n where "client_round j0 n (b @ []) (?c\<lparr>msgs := ?m1, creg := r1\<rparr>)
      = Ok (?c\<lparr>msgs := ?m1, creg := r1, called := called ?c @ [(7, [42], Some 9)]\<rparr>)" by blast
  then show ?thesis by (intro exI) (auto simp: client_init_def)
qed

text \<open>
  C4. An asynchronous call fulfils its future with the result of the function it names: for a request that the sending thread has
  put on the wire after the call returned, the server executes the function once on the arguments, and its answer fulfils the future
  of this call, and of no other call, with the bytes that the function returned.
\<close>

theorem async_call_end_to_end:
  assumes "args_typed arg_size as" and "length (enc_call fc as) + 9 < 2 ^ 16"
    and "Execute \<lparr>fcode = fc, args = as\<rparr> w = (r, w')" and "length r = SVReturn_size" and "nid (msgs c) \<notin> async_mess_prom (msgs c)"
    and "SendAsync j Op_REQUEST (enc_call fc as) (word_of_nat (length (enc_call fc as))) (msgs c) = Ok (i, m1)"
    and "transmit (last (outbound m1)) = Ok wire" and "bq_live sq" and "content sq = wire @ srest"
    and "transmit (request (iop_code ASYNC_RESPONSE) i r) = Ok wire2" and "bq_live cq" and "content cq = wire2 @ crest"
  shows "\<exists>b n sq' s' b2 n2 cq' m2. fetchNextMsg sq = Ok (b, n, sq') \<and> content sq' = srest
    \<and> server_round j arg_size Execute n (b @ stale) s w = Ok (s', w')
    \<and> outbound_data_queue s' = outbound_data_queue s @ [request (iop_code ASYNC_RESPONSE) i r]
    \<and> fetchNextMsg cq = Ok (b2, n2, cq') \<and> content cq' = crest
    \<and> client_round j n2 (b2 @ stale) (c\<lparr>msgs := m1\<rparr>) = Ok (c\<lparr>msgs := m2\<rparr>)
    \<and> AsyncItem_get i m2 = Ok r \<and> (\<forall>k. k \<noteq> i \<longrightarrow> AsyncItem_get k m2 = AsyncItem_get k (msgs c))
    \<and> async_mess_prom m2 = async_mess_prom (msgs c)"
proof -
  let ?d = "enc_call fc as"
  let ?req = "request (iop_code ASYNC_REQUEST) (nid (msgs c)) ?d" and ?resp = "request (iop_code ASYNC_RESPONSE) i r"
  have dne: "0 < length ?d" by (simp add: enc_call_def)
  have m1: "i = nid (msgs c)" "last (outbound m1) = ?req" "futures m1 = futures (msgs c)"
      "async_mess_prom m1 = insert (nid (msgs c)) (async_mess_prom (msgs c))"
    using assms(6) send_request_ok [OF dne assms(2), of 2 j Op_REQUEST "msgs c"]
    by (auto simp: SendAsync_def SendAsync_schedule_def SendAsync_register_def Let_def)
  have wfq: "wf_msg ?req" using dne assms(2) by (intro wf_request) simp_all
  have "r \<noteq> []" "length r + 13 < 2 ^ 31" using assms(4) by auto
  then have wfr: "wf_msg ?resp" by (rule wf_request)
  obtain sq' where sq': "fetchNextMsg sq = Ok (body ?req, word_of_nat (length (body ?req)), sq')" "content sq' = srest"
    using arrives [OF wfq assms(8) _ assms(9)] assms(7) m1(2) by auto
  obtain cq' where cq': "fetchNextMsg cq = Ok (body ?resp, word_of_nat (length (body ?resp)), cq')" "content cq' = crest"
    using arrives [OF wfr assms(11,10,12)] by blast
  have srv: "server_round j arg_size Execute (word_of_nat (length (body ?req))) (body ?req @ stale) s w
      = Ok (s\<lparr>outbound_data_queue := outbound_data_queue s @ [?resp]\<rparr>, w')"
    using request_ok [of arg_size as fc Execute w r w' ASYNC_REQUEST j "nid (msgs c)" stale s] assms(1-4) m1(1)
    by (simp del: of_nat_add)
  define m2 where "m2 = m1\<lparr>futures := (futures (msgs c))(i \<mapsto> r), async_mess_prom := async_mess_prom (msgs c)\<rparr>"
  have "NotifyPromise m1 ?resp = Ok m2"
    using m1 assms(4,5) by (simp add: NotifyPromise_def memcpy_from_def m2_def)
  then have "client_round j (word_of_nat (length (body ?resp))) (body ?resp @ stale) (c\<lparr>msgs := m1\<rparr>) = Ok (c\<lparr>msgs := m2\<rparr>)"
    unfolding rounds_dispatch(1) [OF wfr] by (simp add: client_dispatch_def)
  moreover have "AsyncItem_get i m2 = Ok r" "\<forall>k. k \<noteq> i \<longrightarrow> AsyncItem_get k m2 = AsyncItem_get k (msgs c)"
    "async_mess_prom m2 = async_mess_prom (msgs c)" by (simp_all add: m2_def AsyncItem_get_def)
  moreover have "outbound_data_queue (s\<lparr>outbound_data_queue := outbound_data_queue s @ [?resp]\<rparr>) = outbound_data_queue s @ [?resp]" by simp
  ultimately show ?thesis using sq' srv cq' by blast
qed

theorem async_call_end_to_end_witness:
  "\<exists>b n m2. client_round j0 n (b @ []) ((client_init 1 :: unit client)\<lparr>msgs :=
       messaging_init\<lparr>nid := 1, outbound := [request 3 0 (enc_call 5 [])], async_mess_prom := {0}\<rparr>\<rparr>)
       = Ok ((client_init 1)\<lparr>msgs := m2\<rparr>) \<and> AsyncItem_get 0 m2 = Ok (replicate 1025 5)"
proof -
  let ?d = "enc_call 5 []" and ?c = "client_init 1 :: unit client" and ?s = "server_init 1 :: unit server"
  let ?req = "request 3 0 ?d" and ?resp = "request 6 0 (replicate 1025 5)"
  let ?m1 = "messaging_init\<lparr>nid := 1, outbound := [?req], async_mess_prom := {0}\<rparr>"
  have d: "length ?d = 2" by (simp add: enc_call_def)
  then have dne: "?d \<noteq> []" by auto
  have m1: "SendAsync j0 Op_REQUEST ?d (word_of_nat (length ?d)) (msgs ?c) = Ok (0, ?m1)"
    using send_request_ok [of ?d 2 j0 Op_REQUEST messaging_init] d
    by (simp add: SendAsync_def SendAsync_schedule_def SendAsync_register_def client_init_def Let_def messaging_init_def)
  have wf: "wf_msg ?req" "wf_msg ?resp" using d dne by (simp_all add: wf_request)
  have t: "transmit (last (outbound ?m1)) = Ok (frame (body ?req))" "transmit (request (iop_code ASYNC_RESPONSE) 0 (replicate 1025 5)) = Ok (frame (body ?resp))"
    using wf transmit_frame by simp_all
  have q: "bq_live (full_queue (frame (body ?req)))" "content (full_queue (frame (body ?req))) = frame (body ?req) @ []"
    "bq_live (full_queue (frame (body ?resp)))" "content (full_queue (frame (body ?resp))) = frame (body ?resp) @ []"
    using full_queue_live [of "frame (body ?req)"] full_queue_live [of "frame (body ?resp)"] d by simp_all
  have h: "args_typed (\<lambda>_. None) []" "length ?d + 9 < 2 ^ 16" "exec_ex \<lparr>fcode = 5, args = []\<rparr> 0 = (replicate 1025 5, 1)"
    "length (replicate 1025 (5 :: u8)) = SVReturn_size" "nid (msgs ?c) \<notin> async_mess_prom (msgs ?c)"
    using d by (simp_all add: args_typed_def exec_ex_def client_init_def messaging_init_def)
  from async_call_end_to_end [where stale = "[]" and s = ?s and c = ?c and Execute = exec_ex and r = "replicate 1025 5"
      and ?m1.0 = ?m1 and arg_size = "\<lambda>_. None" and as = "[]" and fc = 5, OF h m1 t(1) q(1,2) t(2) q(3,4)]
  show ?thesis by blast
qed

section \<open>A spectrum, from the samples to the client\<close>

text \<open>
  C7. From the samples to the user's callback. Take a buffer of samples with at most 128 pulses, a client that is subscribed to the event of
  the spectrum and has a callback for it. Then the multichannel thread builds one structure from the buffer, its bytes are
  queued for the client, and when they stand at the front of the client's queue the callback is called once; the fields it reads from its data,
  at the addresses that the layout of the structure gives, are the number of pulses, the time, the number of channels and, bin by bin, the
  heights of the pulses in units of the range over the number of channels.
\<close>

theorem spectrum_end_to_end:
  assumes "GetEvent (registered_events order) ''DCS::DAQ::MCACountEvent'' = Ok e"
    and "CheckEvent (sreg s) e = Ok True" and "e \<le> MAX_SUB (creg c)" and "evt_callbacks (creg c) e = Some f" and "evt_userData (creg c) e = Some ud"
    and "length samples = INTERNAL_SAMP_SIZE" and "length bins0 = 128" and "length gap = 2"
    and "ps = pulses (1 / 5) 10 samples 0" and "length ps \<le> 128"
    and "ed = ed0\<lparr>timestamp_wall := ts, counts := countArrayPeak samples (1 / 5) (10 :: 'f::floor_ceiling) 0\<rparr>" and "bq_live cq"
  shows "\<exists>d s'. MCACountEvent (\<lambda>_. True) bins0 nch ed daq = Ok (daq\<lparr>emitted := emitted daq @ [MCAData d]\<rparr>)
    \<and> EmitEvent j e (MCACountEventData_bytes gap d) s = Ok s'
    \<and> (\<forall>wire crest. transmit (last (outbound_data_queue s')) = Ok wire \<longrightarrow> content cq = wire @ crest \<longrightarrow>
        (\<exists>b n cq' data r. fetchNextMsg cq = Ok (b, n, cq') \<and> content cq' = crest
          \<and> client_round j n (b @ stale) c = Ok (c\<lparr>called := called c @ [(f, data, Some ud)]\<rparr>)
          \<and> MCACountEventData_read data = r \<and> mca_count r = length ps \<and> mca_timestamp r = ts \<and> total_max_bin_count r = nch
          \<and> take (length ps) (bins r) = map (\<lambda>p. word_of_int \<lfloor>fst p / 10 * of_nat (unat nch)\<rfloor>) ps))"
proof -
  define d where "d = \<lparr>mca_count = length ps, mca_timestamp = ts, total_max_bin_count = nch,
      bins = map (\<lambda>p. word_of_int \<lfloor>fst p / 10 * of_nat (unat nch)\<rfloor>) ps @ drop (length ps) bins0\<rparr>"
  let ?data = "MCACountEventData_bytes gap d"
  let ?evt = "request (iop_code EVT_RESPONSE) (server_nid s) (e # ?data)"
  have b: "length (bins d) = 128" "mca_count d < 2 ^ 64" using assms(7,10) by (simp_all add: d_def)
  have df: "mca_count d = length ps" "mca_timestamp d = ts" "total_max_bin_count d = nch"
    "take (length ps) (bins d) = map (\<lambda>p. word_of_int \<lfloor>fst p / 10 * of_nat (unat nch)\<rfloor>) ps" by (simp_all add: d_def)
  have len: "length ?data = 280" using length_MCACountEventData_bytes [OF b(1) assms(8)] by (simp add: MCACountEventData_layout)
  have mca: "MCACountEvent (\<lambda>_. True) bins0 nch ed daq = Ok (daq\<lparr>emitted := emitted daq @ [MCAData d]\<rparr>)"
    using mca_spectrum [OF assms(6,7,9,11), where subscribed = "\<lambda>_. True" and nch = nch and s = daq] assms(10) by (simp add: emit_def d_def)
  obtain s' where s': "EmitEvent j e ?data s = Ok s'" "outbound_data_queue s' = outbound_data_queue s @ [?evt]"
    using EmitEvent_subscribed [OF assms(2), of ?data j] len by simp
  have wf: "wf_msg ?evt" using len by (intro wf_request) simp_all
  have "client_dispatch ?evt c = Ok (c\<lparr>called := called c @ [(f, ?data, Some ud)]\<rparr>)"
    using assms(3-5) by (simp add: client_dispatch_def on_event_def read_at_def GetEventCallback_def GetEventUserData_def)
  then have disp: "client_round j (word_of_nat (length (body ?evt))) (body ?evt @ stale) c = Ok (c\<lparr>called := called c @ [(f, ?data, Some ud)]\<rparr>)"
    unfolding rounds_dispatch(1) [OF wf] .
  have r: "MCACountEventData_read ?data = d" using b by (rule MCACountEventData_read_bytes)
  have "\<exists>b n cq' data r. fetchNextMsg cq = Ok (b, n, cq') \<and> content cq' = crest
      \<and> client_round j n (b @ stale) c = Ok (c\<lparr>called := called c @ [(f, data, Some ud)]\<rparr>)
      \<and> MCACountEventData_read data = r \<and> mca_count r = length ps \<and> mca_timestamp r = ts \<and> total_max_bin_count r = nch
      \<and> take (length ps) (bins r) = map (\<lambda>p. word_of_int \<lfloor>fst p / 10 * of_nat (unat nch)\<rfloor>) ps"
    if w: "transmit (last (outbound_data_queue s')) = Ok wire" "content cq = wire @ crest" for wire crest
  proof -
    obtain cq' where cq': "fetchNextMsg cq = Ok (body ?evt, word_of_nat (length (body ?evt)), cq')" "content cq' = crest"
      using arrives [OF wf assms(12) _ w(2)] w(1) s'(2) by auto
    show ?thesis
      by (rule exI [of _ "body ?evt"], rule exI [of _ "word_of_nat (length (body ?evt))"], rule exI [of _ cq'], rule exI [of _ ?data],
          rule exI [of _ d]) (intro conjI cq' disp r df)
  qed
  then show ?thesis using mca s'(1) by blast
qed

theorem spectrum_end_to_end_witness:
  "\<exists>b n data. client_round j0 n (b @ []) ((client_init 3 :: nat client)\<lparr>creg := (registry_init 3)\<lparr>evt_callbacks := [2 \<mapsto> 7], evt_userData := [2 \<mapsto> 9]\<rparr>\<rparr>)
      = Ok ((client_init 3)\<lparr>creg := (registry_init 3)\<lparr>evt_callbacks := [2 \<mapsto> 7], evt_userData := [2 \<mapsto> 9]\<rparr>, called := [(7, data, Some 9)]\<rparr>)
    \<and> mca_count (MCACountEventData_read data) = 1 \<and> take 1 (bins (MCACountEventData_read data)) = [1024]"
proof -
  let ?c = "(client_init 3 :: nat client)\<lparr>creg := (registry_init 3)\<lparr>evt_callbacks := [2 \<mapsto> 7], evt_userData := [2 \<mapsto> 9]\<rparr>\<rparr>"
  let ?s = "(server_init 3 :: unit server)\<lparr>sreg := SetEvent (registry_init 3) 2\<rparr>"
  define d where "d = \<lparr>mca_count = 1, mca_timestamp = timestamp_wall ed_zero, total_max_bin_count = 2048, bins = 1024 # replicate 127 (0 :: u16)\<rparr>"
  define evt where "evt = request (iop_code EVT_RESPONSE) 0 (2 # MCACountEventData_bytes [0, 0] d)"
  define wire where "wire = frame (body evt)"
  have len: "length (MCACountEventData_bytes [0, 0] d) = 280"
    using length_MCACountEventData_bytes [of d "[0, 0]"] by (simp add: d_def MCACountEventData_layout)
  have wf: "wf_msg evt" unfolding evt_def using len by (intro wf_request) simp_all
  have t: "transmit evt = Ok wire" unfolding wire_def using wf by (rule transmit_frame)
  have q: "bq_live (full_queue wire)" "content (full_queue wire) = wire @ []"
    using full_queue_live [of wire] len by (simp_all add: wire_def evt_def frame_def)
  have "GetEvent (registered_events [Acq_h]) ''DCS::DAQ::MCACountEvent'' = Ok 2"
    by (simp add: GetEvent_def registered_events_def event_tables)
  moreover have "CheckEvent (sreg ?s) 2 = Ok True" "2 \<le> MAX_SUB (creg ?c)" "evt_callbacks (creg ?c) 2 = Some 7" "evt_userData (creg ?c) 2 = Some 9"
    by (simp_all add: registry_init_def)
  ultimately obtain d' s' where ds: "MCACountEvent (\<lambda>_. True) (replicate 128 0) 2048
      (ed_zero\<lparr>timestamp_wall := timestamp_wall ed_zero, counts := countArrayPeak (5 # replicate 999 0) (1 / 5) (10 :: rat) 0\<rparr>) daq_start
        = Ok (daq_start\<lparr>emitted := emitted daq_start @ [MCAData d']\<rparr>)"
    "EmitEvent j0 2 (MCACountEventData_bytes [0, 0] d') ?s = Ok s'"
    and fin: "\<forall>w crest. transmit (last (outbound_data_queue s')) = Ok w \<longrightarrow> content (full_queue wire) = w @ crest \<longrightarrow>
        (\<exists>b n cq' data r. fetchNextMsg (full_queue wire) = Ok (b, n, cq') \<and> content cq' = crest
          \<and> client_round j0 n (b @ []) ?c = Ok (?c\<lparr>called := called ?c @ [(7, data, Some 9)]\<rparr>)
          \<and> MCACountEventData_read data = r \<and> mca_count r = length [(5 :: rat, 1 :: nat)] \<and> mca_timestamp r = timestamp_wall ed_zero
          \<and> total_max_bin_count r = 2048
          \<and> take (length [(5 :: rat, 1 :: nat)]) (bins r) = map (\<lambda>p. word_of_int \<lfloor>fst p / 10 * of_nat (unat (2048 :: u16))\<rfloor>) [(5 :: rat, 1 :: nat)])"
    using spectrum_end_to_end [where order = "[Acq_h]" and e = 2 and s = ?s and c = ?c and f = 7 and ud = 9 and samples = "5 # replicate 999 (0 :: rat)"
        and ?bins0.0 = "replicate 128 0" and gap = "[0, 0]" and ps = "[(5, 1)]" and ?ed0.0 = ed_zero and ts = "timestamp_wall ed_zero"
        and cq = "full_queue wire" and daq = daq_start and nch = 2048 and j = j0 and stale = "[]", OF _ _ _ _ _ _ _ _ one_pulse(2) [symmetric] _ HOL.refl q(1)]
    by auto
  have "d' = d" using ds(1) mca_spectrum_witness by (simp add: d_def daq_start_def)
  then have "last (outbound_data_queue s') = evt"
    using ds(2) EmitEvent_subscribed [of ?s 2 "MCACountEventData_bytes [0, 0] d" j0] len by (auto simp: registry_init_def evt_def server_init_def)
  then show ?thesis using fin t q(2) by (fastforce simp: client_init_def)
qed

end
